(* ===== verification/Cxtpl_Prelude.thy ===== *)
theory Cxtpl_Prelude
  imports Main "HOL-Library.Word" "HOL-Library.Sublist"
begin

text \<open>
  Shared vocabulary of the development.

  \<^item> Strings: a \<open>std::string\<close> is an Isabelle \<open>string\<close> (a list of 8-bit characters, as the
    program's bytes), a \<open>base::string16\<close> is a list of 16-bit words.
  \<^item> The operations of \<open>std::basic_string\<close> that the sources call: \<open>find\<close>, \<open>rfind\<close> and
    \<open>substr\<close>. \<open>npos\<close> is the value \<open>None\<close>, \<open>substr\<close> throws past the end.
  \<^item> Effects of C++ code: a run returns, throws an exception or terminates the process.
\<close>

named_theorems run_simps \<open>evaluation rules of the run monad\<close>
named_theorems find_simps \<open>evaluation rules of the string searches\<close>

section \<open>Character types\<close>

type_synonym char16 = "16 word"
type_synonym string16 = "char16 list"

definition byte :: "char \<Rightarrow> 8 word" where
  "byte c = word_of_nat (of_char c)"

definition char_of_byte :: "8 word \<Rightarrow> char" where
  "char_of_byte w = char_of (unat w)"

lemma char_of_byte_byte [simp]: "char_of_byte (byte c) = c"
  by (simp add: char_of_byte_def byte_def unat_of_nat)

lemma byte_char_of_byte [simp]: "byte (char_of_byte w) = w"
proof -
  have "unat w < 2 ^ LENGTH(8)" by (rule unsigned_less)
  then have "unat w < 256" by simp
  then show ?thesis by (simp add: char_of_byte_def byte_def)
qed

section \<open>Searching in a string\<close>

text \<open>
  \<open>std::basic_string::find(needle)\<close> from position 0: the index of the first occurrence,
  \<open>None\<close> for \<open>npos\<close>. The empty needle occurs at 0.
\<close>

fun str_find :: "'a list \<Rightarrow> 'a list \<Rightarrow> nat option" where
  "str_find needle [] = (if needle = [] then Some 0 else None)"
| "str_find needle (c # cs) =
     (if take (length needle) (c # cs) = needle then Some 0
      else map_option Suc (str_find needle cs))"

definition occurs :: "'a list \<Rightarrow> 'a list \<Rightarrow> bool" where
  "occurs needle s \<longleftrightarrow> str_find needle s \<noteq> None"

text \<open>\<open>std::basic_string::rfind(c)\<close> for a single character: the index of its last occurrence.\<close>

fun str_rfind_char :: "'a \<Rightarrow> 'a list \<Rightarrow> nat option" where
  "str_rfind_char x [] = None"
| "str_rfind_char x (c # cs) =
     (case str_rfind_char x cs of
        Some n \<Rightarrow> Some (Suc n)
      | None \<Rightarrow> if c = x then Some 0 else None)"

lemma take_eq_prefix: "take (length p) s = p \<longleftrightarrow> prefix p s"
  by (metis append_eq_conv_conj prefix_def take_is_prefix)

lemma str_find_Some:
  "str_find p s = Some n \<Longrightarrow> n + length p \<le> length s \<and> take (length p) (drop n s) = p"
proof (induction s arbitrary: n)
  case Nil
  then show ?case by (auto split: if_splits)
next
  case (Cons c cs)
  show ?case
  proof (cases "take (length p) (c # cs) = p")
    case True
    with Cons.prems have "n = 0" by simp
    moreover from True have "length p \<le> length (c # cs)"
      by (metis length_take min.absorb_iff2 min.commute nat_le_linear)
    ultimately show ?thesis using True by simp
  next
    case False
    with Cons.prems obtain m where "str_find p cs = Some m" "n = Suc m" by auto
    with Cons.IH [of m] show ?thesis by simp
  qed
qed

lemma str_find_Some_split:
  "str_find p s = Some n \<Longrightarrow> s = take n s @ p @ drop (n + length p) s"
  by (metis append_take_drop_id drop_drop add.commute str_find_Some)

lemma str_find_None_iff: "str_find p s = None \<longleftrightarrow> \<not> sublist p s"
proof (induction s)
  case Nil
  then show ?case by simp
next
  case (Cons c cs)
  then show ?case
    by (auto simp: take_eq_prefix sublist_Cons_right)
qed

lemma occurs_iff: "occurs p s \<longleftrightarrow> sublist p s"
  using str_find_None_iff [of p s] by (auto simp: occurs_def)

lemma str_find_minimal:
  "str_find p s = Some n \<Longrightarrow> m < n \<Longrightarrow> take (length p) (drop m s) \<noteq> p"
proof (induction s arbitrary: n m)
  case Nil
  then show ?case by (auto split: if_splits)
next
  case (Cons c cs)
  then obtain k where k: "str_find p cs = Some k" "n = Suc k" "take (length p) (c # cs) \<noteq> p"
    by (auto split: if_splits)
  with Cons.prems Cons.IH [of k] show ?case by (cases m) auto
qed

text \<open>
  The first occurrence of \<open>p\<close> in \<open>a @ p @ b\<close> is at \<open>length a\<close> exactly when \<open>p\<close> does not occur
  earlier; this is what lets a printed template be found again.
\<close>

definition first_at :: "'a list \<Rightarrow> 'a list \<Rightarrow> 'a list \<Rightarrow> bool" where
  "first_at p a b \<longleftrightarrow> str_find p (a @ p @ b) = Some (length a)"

lemma str_find_at: "str_find p (p @ b) = Some 0"
proof (cases "p @ b")
  case (Cons c cs)
  then have "take (length p) (c # cs) = p" by (metis append_eq_conv_conj)
  with Cons show ?thesis by simp
qed simp

lemma str_find_I:
  assumes "take (length p) (drop n s) = p" and "n \<le> length s"
    and "\<And>m. m < n \<Longrightarrow> take (length p) (drop m s) \<noteq> p"
  shows "str_find p s = Some n"
  using assms
proof (induction n arbitrary: s)
  case 0
  then have "s = p @ drop (length p) s" by (metis append_take_drop_id drop_0)
  then show ?case by (metis str_find_at)
next
  case (Suc n)
  then obtain c cs where s: "s = c # cs" by (cases s) auto
  have "take (length p) (c # cs) \<noteq> p" using Suc.prems(3) [of 0] s by simp
  moreover have "str_find p cs = Some n"
  proof (rule Suc.IH)
    show "take (length p) (drop n cs) = p" using Suc.prems(1) s by simp
    show "n \<le> length cs" using Suc.prems(2) s by simp
    show "\<And>m. m < n \<Longrightarrow> take (length p) (drop m cs) \<noteq> p"
      using Suc.prems(3) s by (metis Suc_less_eq drop_Suc_Cons)
  qed
  ultimately show ?case by (simp add: s)
qed

lemma str_find_Some_iff:
  "str_find p s = Some n \<longleftrightarrow>
     n \<le> length s \<and> take (length p) (drop n s) = p \<and>
     (\<forall>m < n. take (length p) (drop m s) \<noteq> p)"
  by (metis add_leD1 str_find_I str_find_Some str_find_minimal)

lemma first_at_single: "c \<notin> set a \<Longrightarrow> str_find [c] (a @ c # b) = Some (length a)"
  by (induction a) auto

lemma str_find_single_None: "str_find [c] s = None \<longleftrightarrow> c \<notin> set s"
  by (induction s) auto

text \<open>
  A needle of the form \<open>p = x # q\<close> whose first character does not occur in \<open>q\<close> has no border, so it
  is found at \<open>length a\<close> in \<open>a @ p @ b\<close> as soon as it does not occur in \<open>a\<close> itself.
\<close>

lemma prefix_overlap:
  assumes "prefix p (a @ p @ b)" and "a \<noteq> []" and p: "p = x # q" and x: "x \<notin> set q"
  shows "prefix p a"
proof (cases "length p \<le> length a")
  case True
  with assms(1) show ?thesis by (rule_tac prefix_length_prefix) auto
next
  case False
  then have len: "length a < length p" by simp
  from assms(1) obtain r where r: "a @ p @ b = p @ r" by (auto simp: prefix_def)
  have "p ! length a = (p @ r) ! length a" using len by (simp add: nth_append)
  also have "\<dots> = (a @ p @ b) ! length a" by (simp only: r)
  also have "\<dots> = x" by (simp add: p nth_append)
  finally have "p ! length a = x" .
  moreover from len assms(2) p have "p ! length a \<in> set q" by (cases a) auto
  ultimately show ?thesis using x by simp
qed

lemma first_at_no_border:
  assumes p: "p = x # q" and x: "x \<notin> set q" and a: "\<not> sublist p a"
  shows "str_find p (a @ p @ b) = Some (length a)"
  using a
proof (induction a)
  case Nil
  then show ?case by (simp add: str_find_at)
next
  case (Cons c cs)
  have "\<not> prefix p ((c # cs) @ p @ b)"
    using prefix_overlap [of p "c # cs" b x q] p x Cons.prems
    by (auto simp: sublist_Cons_right)
  moreover have "\<not> sublist p cs"
    using Cons.prems by (auto simp: sublist_Cons_right)
  ultimately show ?case using Cons.IH by (simp add: take_eq_prefix)
qed

section \<open>Runs of C++ code\<close>

text \<open>
  A run of a C++ function either returns a value, leaves with an exception, or ends the process
  (\<open>std::terminate\<close>, a failed \<open>CHECK\<close>). \<open>Pending\<close> is a run that has not returned within the
  nesting depth it was given; it is the value of a recursion that never comes back.
\<close>

datatype cpp_exception = Out_of_range | System_error | Unknown_exception

datatype 'a run = Ret 'a | Raise cpp_exception | Terminated | Pending

primrec run_bind :: "'a run \<Rightarrow> ('a \<Rightarrow> 'b run) \<Rightarrow> 'b run" where
  "run_bind (Ret x) f = f x"
| "run_bind (Raise e) f = Raise e"
| "run_bind Terminated f = Terminated"
| "run_bind Pending f = Pending"

text \<open>A \<open>noexcept\<close> function turns an escaping exception into \<open>std::terminate\<close>.\<close>

fun noexcept :: "'a run \<Rightarrow> 'a run" where
  "noexcept (Raise e) = Terminated"
| "noexcept r = r"

text \<open>A \<open>CHECK\<close> of Chromium's logging ends the process when its condition fails.\<close>

definition CHECK :: "bool \<Rightarrow> unit run" where
  "CHECK b = (if b then Ret () else Terminated)"

text \<open>\<open>std::basic_string::substr(pos, n)\<close> and \<open>std::vector::at(i)\<close> throw \<open>std::out_of_range\<close>.\<close>

definition str_substr :: "'a list \<Rightarrow> nat \<Rightarrow> nat \<Rightarrow> 'a list run" where
  "str_substr s pos n = (if pos > length s then Raise Out_of_range else Ret (take n (drop pos s)))"

definition vec_at :: "'a list \<Rightarrow> nat \<Rightarrow> 'a run" where
  "vec_at xs i = (if i < length xs then Ret (xs ! i) else Raise Out_of_range)"

lemma run_bind_assoc: "run_bind (run_bind m f) g = run_bind m (\<lambda>x. run_bind (f x) g)"
  by (cases m) auto

lemma run_bind_Ret [simp]: "run_bind m Ret = m"
  by (cases m) auto

lemma run_bind_eq_Ret [run_simps]:
  "run_bind m f = Ret y \<longleftrightarrow> (\<exists>x. m = Ret x \<and> f x = Ret y)"
  by (cases m) auto

lemma noexcept_eq_Ret [simp]: "noexcept m = Ret x \<longleftrightarrow> m = Ret x"
  by (cases m) auto

lemma noexcept_Ret_id: "m = Ret x \<Longrightarrow> noexcept m = Ret x"
  by simp

lemma noexcept_not_Raise [simp]: "noexcept m \<noteq> Raise e"
  by (cases m) auto

lemma str_substr_0 [simp]: "str_substr s 0 n = Ret (take n s)"
  by (simp add: str_substr_def)

lemma str_substr_suffix [simp]: "pos \<le> length s \<Longrightarrow> str_substr s pos (length s - pos) = Ret (drop pos s)"
  by (simp add: str_substr_def)

lemma vec_at_0 [simp]: "vec_at (x # xs) 0 = Ret x"
  by (simp add: vec_at_def)

lemma CHECK_True [simp]: "CHECK True = Ret ()" and CHECK_False [simp]: "CHECK False = Terminated"
  by (simp_all add: CHECK_def)

end
