(* ===== verification/Cxtpl_Errors.thy ===== *)
theory Cxtpl_Errors
  imports Cxtpl_Prelude
begin

text \<open>
  The error values of the engine (\<open>include/core/errors/errors.hpp\<close>,
  \<open>src/core/errors/errors_GeneratorError.cpp\<close>) and the outcome macros of
  \<open>include/integrations/outcome\<close>: the enumeration, its category with the message of every value,
  the error with its extra information, and the early return of \<open>OUTCOME_TRY\<close>.
\<close>

section \<open>Error values\<close>

datatype generator_error =
    UNKNOWN_TAG | FILE_NOT_FOUND | FAILED_TO_READ_FILE | FAILED_TO_WRITE_FILE
  | EMPTY_INPUT | UNCLOSED_TAG

record generator_error_extra_info =
  ec :: generator_error
  extra_info :: string

text \<open>The enumerators have the values 0 to 5, in the order of their declaration.\<close>

fun enum_value :: "generator_error \<Rightarrow> int" where
  "enum_value UNKNOWN_TAG = 0"
| "enum_value FILE_NOT_FOUND = 1"
| "enum_value FAILED_TO_READ_FILE = 2"
| "enum_value FAILED_TO_WRITE_FILE = 3"
| "enum_value EMPTY_INPUT = 4"
| "enum_value UNCLOSED_TAG = 5"

text \<open>\<open>Category<GeneratorError>::toString\<close>: the switch over the enumerators and its fall-through.\<close>

definition category_message :: "int \<Rightarrow> string" where
  "category_message c =
     (if c = enum_value UNKNOWN_TAG then ''you need to specify valid key type''
      else if c = enum_value FILE_NOT_FOUND then ''file not found''
      else if c = enum_value FAILED_TO_READ_FILE then ''failed to read file''
      else if c = enum_value FAILED_TO_WRITE_FILE then ''failed to write file''
      else if c = enum_value EMPTY_INPUT then ''no input data''
      else if c = enum_value UNCLOSED_TAG then ''starting tag without ending tag''
      else ''unknown error'')"

text \<open>
  The category's name. The declaring macro turns its argument into a string literal twice
  (\<open>#categoryname\<close> of an argument that already is a literal), so the name carries its quotes.
\<close>

definition category_name :: string where
  "category_name = CHR 0x22 # ''CXTPL::core::errors::GeneratorError'' @ [CHR 0x22]"

record error_code =
  code_value :: int
  code_category :: string

text \<open>\<open>make_error_code\<close> of the enumeration and of the error with extra information.\<close>

definition make_error_code :: "generator_error \<Rightarrow> error_code" where
  "make_error_code e = \<lparr>code_value = enum_value e, code_category = category_name\<rparr>"

definition make_error_code_of_info :: "generator_error_extra_info \<Rightarrow> error_code" where
  "make_error_code_of_info fi = make_error_code (ec fi)"

definition error_code_message :: "error_code \<Rightarrow> string" where
  "error_code_message c = category_message (code_value c)"

text \<open>\<open>std::error_code::operator bool\<close>: a code is an error when its value is not 0.\<close>

definition error_code_is_error :: "error_code \<Rightarrow> bool" where
  "error_code_is_error c \<longleftrightarrow> code_value c \<noteq> 0"

text \<open>
  What reading the value of an error does: the function of Outcome that throws for the codes of the standard categories
  is a parameter; when it returns, the process ends.
\<close>

definition outcome_throw_as_system_error_with_payload ::
  "(error_code \<Rightarrow> unit run) \<Rightarrow> generator_error_extra_info \<Rightarrow> unit run" where
  "outcome_throw_as_system_error_with_payload try_throw_std_exception_from_error fi =
     run_bind (try_throw_std_exception_from_error (make_error_code (ec fi))) (\<lambda>_. Terminated)"

lemma outcome_throw_never_returns: "outcome_throw_as_system_error_with_payload try_throw fi \<noteq> Ret x"
  by (cases "try_throw (make_error_code (ec fi))") (simp_all add: outcome_throw_as_system_error_with_payload_def)

section \<open>Outcomes\<close>

text \<open>
  \<open>outcome::result<T, GeneratorErrorExtraInfo>\<close> is a sum: \<open>Inl\<close> of the error or \<open>Inr\<close> of the value.
  \<open>OUTCOME_TRY\<close> returns the error to the caller and continues with the value.
\<close>

type_synonym 'a outcome = "generator_error_extra_info + 'a"

definition OUTCOME_TRY :: "'a outcome run \<Rightarrow> ('a \<Rightarrow> 'b outcome run) \<Rightarrow> 'b outcome run" where
  "OUTCOME_TRY m f = run_bind m (\<lambda>r. case r of Inl e \<Rightarrow> Ret (Inl e) | Inr x \<Rightarrow> f x)"

abbreviation success :: "'a \<Rightarrow> 'a outcome run" where
  "success x \<equiv> Ret (Inr x)"

abbreviation failure :: "generator_error \<Rightarrow> string \<Rightarrow> 'a outcome run" where
  "failure e msg \<equiv> Ret (Inl \<lparr>ec = e, extra_info = msg\<rparr>)"

lemma OUTCOME_TRY_success [simp]: "OUTCOME_TRY (success x) f = f x"
  and OUTCOME_TRY_failure [simp]: "OUTCOME_TRY (Ret (Inl e)) f = Ret (Inl e)"
  and OUTCOME_TRY_Raise [simp]: "OUTCOME_TRY (Raise ex) f = Raise ex"
  and OUTCOME_TRY_Terminated [simp]: "OUTCOME_TRY Terminated f = Terminated"
  and OUTCOME_TRY_Pending [simp]: "OUTCOME_TRY Pending f = Pending"
  by (simp_all add: OUTCOME_TRY_def)

lemma OUTCOME_TRY_eq_success [run_simps]:
  "OUTCOME_TRY m f = success y \<longleftrightarrow> (\<exists>x. m = success x \<and> f x = success y)"
  by (cases m) (auto simp: OUTCOME_TRY_def split: sum.splits)

lemma OUTCOME_TRY_eq_failure [run_simps]:
  "OUTCOME_TRY m f = Ret (Inl e) \<longleftrightarrow>
     m = Ret (Inl e) \<or> (\<exists>x. m = success x \<and> f x = Ret (Inl e))"
  by (cases m) (auto simp: OUTCOME_TRY_def split: sum.splits)

lemma OUTCOME_TRY_assoc:
  "OUTCOME_TRY (OUTCOME_TRY m f) g = OUTCOME_TRY m (\<lambda>x. OUTCOME_TRY (f x) g)"
  by (cases m) (auto simp: OUTCOME_TRY_def split: sum.splits)

lemma OUTCOME_TRY_cong:
  "m = m' \<Longrightarrow> (\<And>x. m' = success x \<Longrightarrow> f x = f' x) \<Longrightarrow> OUTCOME_TRY m f = OUTCOME_TRY m' f'"
  by (cases m') (auto simp: OUTCOME_TRY_def split: sum.splits)

section \<open>Correctness\<close>

lemma category_message_distinct:
  "category_message (enum_value e) = category_message (enum_value e') \<longleftrightarrow> e = e'"
  by (cases e; cases e') (simp_all add: category_message_def)

lemma enum_value_inj: "enum_value e = enum_value e' \<longleftrightarrow> e = e'"
  by (cases e; cases e') simp_all

lemma enum_value_range: "0 \<le> enum_value e \<and> enum_value e \<le> 5"
  by (cases e) simp_all

section \<open>Properties\<close>

text \<open>
  C33: error codes of the generator tell its errors apart, by their values and by their messages, and no
  error has the message of an unknown value; all are errors to \<open>std::error_code\<close> except \<open>UNKNOWN_TAG\<close>,
  whose value is 0.
\<close>

theorem error_codes_distinct:
  "(make_error_code e = make_error_code e' \<longleftrightarrow> e = e') \<and>
   (error_code_message (make_error_code e) = error_code_message (make_error_code e') \<longleftrightarrow> e = e') \<and>
   error_code_message (make_error_code e) \<noteq> category_message (-1) \<and>
   (error_code_is_error (make_error_code_of_info \<lparr>ec = e, extra_info = msg\<rparr>) \<longleftrightarrow> e \<noteq> UNKNOWN_TAG)"
proof (intro conjI)
  show "make_error_code e = make_error_code e' \<longleftrightarrow> e = e'" by (simp add: make_error_code_def enum_value_inj)
  show "error_code_message (make_error_code e) = error_code_message (make_error_code e') \<longleftrightarrow> e = e'"
    by (simp add: make_error_code_def error_code_message_def category_message_distinct)
  show "error_code_message (make_error_code e) \<noteq> category_message (-1)"
    by (cases e) (simp_all add: make_error_code_def error_code_message_def category_message_def)
  show "error_code_is_error (make_error_code_of_info \<lparr>ec = e, extra_info = msg\<rparr>) \<longleftrightarrow> e \<noteq> UNKNOWN_TAG"
    by (cases e) (simp_all add: make_error_code_of_info_def make_error_code_def error_code_is_error_def)
qed

end
