(* ===== verification/Cxtpl_Codegen.thy ===== *)
theory Cxtpl_Codegen
  imports Cxtpl_Prelude
begin

text \<open>
  The code generator of \<open>src/codegen/cpp/cpp_codegen.cpp\<close>: five callbacks that turn the text between
  two tags into C++ source appended to the generated file. A lexer for C++ raw string literals
  states what the generated text means to the compiler that reads it.
\<close>

section \<open>The callbacks of CodeGenerator\<close>

abbreviation cpp_newline :: string where
  "cpp_newline \<equiv> [CHR 0x0A]"

abbreviation dquote :: string where
  "dquote \<equiv> [CHR 0x22]"

definition appendToVariable :: "string \<Rightarrow> string \<Rightarrow> string" where
  "appendToVariable text outVarName =
     cpp_newline @ outVarName @ cpp_newline @ '' += '' @ text @ '' ; '' @ cpp_newline"

definition appendToVariableAsString :: "string \<Rightarrow> string \<Rightarrow> string" where
  "appendToVariableAsString text outVarName =
     appendToVariable (cpp_newline @ '' std::to_string( '' @ text @ '' ) '' @ cpp_newline) outVarName"

definition executeCodeLine :: "string \<Rightarrow> string \<Rightarrow> string" where
  "executeCodeLine text outVarName = text"

definition executeCodeMultiline :: "string \<Rightarrow> string \<Rightarrow> string" where
  "executeCodeMultiline text outVarName = text"

definition raw_open :: string where
  "raw_open = ''R'' @ dquote @ ''raw(''"

definition raw_close :: string where
  "raw_close = '')raw'' @ dquote"

definition appendToVariableAsRawText :: "string \<Rightarrow> string \<Rightarrow> string" where
  "appendToVariableAsRawText text outVarName =
     appendToVariable (cpp_newline @ raw_open @ text @ raw_close @ cpp_newline) outVarName"

section \<open>Raw string literals of C++\<close>

text \<open>
  \<open>R"delim(chars)delim"\<close>: the delimiter has at most 16 characters, none of them a parenthesis, a
  backslash or a space; the literal ends at the first \<open>)delim"\<close>. The lexer returns the characters
  and the source text after the literal.
\<close>

definition raw_delimiter_ok :: "string \<Rightarrow> bool" where
  "raw_delimiter_ok d \<longleftrightarrow> length d \<le> 16 \<and>
     (\<forall>c \<in> set d. c \<notin> set ''() '' \<and> c \<noteq> CHR 0x5C \<and> c \<noteq> CHR 0x0A \<and> c \<noteq> CHR 0x09
                   \<and> c \<noteq> CHR 0x0B \<and> c \<noteq> CHR 0x0C)"

fun lex_raw_string :: "string \<Rightarrow> (string \<times> string) option" where
  "lex_raw_string (r # q # rest) =
     (if r = CHR ''R'' \<and> q = CHR 0x22 then
        (case str_find ''('' rest of
           None \<Rightarrow> None
         | Some k \<Rightarrow>
             let d = take k rest; body = drop (Suc k) rest; close = '')'' @ d @ dquote in
             if raw_delimiter_ok d then
               (case str_find close body of
                  None \<Rightarrow> None
                | Some n \<Rightarrow> Some (take n body, drop (n + length close) body))
             else None)
      else None)"
| "lex_raw_string _ = None"

lemma lex_raw_open:
  "lex_raw_string (raw_open @ body) =
     (case str_find raw_close body of
        None \<Rightarrow> None
      | Some n \<Rightarrow> Some (take n body, drop (n + length raw_close) body))"
  by (simp add: raw_open_def raw_close_def raw_delimiter_ok_def Let_def split: option.split)

lemma raw_close_found:
  "\<not> sublist raw_close t \<Longrightarrow> str_find raw_close (t @ raw_close @ rest) = Some (length t)"
  by (rule first_at_no_border [where x = "CHR '')''" and q = "''raw'' @ dquote"])
    (simp_all add: raw_close_def)

lemma raw_literal_exact:
  "\<not> sublist raw_close t \<Longrightarrow> lex_raw_string (raw_open @ t @ raw_close @ rest) = Some (t, rest)"
  by (simp add: lex_raw_open raw_close_found)

lemma raw_literal_cut:
  assumes "sublist raw_close t"
  shows "\<exists>n < length t. lex_raw_string (raw_open @ t @ raw_close @ rest)
           = Some (take n t, drop (n + 5) (t @ raw_close @ rest))"
proof -
  from assms obtain n where n: "str_find raw_close t = Some n"
    by (metis not_None_eq str_find_None_iff)
  then have le: "n + length raw_close \<le> length t" and at: "take (length raw_close) (drop n t) = raw_close"
    using str_find_Some by blast+
  have "str_find raw_close (t @ raw_close @ rest) = Some n"
    unfolding str_find_Some_iff
  proof (intro conjI allI impI)
    show "n \<le> length (t @ raw_close @ rest)" using le by simp
    show "take (length raw_close) (drop n (t @ raw_close @ rest)) = raw_close"
      using le at by simp
    fix m assume "m < n"
    with str_find_minimal [OF n] le
    show "take (length raw_close) (drop m (t @ raw_close @ rest)) \<noteq> raw_close"
      by simp
  qed
  moreover have "length raw_close = 5" by (simp add: raw_close_def)
  moreover have "n < length t" using le by (simp add: raw_close_def)
  ultimately show ?thesis by (auto simp: lex_raw_open)
qed

section \<open>Shape of the generated source\<close>

lemma appendToVariable_shape:
  "appendToVariable text v = cpp_newline @ v @ (CHR 0x0A # '' += '') @ text @ '' ; '' @ cpp_newline"
  by (simp add: appendToVariable_def)

lemma appendToVariable_not_empty [simp]: "appendToVariable text v \<noteq> []"
  by (simp add: appendToVariable_def)

lemma appendToVariableAsRawText_not_empty [simp]: "appendToVariableAsRawText text v \<noteq> []"
  by (simp add: appendToVariableAsRawText_def)

text \<open>The statement that appends a raw literal: the source before the literal, and after it.\<close>

definition raw_text_head :: "string \<Rightarrow> string" where
  "raw_text_head v = cpp_newline @ v @ cpp_newline @ '' += '' @ cpp_newline"

definition raw_text_tail :: string where
  "raw_text_tail = cpp_newline @ '' ; '' @ cpp_newline"

lemma appendToVariableAsRawText_split:
  "appendToVariableAsRawText t v = raw_text_head v @ raw_open @ t @ raw_close @ raw_text_tail"
  by (simp add: appendToVariableAsRawText_def appendToVariable_def raw_text_head_def raw_text_tail_def)

end
