(* ===== verification/Cxtpl_Words.thy ===== *)
theory Cxtpl_Words
  imports Cxtpl_Prelude
begin

text \<open>
  Arithmetic of machine words used by the character decoders: masks, shifts and disjoint unions of
  words are remainders, quotients and sums of their values.
\<close>

unbundle bit_operations_syntax

lemma nat_or_add: "b < 2 ^ n \<Longrightarrow> 2 ^ n dvd a \<Longrightarrow> a OR b = a + (b::nat)"
proof -
  assume b: "b < 2 ^ n" and a: "2 ^ n dvd a"
  then obtain k where k: "a = push_bit n k" by (metis dvd_def mult.commute push_bit_eq_mult)
  have "bit b i \<Longrightarrow> i < n" for i
    using b by (metis bit_take_bit_iff take_bit_nat_eq_self)
  then have "a AND b = 0" unfolding k by (intro bit_eqI) (auto simp: bit_simps dest: leD)
  then show ?thesis by (simp add: disjunctive_add_eq_or)
qed

lemma unat_and_mask: "unat (w AND mask n) = unat w mod 2 ^ n"
  by (simp only: take_bit_eq_mask [symmetric] unsigned_take_bit_eq) (simp add: take_bit_eq_mod)

lemmas unat_and_lits =
  unat_and_mask [where n = 3, simplified mask_eq_exp_minus_1, simplified]
  unat_and_mask [where n = 4, simplified mask_eq_exp_minus_1, simplified]
  unat_and_mask [where n = 5, simplified mask_eq_exp_minus_1, simplified]
  unat_and_mask [where n = 6, simplified mask_eq_exp_minus_1, simplified]
  unat_and_mask [where n = 10, simplified mask_eq_exp_minus_1, simplified]


lemma unat_drop: "unat (drop_bit n w) = unat w div 2 ^ n" for w :: "'a::len word"
proof -
  have "take_bit LENGTH('a) (unat w) = unat w"
    by (rule take_bit_nat_eq_self) (rule unsigned_less)
  then show ?thesis by (simp only: unsigned_drop_bit_eq drop_bit_eq_div [where 'a = nat])
qed

lemma unat_or_add: "unat b < 2 ^ n \<Longrightarrow> 2 ^ n dvd unat a \<Longrightarrow> unat (a OR b) = unat a + unat b"
  by (simp add: unsigned_or_eq nat_or_add)

lemma unat_push: "unat w * 2 ^ n < 2 ^ LENGTH('a) \<Longrightarrow> unat (push_bit n w) = unat w * 2 ^ n" for w :: "'a::len word"
  by (simp only: unsigned_push_bit_eq push_bit_eq_mult [where 'a = nat] take_bit_nat_eq_self)

lemma unat_ucast_eq: "unat w < 2 ^ LENGTH('b) \<Longrightarrow> unat (ucast w :: 'b::len word) = unat w" for w :: "'a::len word"
  by (simp add: unsigned_ucast_eq take_bit_nat_eq_self)

lemma unat_ucast8 [simp]: "unat (ucast (w :: 8 word) :: 32 word) = unat w"
proof (rule unat_ucast_eq)
  have "unat w < 2 ^ LENGTH(8)" by (rule unsigned_less)
  then show "unat w < 2 ^ LENGTH(32)" by simp
qed

lemma unat8_less: "unat (w :: 8 word) < 256"
proof -
  have "unat w < 2 ^ LENGTH(8)" by (rule unsigned_less)
  then show ?thesis by simp
qed

lemma odd_div_128: "(n::nat) < 256 \<Longrightarrow> odd (n div 128) \<longleftrightarrow> \<not> n < 128"
proof (cases "n < 128")
  case False
  moreover assume "n < 256"
  ultimately have "n div 128 = 1" by (intro div_nat_eqI) auto
  with False show ?thesis by simp
qed simp

lemma word_eq_of_nat: "unat w = n \<Longrightarrow> w = of_nat n" by auto

lemma mod_top: "d * q \<le> n \<Longrightarrow> n < d * q + d \<Longrightarrow> n mod d = n - d * (q::nat)"
proof -
  assume "d * q \<le> n" and n: "n < d * q + d"
  then obtain k where k: "n = d * q + k" using le_Suc_ex by blast
  with n show ?thesis by simp
qed

lemma split64: "(n::nat) = (n div 4096) * 4096 + (n div 64 mod 64) * 64 + n mod 64"
proof -
  have "n = n div 64 * 64 + n mod 64" by simp
  moreover have "n div 64 = n div 64 div 64 * 64 + n div 64 mod 64" by simp
  moreover have "n div 64 div 64 = n div 4096" by (simp add: div_mult2_eq [symmetric])
  ultimately show ?thesis by linarith
qed

lemma split64': "(n::nat) = (n div 262144) * 262144 + (n div 4096 mod 64) * 4096 + (n div 64 mod 64) * 64 + n mod 64"
proof -
  have "n div 4096 = n div 4096 div 64 * 64 + n div 4096 mod 64" by simp
  moreover have "n div 4096 div 64 = n div 262144" by (simp add: div_mult2_eq [symmetric])
  ultimately show ?thesis using split64 [of n] by linarith
qed

lemma dm64: "y < 64 \<Longrightarrow> (m * 64 + y) div 64 = (m::nat)" "y < 64 \<Longrightarrow> (m * 64 + y) mod 64 = y"
  by simp_all

lemma div4096: "(n::nat) div 4096 = n div 64 div 64" and div262144: "(n::nat) div 262144 = n div 64 div 64 div 64"
  by (simp_all add: div_mult2_eq [symmetric])

lemma and_not_mask: "(c :: 'a::len word) AND NOT (mask n) = push_bit n (drop_bit n c)"
  by (rule bit_eqI) (auto simp: bit_simps)

lemma unat_and_high: "unat ((c :: 'a::len word) AND NOT (mask n)) = unat c div 2 ^ n * 2 ^ n"
proof -
  have "unat c div 2 ^ n * 2 ^ n < 2 ^ LENGTH('a)"
    using unsigned_less [of c] by (metis div_times_less_eq_dividend le_less_trans)
  then show ?thesis unfolding and_not_mask by (subst unat_push) (simp_all add: unat_drop)
qed

lemma div_block: "d > 0 \<Longrightarrow> n div d = q \<longleftrightarrow> q * d \<le> n \<and> n < Suc q * (d :: nat)"
  by (metis div_nat_eqI dividend_less_times_div le_add1 mult.commute times_div_less_eq_dividend mult_Suc)

lemma unat16_less: "unat (w :: char16) < 65536"
proof -
  have "unat w < 2 ^ LENGTH(16)" by (rule unsigned_less)
  then show ?thesis by simp
qed

lemma unat_ucast16 [simp]: "unat (ucast (w :: char16) :: 32 word) = unat w"
  by (rule unat_ucast_eq) (use unat16_less [of w] in simp)

end
