(* ===== verification/Base_Icu_Utf.thy ===== *)
theory Base_Icu_Utf
  imports Cxtpl_Prelude Cxtpl_Words
begin

text \<open>
  The UTF-8 and UTF-16 code point macros of \<open>third_party/chromium/base/third_party/icu/icu_utf.h\<close>,
  the out-of-line decoder of \<open>icu_utf.cc\<close> and the validity checks of
  \<open>utf_string_conversion_utils.h\<close>. Code points are 32-bit words, code units 8- and 16-bit words;
  an index is the code's \<open>int32_t\<close>, and reading at the end of a buffer gives the terminating NUL.
\<close>

unbundle bit_operations_syntax

type_synonym code_point = "32 word"

section \<open>Validity of code points\<close>

definition CBU_SENTINEL :: code_point where
  "CBU_SENTINEL = -1"

definition IsValidCodepoint :: "code_point \<Rightarrow> bool" where
  "IsValidCodepoint c \<longleftrightarrow> c < 0xD800 \<or> (c \<ge> 0xE000 \<and> c \<le> 0x10FFFF)"

definition IsValidCharacter :: "code_point \<Rightarrow> bool" where
  "IsValidCharacter c \<longleftrightarrow> c < 0xD800 \<or> (c \<ge> 0xE000 \<and> c < 0xFDD0) \<or>
     (c > 0xFDEF \<and> c \<le> 0x10FFFF \<and> c AND 0xFFFE \<noteq> 0xFFFE)"

definition CBU_IS_UNICODE_NONCHAR :: "code_point \<Rightarrow> bool" where
  "CBU_IS_UNICODE_NONCHAR c \<longleftrightarrow>
     c \<ge> 0xfdd0 \<and> (c \<le> 0xfdef \<or> c AND 0xfffe = 0xfffe) \<and> c \<le> 0x10ffff"

definition CBU_IS_UNICODE_CHAR :: "code_point \<Rightarrow> bool" where
  "CBU_IS_UNICODE_CHAR c \<longleftrightarrow>
     c < 0xd800 \<or> (0xdfff < c \<and> c \<le> 0x10ffff \<and> \<not> CBU_IS_UNICODE_NONCHAR c)"

definition CBU_IS_SURROGATE :: "code_point \<Rightarrow> bool" where
  "CBU_IS_SURROGATE c \<longleftrightarrow> c AND 0xfffff800 = 0xd800"

definition CBU_IS_SURROGATE_LEAD :: "code_point \<Rightarrow> bool" where
  "CBU_IS_SURROGATE_LEAD c \<longleftrightarrow> c AND 0x400 = 0"

section \<open>UTF-8\<close>

definition u8_at :: "string \<Rightarrow> int \<Rightarrow> 8 word" where
  "u8_at s i = (if 0 \<le> i \<and> nat i < length s then byte (s ! nat i) else 0)"

definition CBU8_LEAD3_T1_BITS :: "8 word list" where
  "CBU8_LEAD3_T1_BITS =
     [0x20, 0x30, 0x30, 0x30, 0x30, 0x30, 0x30, 0x30, 0x30, 0x30, 0x30, 0x30, 0x30, 0x10, 0x30, 0x30]"

definition CBU8_IS_VALID_LEAD3_AND_T1 :: "code_point \<Rightarrow> 8 word \<Rightarrow> bool" where
  "CBU8_IS_VALID_LEAD3_AND_T1 lead t1 \<longleftrightarrow>
     CBU8_LEAD3_T1_BITS ! unat (lead AND 0xf) AND push_bit (unat (drop_bit 5 t1)) 1 \<noteq> 0"

definition CBU8_LEAD4_T1_BITS :: "8 word list" where
  "CBU8_LEAD4_T1_BITS =
     [0x00, 0x00, 0x00, 0x00, 0x00, 0x00, 0x00, 0x00, 0x1E, 0x0F, 0x0F, 0x0F, 0x00, 0x00, 0x00, 0x00]"

definition CBU8_IS_VALID_LEAD4_AND_T1 :: "code_point \<Rightarrow> 8 word \<Rightarrow> bool" where
  "CBU8_IS_VALID_LEAD4_AND_T1 lead t1 \<longleftrightarrow>
     CBU8_LEAD4_T1_BITS ! unat (drop_bit 4 t1) AND push_bit (unat (lead AND 7)) 1 \<noteq> 0"

definition CBU8_IS_SINGLE :: "code_point \<Rightarrow> bool" where
  "CBU8_IS_SINGLE c \<longleftrightarrow> c AND 0x80 = 0"

definition CBU8_IS_LEAD :: "8 word \<Rightarrow> bool" where
  "CBU8_IS_LEAD c \<longleftrightarrow> c - 0xc2 \<le> 0x32"

definition CBU8_IS_TRAIL :: "8 word \<Rightarrow> bool" where
  "CBU8_IS_TRAIL c \<longleftrightarrow> sint c < - 0x40"

definition CBU8_LENGTH :: "code_point \<Rightarrow> nat" where
  "CBU8_LENGTH c =
     (if c \<le> 0x7f then 1
      else if c \<le> 0x7ff then 2
      else if c \<le> 0xd7ff then 3
      else if c \<le> 0xdfff \<or> c > 0x10ffff then 0
      else if c \<le> 0xffff then 3 else 4)"

definition utf8_errorValue :: "code_point list" where
  "utf8_errorValue = [0x15, 0x9f, 0xffff, 0x10ffff, 0, 0]"

definition errorValue :: "int \<Rightarrow> int \<Rightarrow> code_point" where
  "errorValue count strict =
     (if strict \<ge> 0 then utf8_errorValue ! nat count
      else if strict = -3 then 0xfffd
      else CBU_SENTINEL)"

text \<open>
  \<open>utf8_nextCharSafeBody(s, pi, length, c, strict)\<close>: returns the new \<open>*pi\<close> and the code point. The
  conditions \<open>++i != length && (t = s[i] - 0x80) <= 0x3f\<close> leave \<open>i\<close> where the first failing test
  stopped, which the error path stores.
\<close>

definition utf8_nextCharSafeBody ::
  "string \<Rightarrow> int \<Rightarrow> int \<Rightarrow> code_point \<Rightarrow> int \<Rightarrow> int \<times> code_point" where
  "utf8_nextCharSafeBody s pi len c strict =
     (let fail = (\<lambda>i. (i, errorValue (i - pi) strict)) in
      if pi = len \<or> c > 0xf4 then fail pi
      else if c \<ge> 0xf0 then
        (let t1 = u8_at s pi; c = c AND 7 in
         if \<not> CBU8_IS_VALID_LEAD4_AND_T1 c t1 then fail pi
         else if pi + 1 = len then fail (pi + 1)
         else let t2 = u8_at s (pi + 1) - 0x80 in
           if \<not> t2 \<le> 0x3f then fail (pi + 1)
           else if pi + 2 = len then fail (pi + 2)
           else let t3 = u8_at s (pi + 2) - 0x80 in
             if \<not> t3 \<le> 0x3f then fail (pi + 2)
             else let c = push_bit 18 c OR push_bit 12 (ucast t1 AND 0x3f) OR push_bit 6 (ucast t2) OR ucast t3
               in if strict \<le> 0 \<or> \<not> CBU_IS_UNICODE_NONCHAR c then (pi + 3, c) else fail (pi + 3))
      else if c \<ge> 0xe0 then
        (let c = c AND 0xf in
         if strict \<noteq> -2 then
           (let t1 = u8_at s pi in
            if \<not> CBU8_IS_VALID_LEAD3_AND_T1 c t1 then fail pi
            else if pi + 1 = len then fail (pi + 1)
            else let t2 = u8_at s (pi + 1) - 0x80 in
              if \<not> t2 \<le> 0x3f then fail (pi + 1)
              else let c = push_bit 12 c OR push_bit 6 (ucast t1 AND 0x3f) OR ucast t2
                in if strict \<le> 0 \<or> \<not> CBU_IS_UNICODE_NONCHAR c then (pi + 2, c) else fail (pi + 2))
         else
           (let t1 = u8_at s pi - 0x80 in
            if \<not> (t1 \<le> 0x3f \<and> (c > 0 \<or> t1 \<ge> 0x20)) then fail pi
            else if pi + 1 = len then fail (pi + 1)
            else let t2 = u8_at s (pi + 1) - 0x80 in
              if \<not> t2 \<le> 0x3f then fail (pi + 1)
              else (pi + 2, push_bit 12 c OR push_bit 6 (ucast t1) OR ucast t2)))
      else if c \<ge> 0xc2 then
        (let t1 = u8_at s pi - 0x80 in
         if t1 \<le> 0x3f then (pi + 1, push_bit 6 (c - 0xc0) OR ucast t1) else fail pi)
      else fail pi)"

text \<open>\<open>CBU8_NEXT(s, i, length, c)\<close>: the new index and the code point, \<open>CBU_SENTINEL\<close> on an error.\<close>

definition CBU8_NEXT :: "string \<Rightarrow> int \<Rightarrow> int \<Rightarrow> int \<times> code_point" where
  "CBU8_NEXT s i len =
     (let c = (ucast (u8_at s i) :: code_point); i = i + 1 in
      if CBU8_IS_SINGLE c then (i, c)
      else
        let t1 = u8_at s i; t2 = u8_at s (i + 1) - 0x80 in
        if 0xe0 \<le> c \<and> c < 0xf0 \<and> (i + 1 < len \<or> len < 0) \<and>
           CBU8_IS_VALID_LEAD3_AND_T1 c t1 \<and> t2 \<le> 0x3f
        then (i + 2, push_bit 12 (c AND 0xf) OR push_bit 6 (ucast t1 AND 0x3f) OR ucast t2)
        else if c < 0xe0 \<and> c \<ge> 0xc2 \<and> i \<noteq> len \<and> t1 - 0x80 \<le> 0x3f
        then (i + 1, push_bit 6 (c AND 0x1f) OR ucast (t1 - 0x80))
        else utf8_nextCharSafeBody s i len c (-1))"

text \<open>\<open>CBU8_APPEND_UNSAFE(s, i, c)\<close>: the bytes written from index \<open>i\<close> on.\<close>

definition CBU8_APPEND_UNSAFE :: "code_point \<Rightarrow> 8 word list" where
  "CBU8_APPEND_UNSAFE c =
     (if c \<le> 0x7f then [ucast c]
      else
        (if c \<le> 0x7ff then [ucast (drop_bit 6 c OR 0xc0)]
         else
           (if c \<le> 0xffff then [ucast (drop_bit 12 c OR 0xe0)]
            else [ucast (drop_bit 18 c OR 0xf0), ucast (drop_bit 12 c AND 0x3f OR 0x80)])
           @ [ucast (drop_bit 6 c AND 0x3f OR 0x80)])
        @ [ucast (c AND 0x3f OR 0x80)])"

section \<open>UTF-16\<close>

definition CBU16_IS_SINGLE :: "code_point \<Rightarrow> bool" where
  "CBU16_IS_SINGLE c \<longleftrightarrow> \<not> CBU_IS_SURROGATE c"

definition CBU16_IS_LEAD :: "code_point \<Rightarrow> bool" where
  "CBU16_IS_LEAD c \<longleftrightarrow> c AND 0xfffffc00 = 0xd800"

definition CBU16_IS_TRAIL :: "code_point \<Rightarrow> bool" where
  "CBU16_IS_TRAIL c \<longleftrightarrow> c AND 0xfffffc00 = 0xdc00"

definition CBU16_SURROGATE_OFFSET :: code_point where
  "CBU16_SURROGATE_OFFSET = push_bit 10 0xd800 + 0xdc00 - 0x10000"

definition CBU16_GET_SUPPLEMENTARY :: "code_point \<Rightarrow> code_point \<Rightarrow> code_point" where
  "CBU16_GET_SUPPLEMENTARY lead trail = push_bit 10 lead + trail - CBU16_SURROGATE_OFFSET"

definition CBU16_LENGTH :: "code_point \<Rightarrow> nat" where
  "CBU16_LENGTH c = (if c \<le> 0xffff then 1 else 2)"

definition CBU16_APPEND_UNSAFE :: "code_point \<Rightarrow> char16 list" where
  "CBU16_APPEND_UNSAFE c =
     (if c \<le> 0xffff then [ucast c]
      else [ucast (drop_bit 10 c + 0xd7c0), ucast (c AND 0x3ff OR 0xdc00)])"

definition u16_at :: "string16 \<Rightarrow> int \<Rightarrow> char16" where
  "u16_at s i = (if 0 \<le> i \<and> nat i < length s then s ! nat i else 0)"

definition CBU16_NEXT :: "string16 \<Rightarrow> int \<Rightarrow> int \<Rightarrow> int \<times> code_point" where
  "CBU16_NEXT s i len =
     (let c = (ucast (u16_at s i) :: code_point); i = i + 1 in
      if CBU16_IS_LEAD c then
        (let c2 = (ucast (u16_at s i) :: code_point) in
         if i \<noteq> len \<and> CBU16_IS_TRAIL c2 then (i + 1, CBU16_GET_SUPPLEMENTARY c c2) else (i, c))
      else (i, c))"

section \<open>The decoder in terms of byte values\<close>

lemma trail_iff: "(w :: 8 word) - 0x80 \<le> 0x3f \<longleftrightarrow> 128 \<le> unat w \<and> unat w < 192"
  using unat8_less [of w] by (auto simp: word_le_nat_alt unat_sub_if')

lemma trail_val: "128 \<le> unat w \<Longrightarrow> unat ((w :: 8 word) - 0x80) = unat w - 128"
  by (simp add: unat_sub_if')

definition enc8 :: "nat \<Rightarrow> nat list" where
  "enc8 n = (if n < 128 then [n] else if n < 2048 then [192 + n div 64, 128 + n mod 64]
     else if n < 65536 then [224 + n div 4096, 128 + n div 64 mod 64, 128 + n mod 64]
     else [240 + n div 262144, 128 + n div 4096 mod 64, 128 + n div 64 mod 64, 128 + n mod 64])"

definition lead3_ok :: "nat \<Rightarrow> nat \<Rightarrow> bool" where
 "lead3_ok k b \<longleftrightarrow> 128 \<le> b \<and> b < 192 \<and> (k = 0 \<longrightarrow> 160 \<le> b) \<and> (k = 13 \<longrightarrow> b < 160)"

lemma lead3_table_all: "list_all (\<lambda>k. list_all (\<lambda>j. (CBU8_LEAD3_T1_BITS ! k AND push_bit j 1 \<noteq> 0) =
    ((j = 4 \<or> j = 5) \<and> (k = 0 \<longrightarrow> j = 5) \<and> (k = 13 \<longrightarrow> j = 4))) [0..<8]) [0..<16]"
  by code_simp

lemma lead4_table_all: "list_all (\<lambda>k. list_all (\<lambda>j. (CBU8_LEAD4_T1_BITS ! j AND push_bit k 1 \<noteq> 0) =
    (8 \<le> j \<and> j < 12 \<and> k < 5 \<and> (k = 0 \<longrightarrow> 9 \<le> j) \<and> (k = 4 \<longrightarrow> j = 8))) [0..<16]) [0..<8]"
  by code_simp

lemma IS_VALID_LEAD3_iff: assumes "224 \<le> unat c" "unat c < 240" shows
  "CBU8_IS_VALID_LEAD3_AND_T1 c t \<longleftrightarrow> lead3_ok (unat c - 224) (unat t)"
proof -
  have k: "unat c mod 16 = unat c - 224" using assms by presburger
  have "unat c - 224 < 16" "unat t div 32 < 8" using assms unat8_less [of t] by auto
  with lead3_table_all have "(CBU8_LEAD3_T1_BITS ! (unat c - 224) AND push_bit (unat t div 32) 1 \<noteq> 0) =
    ((unat t div 32 = 4 \<or> unat t div 32 = 5) \<and> (unat c - 224 = 0 \<longrightarrow> unat t div 32 = 5) \<and> (unat c - 224 = 13 \<longrightarrow> unat t div 32 = 4))"
    by (simp add: list_all_iff)
  then show ?thesis
    unfolding CBU8_IS_VALID_LEAD3_AND_T1_def lead3_ok_def unat_and_lits unat_drop k by auto
qed

definition lead4_ok :: "nat \<Rightarrow> nat \<Rightarrow> bool" where
 "lead4_ok k b \<longleftrightarrow> 128 \<le> b \<and> b < 192 \<and> k < 5 \<and> (k = 0 \<longrightarrow> 144 \<le> b) \<and> (k = 4 \<longrightarrow> b < 144)"

lemma IS_VALID_LEAD4_iff: assumes "240 \<le> unat c" "unat c < 248" shows
  "CBU8_IS_VALID_LEAD4_AND_T1 c t \<longleftrightarrow> lead4_ok (unat c - 240) (unat t)"
proof -
  have k: "unat c mod 8 = unat c - 240" using assms by presburger
  have "unat c - 240 < 8" "unat t div 16 < 16" using assms unat8_less [of t] by auto
  with lead4_table_all have "(CBU8_LEAD4_T1_BITS ! (unat t div 16) AND push_bit (unat c - 240) 1 \<noteq> 0) =
    (8 \<le> unat t div 16 \<and> unat t div 16 < 12 \<and> unat c - 240 < 5 \<and> (unat c - 240 = 0 \<longrightarrow> 9 \<le> unat t div 16) \<and> (unat c - 240 = 4 \<longrightarrow> unat t div 16 = 8))"
    by (simp add: list_all_iff)
  then show ?thesis
    unfolding CBU8_IS_VALID_LEAD4_AND_T1_def lead4_ok_def unat_and_lits unat_drop k by auto
qed

lemma and_idem_mask: "CBU8_IS_VALID_LEAD3_AND_T1 (c AND 0xf) t = CBU8_IS_VALID_LEAD3_AND_T1 c t"
  "CBU8_IS_VALID_LEAD4_AND_T1 (c AND 7) t = CBU8_IS_VALID_LEAD4_AND_T1 c t"
  by (simp_all add: CBU8_IS_VALID_LEAD3_AND_T1_def CBU8_IS_VALID_LEAD4_AND_T1_def and.assoc)

lemma join2: fixes a b :: code_point
  assumes "unat a < 64" "unat b < 64" shows "unat (push_bit 6 a OR b) = unat a * 64 + unat b"
  using assms by (subst unat_or_add [where n = 6]) (auto simp: unat_push)

lemma join3: fixes a b c :: code_point
  assumes "unat a < 64" "unat b < 64" "unat c < 64"
  shows "unat (push_bit 12 a OR push_bit 6 b OR c) = unat a * 4096 + unat b * 64 + unat c"
  using assms join2 [of b c]
  by (subst unat_or_add [where n = 12]) (auto simp: unat_push)

lemma join4: fixes a b c d :: code_point
  assumes "unat a < 64" "unat b < 64" "unat c < 64" "unat d < 64"
  shows "unat (push_bit 18 a OR push_bit 12 b OR push_bit 6 c OR d) = unat a * 262144 + unat b * 4096 + unat c * 64 + unat d"
proof -
  have a: "unat (push_bit 18 a) = unat a * 262144" using assms(1) by (subst unat_push) auto
  have "unat (push_bit 12 b OR push_bit 6 c OR d) = unat b * 4096 + unat c * 64 + unat d" (is "unat ?r = _")
    using assms by (intro join3)
  moreover have "unat (push_bit 18 a OR ?r) = unat (push_bit 18 a) + unat ?r"
  proof (rule unat_or_add)
    show "unat ?r < 2 ^ 18" unfolding calculation using assms by simp
    show "2 ^ 18 dvd unat (push_bit 18 a)" unfolding a by simp
  qed
  ultimately show ?thesis using a by simp
qed

lemma CBU8_IS_SINGLE_iff: "CBU8_IS_SINGLE (ucast (w :: 8 word)) \<longleftrightarrow> unat w < 128"
proof -
  have "((ucast w :: code_point) AND 2 ^ 7 = 0) \<longleftrightarrow> \<not> bit w 7"
    by (simp only: and_exp_eq_0_iff_not_bit) (simp add: bit_simps)
  also have "\<not> bit w 7 \<longleftrightarrow> unat w < 128"
  proof -
    have "bit w 7 \<longleftrightarrow> bit (unat w) 7" by (simp add: bit_unsigned_iff)
    also have "\<dots> \<longleftrightarrow> odd (unat w div 128)" by (simp add: bit_iff_odd)
    finally show ?thesis using odd_div_128 [OF unat8_less [of w]] by blast
  qed
  finally show ?thesis by (simp add: CBU8_IS_SINGLE_def)
qed

lemma u_lead2: "192 \<le> unat w \<Longrightarrow> unat w < 224 \<Longrightarrow> unat ((ucast (w :: 8 word) :: code_point) AND 0x1f) = unat w - 192"
  using mod_top [of 32 6 "unat w"] by (simp add: unat_and_lits)

lemma u_lead3: "224 \<le> unat w \<Longrightarrow> unat w < 240 \<Longrightarrow> unat ((ucast (w :: 8 word) :: code_point) AND 0xf) = unat w - 224"
  using mod_top [of 16 14 "unat w"] by (simp add: unat_and_lits)

lemma u_lead4: "240 \<le> unat w \<Longrightarrow> unat w < 248 \<Longrightarrow> unat ((ucast (w :: 8 word) :: code_point) AND 7) = unat w - 240"
  using mod_top [of 8 30 "unat w"] by (simp add: unat_and_lits)

lemma u_trail: "128 \<le> unat w \<Longrightarrow> unat (ucast ((w :: 8 word) - 0x80) :: code_point) = unat w - 128"
  by (simp only: unat_ucast8 trail_val)

lemma u_trail_and: "128 \<le> unat w \<Longrightarrow> unat w < 192 \<Longrightarrow> unat ((ucast (w :: 8 word) :: code_point) AND 0x3f) = unat w - 128"
  using mod_top [of 64 2 "unat w"] by (simp add: unat_and_lits)

definition val2 :: "nat \<Rightarrow> nat \<Rightarrow> nat" where "val2 a b = (a - 192) * 64 + (b - 128)"

definition val3 :: "nat \<Rightarrow> nat \<Rightarrow> nat \<Rightarrow> nat" where "val3 a b c = (a - 224) * 4096 + (b - 128) * 64 + (c - 128)"

definition val4 :: "nat \<Rightarrow> nat \<Rightarrow> nat \<Rightarrow> nat \<Rightarrow> nat" where
  "val4 a b c d = (a - 240) * 262144 + (b - 128) * 4096 + (c - 128) * 64 + (d - 128)"

definition trail8 :: "8 word \<Rightarrow> bool" where "trail8 w \<longleftrightarrow> 128 \<le> unat w \<and> unat w < 192"

lemma word_of_seq2: fixes a b :: "8 word" assumes "192 \<le> unat a" "unat a < 224" "trail8 b"
  shows "push_bit 6 ((ucast a :: code_point) AND 0x1f) OR ucast (b - 0x80) = of_nat (val2 (unat a) (unat b))"
proof (rule word_eq_of_nat)
  note u = u_lead2 [OF assms(1,2)] u_trail [of b]
  have b: "128 \<le> unat b" "unat b < 192" using assms(3) by (simp_all add: trail8_def)
  have "unat a - 192 < 64" "unat b - 128 < 64" using assms(2) b by linarith+
  then show "unat (push_bit 6 ((ucast a :: code_point) AND 0x1f) OR ucast (b - 0x80)) = val2 (unat a) (unat b)"
    unfolding val2_def by (subst join2) (simp_all only: u b)
qed

lemma word_of_seq3: fixes a b c :: "8 word" assumes "224 \<le> unat a" "unat a < 240" "trail8 b" "trail8 c"
  shows "push_bit 12 ((ucast a :: code_point) AND 0xf) OR push_bit 6 (ucast b AND 0x3f) OR ucast (c - 0x80) = of_nat (val3 (unat a) (unat b) (unat c))"
proof (rule word_eq_of_nat)
  have b: "128 \<le> unat b" "unat b < 192" "128 \<le> unat c" "unat c < 192" using assms(3,4) by (simp_all add: trail8_def)
  note u = u_lead3 [OF assms(1,2)] u_trail_and [OF b(1,2)] u_trail [OF b(3)]
  have "unat a - 224 < 64" "unat b - 128 < 64" "unat c - 128 < 64" using assms(2) b by linarith+
  then show "unat (push_bit 12 ((ucast a :: code_point) AND 0xf) OR push_bit 6 (ucast b AND 0x3f) OR ucast (c - 0x80)) = val3 (unat a) (unat b) (unat c)"
    unfolding val3_def by (subst join3) (simp_all only: u)
qed

lemma word_of_seq4: fixes a b c d :: "8 word" assumes "240 \<le> unat a" "unat a < 248" "trail8 b" "trail8 c" "trail8 d"
  shows "push_bit 18 ((ucast a :: code_point) AND 7) OR push_bit 12 (ucast b AND 0x3f) OR push_bit 6 (ucast (c - 0x80)) OR ucast (d - 0x80) = of_nat (val4 (unat a) (unat b) (unat c) (unat d))"
proof (rule word_eq_of_nat)
  have b: "128 \<le> unat b" "unat b < 192" "128 \<le> unat c" "unat c < 192" "128 \<le> unat d" "unat d < 192"
    using assms(3-5) by (simp_all add: trail8_def)
  note u = u_lead4 [OF assms(1,2)] u_trail_and [OF b(1,2)] u_trail [OF b(3)] u_trail [OF b(5)]
  have "unat a - 240 < 64" "unat b - 128 < 64" "unat c - 128 < 64" "unat d - 128 < 64" using assms(2) b by linarith+
  then show "unat (push_bit 18 ((ucast a :: code_point) AND 7) OR push_bit 12 (ucast b AND 0x3f) OR push_bit 6 (ucast (c - 0x80)) OR ucast (d - 0x80)) = val4 (unat a) (unat b) (unat c) (unat d)"
    unfolding val4_def by (subst join4) (simp_all only: u)
qed

lemma trail8_iff: "(w :: 8 word) - 0x80 \<le> 0x3f \<longleftrightarrow> trail8 w"
  by (simp add: trail_iff trail8_def)

lemma enc_unit:
  fixes x L :: code_point
  assumes "unat x < 2 ^ n" "2 ^ n dvd unat L" "unat L + unat x < 256"
  shows "unat (ucast (x OR L) :: 8 word) = unat L + unat x"
proof -
  have "unat (L OR x) = unat L + unat x" using assms(1,2) by (rule unat_or_add)
  then show ?thesis using assms(3) by (subst unat_ucast_eq) (simp_all add: or.commute)
qed

lemma enc_trail: "unat (ucast ((x :: code_point) AND 0x3f OR 0x80) :: 8 word) = 128 + unat x mod 64"
  using enc_unit [where x = "x AND 0x3f" and n = 6 and L = "0x80"] by (simp add: unat_and_lits)

lemma enc_trail_drop: "unat (ucast (drop_bit n (x :: code_point) AND 0x3f OR 0x80) :: 8 word) = 128 + unat x div 2 ^ n mod 64"
  by (simp only: enc_trail unat_drop)

lemma enc_lead2: "unat x < 2048 \<Longrightarrow> unat (ucast (drop_bit 6 (x :: code_point) OR 0xc0) :: 8 word) = 192 + unat x div 64"
  using enc_unit [where x = "drop_bit 6 x" and n = 6 and L = "0xc0"] by (simp only: unat_drop) auto

lemma enc_lead3: "unat x < 65536 \<Longrightarrow> unat (ucast (drop_bit 12 (x :: code_point) OR 0xe0) :: 8 word) = 224 + unat x div 4096"
  using enc_unit [where x = "drop_bit 12 x" and n = 4 and L = "0xe0"] by (simp only: unat_drop) auto

lemma enc_lead4: "unat x < 2097152 \<Longrightarrow> unat (ucast (drop_bit 18 (x :: code_point) OR 0xf0) :: 8 word) = 240 + unat x div 262144"
  using enc_unit [where x = "drop_bit 18 x" and n = 3 and L = "0xf0"] by (simp only: unat_drop) auto

lemma enc8_bytes: "unat c < 2097152 \<Longrightarrow> map unat (CBU8_APPEND_UNSAFE c) = enc8 (unat c)"
  unfolding CBU8_APPEND_UNSAFE_def enc8_def
  by (simp add: word_le_nat_alt enc_trail unat_drop
     enc_lead2 enc_lead3 enc_lead4 unat_ucast_eq not_le)

lemma cmp8: fixes w :: "8 word"
  shows "(0xe0 \<le> (ucast w :: code_point)) = (224 \<le> unat w)" "((ucast w :: code_point) < 0xf0) = (unat w < 240)"
   "((ucast w :: code_point) < 0xe0) = (unat w < 224)" "(0xc2 \<le> (ucast w :: code_point)) = (194 \<le> unat w)"
   "((ucast w :: code_point) > 0xf4) = (unat w > 244)" "(0xf0 \<le> (ucast w :: code_point)) = (240 \<le> unat w)"
  by (simp_all add: word_le_nat_alt word_less_nat_alt)


lemma lead3_ok_trail8: "lead3_ok k (unat w) \<Longrightarrow> trail8 w"
  by (simp add: lead3_ok_def trail8_def)

lemma lead4_ok_trail8: "lead4_ok k (unat w) \<Longrightarrow> trail8 w"
  by (simp add: lead4_ok_def trail8_def)

lemma CBU8_NEXT_bytes:
  "CBU8_NEXT s i len =
    (let w0 = u8_at s i; w1 = u8_at s (i + 1); w2 = u8_at s (i + 2) in
     if unat w0 < 128 then (i + 1, ucast w0)
     else if 224 \<le> unat w0 \<and> unat w0 < 240 \<and> (i + 2 < len \<or> len < 0) \<and> lead3_ok (unat w0 - 224) (unat w1) \<and> trail8 w2
       then (i + 3, of_nat (val3 (unat w0) (unat w1) (unat w2)))
     else if 194 \<le> unat w0 \<and> unat w0 < 224 \<and> i + 1 \<noteq> len \<and> trail8 w1
       then (i + 2, of_nat (val2 (unat w0) (unat w1)))
     else utf8_nextCharSafeBody s (i + 1) len (ucast w0) (-1))"
proof -
  have c3: "(224 \<le> unat a \<and> unat a < 240 \<and> p \<and> CBU8_IS_VALID_LEAD3_AND_T1 (ucast a) b \<and> trail8 c) =
            (224 \<le> unat a \<and> unat a < 240 \<and> p \<and> lead3_ok (unat a - 224) (unat b) \<and> trail8 c)"
    for a b c :: "8 word" and p
    using IS_VALID_LEAD3_iff [of "ucast a" b] by (auto simp only: unat_ucast8)
  show ?thesis
    unfolding CBU8_NEXT_def Let_def CBU8_IS_SINGLE_iff cmp8 trail8_iff add.assoc c3
    by (intro if_cong refl) (auto simp: word_of_seq2 word_of_seq3 lead3_ok_trail8 simp del: push_bit_and)
qed

lemma utf8_nextCharSafeBody_bytes:
  fixes w0 :: "8 word"
  assumes "128 \<le> unat w0"
  shows "utf8_nextCharSafeBody s p len (ucast w0) (-1) =
    (let w1 = u8_at s p; w2 = u8_at s (p + 1); w3 = u8_at s (p + 2) in
     if 240 \<le> unat w0 \<and> unat w0 \<le> 244 \<and> p \<noteq> len \<and> lead4_ok (unat w0 - 240) (unat w1) then
       (if p + 1 = len \<or> \<not> trail8 w2 then (p + 1, -1)
        else if p + 2 = len \<or> \<not> trail8 w3 then (p + 2, -1)
        else (p + 3, of_nat (val4 (unat w0) (unat w1) (unat w2) (unat w3))))
     else if 224 \<le> unat w0 \<and> unat w0 < 240 \<and> p \<noteq> len \<and> lead3_ok (unat w0 - 224) (unat w1) then
       (if p + 1 = len \<or> \<not> trail8 w2 then (p + 1, -1)
        else (p + 2, of_nat (val3 (unat w0) (unat w1) (unat w2))))
     else if 194 \<le> unat w0 \<and> unat w0 < 224 \<and> p \<noteq> len \<and> trail8 w1
       then (p + 1, push_bit 6 (ucast w0 - 0xc0) OR ucast (w1 - 0x80))
     else (p, -1))"
proof -
  have v4: "240 \<le> unat w0 \<Longrightarrow> unat w0 \<le> 244 \<Longrightarrow> CBU8_IS_VALID_LEAD4_AND_T1 (ucast w0 AND 7) t = lead4_ok (unat w0 - 240) (unat t)" for t
    using IS_VALID_LEAD4_iff [of "ucast w0" t] by (simp add: and_idem_mask)
  have v3: "224 \<le> unat w0 \<Longrightarrow> unat w0 < 240 \<Longrightarrow> CBU8_IS_VALID_LEAD3_AND_T1 (ucast w0 AND 0xf) t = lead3_ok (unat w0 - 224) (unat t)" for t
    using IS_VALID_LEAD3_iff [of "ucast w0" t] by (simp add: and_idem_mask)
  consider "unat w0 > 244" | "240 \<le> unat w0" "unat w0 \<le> 244" | "224 \<le> unat w0" "unat w0 < 240"
    | "194 \<le> unat w0" "unat w0 < 224" | "unat w0 < 194" by linarith
  then show ?thesis
  proof cases
    case 1
    then show ?thesis unfolding utf8_nextCharSafeBody_def Let_def cmp8 by (simp add: errorValue_def CBU_SENTINEL_def)
  next
    case 2
    then show ?thesis unfolding utf8_nextCharSafeBody_def Let_def cmp8 trail8_iff
      by (auto simp: errorValue_def CBU_SENTINEL_def v4 word_of_seq4 lead4_ok_trail8 simp del: push_bit_and)
  next
    case 3
    then show ?thesis unfolding utf8_nextCharSafeBody_def Let_def cmp8 trail8_iff
      by (auto simp: errorValue_def CBU_SENTINEL_def v3 word_of_seq3 lead3_ok_trail8 simp del: push_bit_and)
  next
    case 4
    then show ?thesis unfolding utf8_nextCharSafeBody_def Let_def cmp8 trail8_iff
      by (auto simp: errorValue_def CBU_SENTINEL_def)
  next
    case 5
    then show ?thesis unfolding utf8_nextCharSafeBody_def Let_def cmp8 trail8_iff
      by (auto simp: errorValue_def CBU_SENTINEL_def)
  qed
qed

lemma val2_enc: "val2 (192 + n div 64) (128 + n mod 64) = n"
  by (simp add: val2_def)

lemma val3_enc: "val3 (224 + n div 4096) (128 + n div 64 mod 64) (128 + n mod 64) = n"
  using split64 [of n] by (simp add: val3_def)

lemma val4_enc: "val4 (240 + n div 262144) (128 + n div 4096 mod 64) (128 + n div 64 mod 64) (128 + n mod 64) = n"
  using split64' [of n] by (simp add: val4_def)

definition valid_nat :: "nat \<Rightarrow> bool" where
  "valid_nat n \<longleftrightarrow> n < 0xD800 \<or> (0xE000 \<le> n \<and> n \<le> 0x10FFFF)"

lemma valid_nat: "IsValidCodepoint c \<longleftrightarrow> valid_nat (unat c)"
  by (simp add: IsValidCodepoint_def valid_nat_def word_le_nat_alt word_less_nat_alt)

lemma enc8_2: "2048 > n \<Longrightarrow> 128 \<le> n \<Longrightarrow> enc8 n = [192 + n div 64, 128 + n mod 64]"
  and enc8_3: "2048 \<le> n \<Longrightarrow> n < 65536 \<Longrightarrow> enc8 n = [224 + n div 64 div 64, 128 + n div 64 mod 64, 128 + n mod 64]"
  and enc8_4: "65536 \<le> n \<Longrightarrow> enc8 n = [240 + n div 64 div 64 div 64, 128 + n div 64 div 64 mod 64, 128 + n div 64 mod 64, 128 + n mod 64]"
  by (simp_all add: enc8_def div4096 div262144)

lemma enc8_val2:
  assumes "194 \<le> a" "a < 224" "128 \<le> b" "b < 192"
  shows "enc8 (val2 a b) = [a, b] \<and> valid_nat (val2 a b)"
proof -
  obtain k where k: "a = 192 + k" using assms(1) le_Suc_ex [of 192 a] by auto
  obtain x where x: "b = 128 + x" using assms(3) le_Suc_ex by blast
  have r: "2 \<le> k" "k < 32" "x < 64" using assms k x by auto
  define n where "n = k * 64 + x"
  have "n div 64 = k" "n mod 64 = x" unfolding n_def using r(3) by (rule dm64)+
  moreover have "128 \<le> n" "n < 2048" unfolding n_def using r by linarith+
  moreover have "val2 a b = n" by (simp add: val2_def k x n_def)
  ultimately show ?thesis by (simp add: enc8_2 k x valid_nat_def)
qed

lemma enc8_val3:
  assumes "224 \<le> a" "a < 240" "lead3_ok (a - 224) b" "128 \<le> c" "c < 192"
  shows "enc8 (val3 a b c) = [a, b, c] \<and> valid_nat (val3 a b c)"
proof -
  obtain k where k: "a = 224 + k" using assms(1) le_Suc_ex by blast
  obtain x where x: "b = 128 + x" using assms(3) le_Suc_ex [of 128 b] by (auto simp: lead3_ok_def)
  obtain y where y: "c = 128 + y" using assms(4) le_Suc_ex by blast
  have r: "k < 16" "x < 64" "y < 64" "k = 0 \<longrightarrow> 32 \<le> x" "k = 13 \<longrightarrow> x < 32"
    using assms k x y by (auto simp: lead3_ok_def)
  define m where "m = k * 64 + x"
  define n where "n = m * 64 + y"
  have m: "m div 64 = k" "m mod 64 = x" unfolding m_def using r(2) by (rule dm64)+
  have n: "n div 64 = m" "n mod 64 = y" unfolding n_def using r(3) by (rule dm64)+
  have "32 \<le> m" "m < 1024" using r(1,2,4) by (cases "k = 0"; simp add: m_def)+
  with r(3) have b: "2048 \<le> n" "n < 65536" by (simp_all add: n_def)
  have v: "n < 0xD800 \<or> 0xE000 \<le> n" unfolding n_def m_def using r(2,3,5) by (cases "k < 13"; cases "k = 13"; simp)
  have "val3 a b c = n" by (simp add: val3_def k x y n_def m_def)
  with b v show ?thesis by (simp add: enc8_3 n m k x y valid_nat_def)
qed

lemma enc8_val4:
  assumes "240 \<le> a" "lead4_ok (a - 240) b" "128 \<le> c" "c < 192" "128 \<le> d" "d < 192"
  shows "enc8 (val4 a b c d) = [a, b, c, d] \<and> valid_nat (val4 a b c d)"
proof -
  obtain k where k: "a = 240 + k" using assms(1) le_Suc_ex by blast
  obtain x where x: "b = 128 + x" using assms(2) le_Suc_ex [of 128 b] by (auto simp: lead4_ok_def)
  obtain y where y: "c = 128 + y" using assms(3) le_Suc_ex by blast
  obtain z where z: "d = 128 + z" using assms(5) le_Suc_ex by blast
  have r: "k < 5" "x < 64" "y < 64" "z < 64" "k = 0 \<longrightarrow> 16 \<le> x" "k = 4 \<longrightarrow> x < 16"
    using assms k x y z by (auto simp: lead4_ok_def)
  define l where "l = k * 64 + x"
  define m where "m = l * 64 + y"
  define n where "n = m * 64 + z"
  have l: "l div 64 = k" "l mod 64 = x" unfolding l_def using r(2) by (rule dm64)+
  have m: "m div 64 = l" "m mod 64 = y" unfolding m_def using r(3) by (rule dm64)+
  have n: "n div 64 = m" "n mod 64 = z" unfolding n_def using r(4) by (rule dm64)+
  have "16 \<le> l" using r(5) by (cases "k = 0"; simp add: l_def)
  moreover have "l \<le> 271" using r(1,2,6) by (cases "k = 4"; simp add: l_def)
  ultimately have b: "65536 \<le> n" "n \<le> 0x10FFFF" using r(3,4) by (simp_all add: n_def m_def)
  have "val4 a b c d = n" by (simp add: val4_def k x y z n_def m_def l_def)
  with b show ?thesis by (simp add: enc8_4 n m l k x y z valid_nat_def)
qed

lemma unat_of_nat_code_point: "n \<le> 0x10FFFF \<Longrightarrow> unat (of_nat n :: code_point) = n"
  by (simp add: unat_of_nat)

text \<open>The bytes at index \<open>i\<close> are the encoding of \<open>c\<close>.\<close>

definition encoded_at :: "string \<Rightarrow> int \<Rightarrow> code_point \<Rightarrow> bool" where
  "encoded_at s i c \<longleftrightarrow> (\<forall>k < length (CBU8_APPEND_UNSAFE c). u8_at s (i + int k) = CBU8_APPEND_UNSAFE c ! k)"

lemma valid_small: "IsValidCodepoint c \<Longrightarrow> unat c < 2097152"
  by (auto simp: valid_nat valid_nat_def)

lemma length_append8: "length (CBU8_APPEND_UNSAFE c) = (if unat c < 128 then 1 else if unat c < 2048 then 2 else if unat c < 65536 then 3 else 4)"
  by (auto simp: CBU8_APPEND_UNSAFE_def word_le_nat_alt)

lemma encoded_at_nat: "unat c < 2097152 \<Longrightarrow> encoded_at s i c \<longleftrightarrow> (\<forall>k < length (enc8 (unat c)). unat (u8_at s (i + int k)) = enc8 (unat c) ! k)"
  unfolding encoded_at_def enc8_bytes [symmetric] by (simp add: nth_map word_unat_eq_iff)

lemma lead3_ok_enc:
  assumes "valid_nat n" "2048 \<le> n" "n < 65536"
  shows "lead3_ok (n div 64 div 64) (128 + n div 64 mod 64)"
proof -
  define q where "q = n div 64"
  have n: "n = q * 64 + n mod 64" by (simp add: q_def)
  have q: "q = q div 64 * 64 + q mod 64" by simp
  have m: "q mod 64 < 64" "n mod 64 < 64" by simp_all
  have "q div 64 = 0 \<Longrightarrow> 32 \<le> q mod 64" using n q m assms(2) by linarith
  moreover have "q div 64 = 13 \<Longrightarrow> q mod 64 < 32" using n q m assms(1) unfolding valid_nat_def by linarith
  ultimately show ?thesis using m(1) by (simp add: lead3_ok_def q_def)
qed

lemma lead4_ok_enc:
  assumes "valid_nat n" "65536 \<le> n"
  shows "lead4_ok (n div 64 div 64 div 64) (128 + n div 64 div 64 mod 64)"
proof -
  define q where "q = n div 64"
  define p where "p = q div 64"
  have n: "n = q * 64 + n mod 64" by (simp add: q_def)
  have q: "q = p * 64 + q mod 64" by (simp add: p_def)
  have p: "p = p div 64 * 64 + p mod 64" by simp
  have m: "p mod 64 < 64" "q mod 64 < 64" "n mod 64 < 64" by simp_all
  have le: "n \<le> 0x10FFFF" using assms by (auto simp: valid_nat_def)
  have "p div 64 = 0 \<Longrightarrow> 16 \<le> p mod 64" using n q p m assms(2) by linarith
  moreover have "p div 64 < 5" using n q p m le by linarith
  moreover have "p div 64 = 4 \<Longrightarrow> p mod 64 < 16" using n q p m le by linarith
  ultimately show ?thesis using m(1) by (simp add: lead4_ok_def q_def p_def)
qed

lemma all_less_nths:
  "(\<forall>k < length [a, b]. f k = [a, b] ! k) \<longleftrightarrow> f 0 = a \<and> f 1 = (b :: nat)"
  "(\<forall>k < length [a, b, c]. f k = [a, b, c] ! k) \<longleftrightarrow> f 0 = a \<and> f 1 = b \<and> f 2 = c"
  "(\<forall>k < length [a, b, c, d]. f k = [a, b, c, d] ! k) \<longleftrightarrow> f 0 = a \<and> f 1 = b \<and> f 2 = c \<and> f 3 = d"
  by (simp_all add: All_less_Suc numeral_2_eq_2 numeral_3_eq_3 conj_ac)

theorem CBU8_NEXT_complete:
  assumes v: "IsValidCodepoint c" and e: "encoded_at s i c"
    and len: "i + int (length (CBU8_APPEND_UNSAFE c)) \<le> len"
  shows "CBU8_NEXT s i len = (i + int (length (CBU8_APPEND_UNSAFE c)), c)"
proof -
  define n where "n = unat c"
  have vn: "valid_nat n" using v by (simp add: valid_nat n_def)
  have c: "c = of_nat n" by (simp add: n_def)
  note e = e [unfolded encoded_at_nat [OF valid_small [OF v]], folded n_def]
  have l: "length (CBU8_APPEND_UNSAFE c) = (if n < 128 then 1 else if n < 2048 then 2 else if n < 65536 then 3 else 4)"
    by (simp add: length_append8 n_def)
  consider "n < 128" | "128 \<le> n" "n < 2048" | "2048 \<le> n" "n < 65536" | "65536 \<le> n" by linarith
  then show ?thesis
  proof cases
    case 1
    with e have "unat (u8_at s i) = n" by (simp add: enc8_def)
    moreover from this have "ucast (u8_at s i) = c" by (simp add: word_unat_eq_iff n_def)
    ultimately show ?thesis using 1 by (simp add: CBU8_NEXT_bytes l)
  next
    case 2
    note e2 = e [unfolded enc8_2 [OF 2(2,1)] all_less_nths]
    have d: "2 \<le> n div 64" "n div 64 < 32" "n mod 64 < 64" using 2 by (auto simp: less_eq_div_iff_mult_less_eq div_less_iff_less_mult)
    have "trail8 (u8_at s (i + 1))" using e2 d by (simp add: trail8_def)
    moreover have "i + 1 \<noteq> len" using len l 2 by simp
    ultimately show ?thesis using e2 2 d by (simp add: CBU8_NEXT_bytes l val2_enc c [symmetric])
  next
    case 3
    note e3 = e [unfolded enc8_3 [OF 3] all_less_nths]
    have d: "n div 64 div 64 < 16" using 3 by (simp add: div_mult2_eq [symmetric] div_less_iff_less_mult)
    have "trail8 (u8_at s (i + 2))" using e3 by (simp add: trail8_def)
    moreover have "i + 2 < len" using len l 3 by simp
    moreover have "lead3_ok (unat (u8_at s i) - 224) (unat (u8_at s (i + 1)))"
      using e3 lead3_ok_enc [OF vn 3] by simp
    ultimately show ?thesis using e3 3 d val3_enc [of n]
      by (simp add: CBU8_NEXT_bytes l div4096 c [symmetric])
  next
    case 4
    note e4 = e [unfolded enc8_4 [OF 4] all_less_nths]
    have "lead4_ok (unat (u8_at s i) - 240) (unat (u8_at s (i + 1)))"
      using e4 lead4_ok_enc [OF vn 4] by simp
    moreover have "n div 64 div 64 div 64 < 5" using lead4_ok_enc [OF vn 4] by (simp add: lead4_ok_def)
    moreover have "trail8 (u8_at s (i + 2))" "trail8 (u8_at s (i + 3))" using e4 by (simp_all add: trail8_def)
    moreover have "i + 3 < len" using len l 4 by simp
    ultimately show ?thesis using e4 4 val4_enc [of n]
      by (simp add: CBU8_NEXT_bytes utf8_nextCharSafeBody_bytes l div4096 div262144 add.assoc c [symmetric])
  qed
qed

lemma of_nat_valid: "valid_nat n \<Longrightarrow> unat (of_nat n :: code_point) = n"
  by (rule unat_of_nat_code_point) (auto simp: valid_nat_def)

lemma encoded_at_of_nat:
  assumes "valid_nat n" and "\<forall>k < length (enc8 n). unat (u8_at s (i + int k)) = enc8 n ! k"
  shows "IsValidCodepoint (of_nat n) \<and> encoded_at s i (of_nat n) \<and> length (CBU8_APPEND_UNSAFE (of_nat n)) = length (enc8 n)"
proof -
  have u: "unat (of_nat n :: code_point) = n" using assms(1) by (rule of_nat_valid)
  then have v: "IsValidCodepoint (of_nat n)" using assms(1) by (simp add: valid_nat)
  have "map unat (CBU8_APPEND_UNSAFE (of_nat n)) = enc8 n"
    using enc8_bytes [OF valid_small [OF v]] u by simp
  then have "length (CBU8_APPEND_UNSAFE (of_nat n)) = length (enc8 n)" by (metis length_map)
  with v show ?thesis using assms(2) by (simp add: encoded_at_nat [OF valid_small [OF v]] u)
qed

lemma safe_body_branch:
  assumes "(if A then (if B then (p2, e) else if C then (p3, e) else X)
            else if D then (if E then (p2, e) else Y) else if F then Z else (p1, e)) = (j, c)"
    and "A \<and> \<not> B \<and> \<not> C \<Longrightarrow> False" and "D \<and> \<not> E \<Longrightarrow> False" and "F \<Longrightarrow> False"
    and "A \<Longrightarrow> P" and "D \<Longrightarrow> P" and "A \<Longrightarrow> \<not> B \<Longrightarrow> Q"
  shows "c = e \<and> (j = p1 \<or> P \<and> j = p2 \<or> P \<and> Q \<and> j = p3)"
  using assms by (auto split: if_splits)

text \<open>The body of the safe decoder on bytes that start no well-formed sequence.\<close>

lemma safe_body_invalid:
  assumes ge: "\<not> unat (u8_at s i) < 128" and i: "0 \<le> i" "i < len"
    and body: "utf8_nextCharSafeBody s (i + 1) len (ucast (u8_at s i)) (-1) = (j, c)"
    and not3: "\<not> (224 \<le> unat (u8_at s i) \<and> unat (u8_at s i) < 240 \<and> i + 2 < len \<and>
      lead3_ok (unat (u8_at s i) - 224) (unat (u8_at s (i + 1))) \<and> trail8 (u8_at s (i + 2)))"
    and not2: "\<not> (194 \<le> unat (u8_at s i) \<and> unat (u8_at s i) < 224 \<and> i + 1 \<noteq> len \<and> trail8 (u8_at s (i + 1)))"
    and not4: "\<not> (240 \<le> unat (u8_at s i) \<and> unat (u8_at s i) \<le> 244 \<and> i + 1 \<noteq> len \<and>
      lead4_ok (unat (u8_at s i) - 240) (unat (u8_at s (i + 1))) \<and> i + 2 \<noteq> len \<and> trail8 (u8_at s (i + 2)) \<and>
      i + 3 \<noteq> len \<and> trail8 (u8_at s (i + 3)))"
  shows "c = -1 \<and> i < j \<and> j \<le> len"
proof -
  have big: "128 \<le> unat (u8_at s i)" using ge by simp
  have "c = -1 \<and> (j = i + 1 \<or> i + 1 \<noteq> len \<and> j = i + 2 \<or> i + 1 \<noteq> len \<and> i + 2 \<noteq> len \<and> j = i + 3)"
  proof (rule safe_body_branch [OF body [unfolded utf8_nextCharSafeBody_bytes [OF big] Let_def add.assoc one_add_one one_plus_numeral add_num_simps]], goal_cases)
    case 1 with not4 show ?case by (auto simp only: simp_thms)
  next
    case 2 with not3 i show ?case by auto
  next
    case 3 with not2 show ?case by auto
  qed auto
  with i show ?thesis by auto
qed

theorem CBU8_NEXT_sound:
  assumes i: "0 \<le> i" "i < len" and r: "CBU8_NEXT s i len = (j, c)"
  shows "i < j \<and> j \<le> len \<and>
    (c = CBU_SENTINEL \<or> IsValidCodepoint c \<and> encoded_at s i c \<and> j = i + int (length (CBU8_APPEND_UNSAFE c)))"
proof -
  let ?w0 = "unat (u8_at s i)" and ?w1 = "unat (u8_at s (i + 1))" and ?w2 = "unat (u8_at s (i + 2))" and ?w3 = "unat (u8_at s (i + 3))"
  have found: "?thesis" if "valid_nat n" "enc8 n = bs" "\<forall>k < length bs. unat (u8_at s (i + int k)) = bs ! k"
      "j = i + int (length bs)" "c = of_nat n" "j \<le> len" "bs \<noteq> []" for n bs
    using encoded_at_of_nat [of n s i] that by simp
  show ?thesis
  proof (cases "?w0 < 128")
    case True
    then have j: "j = i + 1" "c = ucast (u8_at s i)" using r by (simp_all add: CBU8_NEXT_bytes)
    show ?thesis
      by (rule found [of ?w0 "[?w0]"]) (use True j i in \<open>simp_all add: valid_nat_def enc8_def word_unat_eq_iff unat_of_nat\<close>)
  next
    case big: False
    show ?thesis
    proof (cases "224 \<le> ?w0 \<and> ?w0 < 240 \<and> i + 2 < len \<and> lead3_ok (?w0 - 224) ?w1 \<and> trail8 (u8_at s (i + 2))")
      case True
      then have j: "j = i + 3" "c = of_nat (val3 ?w0 ?w1 ?w2)" using r by (simp_all add: CBU8_NEXT_bytes)
      have "enc8 (val3 ?w0 ?w1 ?w2) = [?w0, ?w1, ?w2] \<and> valid_nat (val3 ?w0 ?w1 ?w2)"
        using True by (intro enc8_val3) (auto simp: trail8_def)
      moreover have "\<forall>k < length [?w0, ?w1, ?w2]. unat (u8_at s (i + int k)) = [?w0, ?w1, ?w2] ! k"
          unfolding all_less_nths by simp
        ultimately show ?thesis using j True i by (intro found [of "val3 ?w0 ?w1 ?w2" "[?w0, ?w1, ?w2]"]) auto
    next
      case not3: False
      show ?thesis
      proof (cases "194 \<le> ?w0 \<and> ?w0 < 224 \<and> i + 1 \<noteq> len \<and> trail8 (u8_at s (i + 1))")
        case True
        then have j: "j = i + 2" "c = of_nat (val2 ?w0 ?w1)" using r by (simp_all add: CBU8_NEXT_bytes)
        have "enc8 (val2 ?w0 ?w1) = [?w0, ?w1] \<and> valid_nat (val2 ?w0 ?w1)"
          using True by (intro enc8_val2) (auto simp: trail8_def)
        moreover have "\<forall>k < length [?w0, ?w1]. unat (u8_at s (i + int k)) = [?w0, ?w1] ! k"
          unfolding all_less_nths by simp
        ultimately show ?thesis using j True i by (intro found [of "val2 ?w0 ?w1" "[?w0, ?w1]"]) auto
      next
        case not2: False
        have body: "utf8_nextCharSafeBody s (i + 1) len (ucast (u8_at s i)) (-1) = (j, c)"
          using r big not3 not2 i by (auto simp: CBU8_NEXT_bytes split: if_splits)
        show ?thesis
        proof (cases "240 \<le> ?w0 \<and> ?w0 \<le> 244 \<and> i + 1 \<noteq> len \<and> lead4_ok (?w0 - 240) ?w1 \<and> i + 2 \<noteq> len \<and> trail8 (u8_at s (i + 2))
             \<and> i + 3 \<noteq> len \<and> trail8 (u8_at s (i + 3))")
          case True
          then have j: "j = i + 4" "c = of_nat (val4 ?w0 ?w1 ?w2 ?w3)"
            using body big by (auto simp: utf8_nextCharSafeBody_bytes add.assoc)
          have "enc8 (val4 ?w0 ?w1 ?w2 ?w3) = [?w0, ?w1, ?w2, ?w3] \<and> valid_nat (val4 ?w0 ?w1 ?w2 ?w3)"
            using True by (intro enc8_val4) (auto simp: trail8_def)
          moreover have "\<forall>k < length [?w0, ?w1, ?w2, ?w3]. unat (u8_at s (i + int k)) = [?w0, ?w1, ?w2, ?w3] ! k"
          unfolding all_less_nths by simp
        ultimately show ?thesis using j True i by (intro found [of "val4 ?w0 ?w1 ?w2 ?w3" "[?w0, ?w1, ?w2, ?w3]"]) auto
        next
          case not4: False
          have "c = -1 \<and> i < j \<and> j \<le> len"
            by (rule safe_body_invalid [OF _ i body]) (use big not3 not2 not4 in blast)+
          then show ?thesis by (simp add: CBU_SENTINEL_def)
        qed
      qed
    qed
  qed
qed

lemma high_masks: "(0xfffffc00 :: code_point) = NOT (mask 10)" "(0xfffff800 :: code_point) = NOT (mask 11)"
  by (simp_all add: mask_eq_exp_minus_1)

lemma CBU16_IS_LEAD_iff: "CBU16_IS_LEAD c \<longleftrightarrow> 0xD800 \<le> unat c \<and> unat c < 0xDC00"
proof -
  have "CBU16_IS_LEAD c \<longleftrightarrow> unat c div 1024 * 1024 = 0xd800"
    unfolding CBU16_IS_LEAD_def high_masks word_unat_eq_iff unat_and_high by simp
  also have "\<dots> \<longleftrightarrow> unat c div 1024 = 54" by auto
  also have "\<dots> \<longleftrightarrow> 0xD800 \<le> unat c \<and> unat c < 0xDC00" by (simp add: div_block)
  finally show ?thesis .
qed

lemma CBU16_IS_TRAIL_iff: "CBU16_IS_TRAIL c \<longleftrightarrow> 0xDC00 \<le> unat c \<and> unat c < 0xE000"
proof -
  have "CBU16_IS_TRAIL c \<longleftrightarrow> unat c div 1024 * 1024 = 0xdc00"
    unfolding CBU16_IS_TRAIL_def high_masks word_unat_eq_iff unat_and_high by simp
  also have "\<dots> \<longleftrightarrow> unat c div 1024 = 55" by auto
  also have "\<dots> \<longleftrightarrow> 0xDC00 \<le> unat c \<and> unat c < 0xE000" by (simp add: div_block)
  finally show ?thesis .
qed

lemma CBU_IS_SURROGATE_iff: "CBU_IS_SURROGATE c \<longleftrightarrow> 0xD800 \<le> unat c \<and> unat c < 0xE000"
proof -
  have "CBU_IS_SURROGATE c \<longleftrightarrow> unat c div 2048 * 2048 = 0xd800"
    unfolding CBU_IS_SURROGATE_def high_masks word_unat_eq_iff unat_and_high by simp
  also have "\<dots> \<longleftrightarrow> unat c div 2048 = 27" by auto
  also have "\<dots> \<longleftrightarrow> 0xD800 \<le> unat c \<and> unat c < 0xE000" by (simp add: div_block)
  finally show ?thesis .
qed

lemma CBU16_GET_SUPPLEMENTARY_value:
  assumes "0xD800 \<le> unat a" "unat a < 0xDC00" "0xDC00 \<le> unat b" "unat b < 0xE000"
  shows "CBU16_GET_SUPPLEMENTARY a b = of_nat (0x10000 + (unat a - 0xD800) * 1024 + (unat b - 0xDC00))"
proof -
  have off: "CBU16_SURROGATE_OFFSET = of_nat (0xD800 * 1024 + 0xDC00 - 0x10000)"
    by (simp add: CBU16_SURROGATE_OFFSET_def)
  have a: "push_bit 10 a = of_nat (unat a * 1024)" by (simp add: push_bit_eq_mult)
  have b: "b = of_nat (unat b)" by simp
  have "of_nat (unat a * 1024) + of_nat (unat b) - (of_nat (0xD800 * 1024 + 0xDC00 - 0x10000) :: code_point)
     = of_nat (unat a * 1024 + unat b - (0xD800 * 1024 + 0xDC00 - 0x10000))"
    using assms by (subst of_nat_diff) auto
  also have "unat a * 1024 + unat b - (0xD800 * 1024 + 0xDC00 - 0x10000) = 0x10000 + (unat a - 0xD800) * 1024 + (unat b - 0xDC00)"
    using assms by simp
  finally show ?thesis unfolding CBU16_GET_SUPPLEMENTARY_def off a using b by metis
qed

lemma append16_small: "unat c < 65536 \<Longrightarrow> CBU16_APPEND_UNSAFE c = [of_nat (unat c)]"
  by (auto simp: CBU16_APPEND_UNSAFE_def word_le_nat_alt word_unat_eq_iff unat_ucast_eq unat_of_nat)

lemma append16_big:
  assumes "65536 \<le> unat c" "unat c \<le> 0x10FFFF"
  shows "CBU16_APPEND_UNSAFE c = [of_nat (0xD7C0 + unat c div 1024), of_nat (0xDC00 + unat c mod 1024)]"
proof -
  have d: "unat c div 1024 \<le> 1087" using div_le_mono [OF assms(2), of 1024] by simp
  have "unat (drop_bit 10 c + 0xd7c0) = unat c div 1024 + 0xd7c0"
    using d by (simp add: unat_word_ariths unat_drop)
  then have l: "unat (ucast (drop_bit 10 c + 0xd7c0) :: char16) = 0xD7C0 + unat c div 1024"
    using d by (subst unat_ucast_eq) auto
  have "unat (0xdc00 OR (c AND 0x3ff)) = 0xdc00 + unat c mod 1024"
    by (subst unat_or_add [where n = 10]) (auto simp: unat_and_lits)
  then have t: "unat (ucast (c AND 0x3ff OR 0xdc00) :: char16) = 0xDC00 + unat c mod 1024"
    by (subst unat_ucast_eq) (auto simp: or.commute)
  have "unat c mod 1024 < 1024" by simp
  with d l t assms(1) show ?thesis
    by (simp add: CBU16_APPEND_UNSAFE_def word_le_nat_alt word_unat_eq_iff unat_of_nat del: of_nat_add)
qed

end
