(* ===== verification/Base_String_Piece.thy ===== *)
theory Base_String_Piece
  imports Cxtpl_Prelude
begin

text \<open>
  The searches of \<open>third_party/chromium/base/strings/string_piece.cc\<close> on which the string utilities
  rest. A piece is the list of its characters; sizes and positions are \<open>size_t\<close>, with \<open>npos\<close> the
  largest value and the wrap-around of additions and subtractions written out. The 8-bit versions
  look characters up in a table of 256 entries, the 16-bit ones compare them one by one.
\<close>

section \<open>Sizes\<close>

definition npos :: nat where
  "npos = 2 ^ 64 - 1"

definition sz_add :: "nat \<Rightarrow> nat \<Rightarrow> nat" where
  "sz_add a b = (a + b) mod 2 ^ 64"

definition sz_sub :: "nat \<Rightarrow> nat \<Rightarrow> nat" where
  "sz_sub a b = (a + 2 ^ 64 - b) mod 2 ^ 64"

lemma sz_sub_le [simp]: "b \<le> a \<Longrightarrow> a < 2 ^ 64 \<Longrightarrow> sz_sub a b = a - b"
proof -
  assume "b \<le> a" and a: "a < 2 ^ 64"
  then have "a + 2 ^ 64 - b = (a - b) + 2 ^ 64" by linarith
  moreover have "a - b < 2 ^ 64" using a by linarith
  ultimately show ?thesis unfolding sz_sub_def by (metis mod_add_self2 mod_less)
qed

lemma sz_add_small [simp]: "a + b < 2 ^ 64 \<Longrightarrow> sz_add a b = a + b"
  by (simp add: sz_add_def)

lemma sz_sub_0_1 [simp]: "sz_sub 0 1 = npos" and sz_sub_0_Suc_0 [simp]: "sz_sub 0 (Suc 0) = npos"
  by (simp_all add: sz_sub_def npos_def)

lemma sz_add_npos_1 [simp]: "sz_add npos 1 = 0"
  by (simp add: sz_add_def npos_def)

lemma sz_sub_0_npos [simp]: "sz_sub 0 npos = 1"
  by (simp add: sz_sub_def npos_def)

section \<open>Scanning loops\<close>

text \<open>\<open>for (size_t i = pos; i < size; ++i) if (p(data[i])) return i; return npos;\<close>\<close>

function scan_up :: "('a \<Rightarrow> bool) \<Rightarrow> 'a list \<Rightarrow> nat \<Rightarrow> nat" where
  "scan_up p s i = (if i < length s then if p (s ! i) then i else scan_up p s (Suc i) else npos)"
  by pat_completeness auto
termination
  by (relation "measure (\<lambda>(p, s, i). length s - i)") auto

declare scan_up.simps [simp del]

text \<open>\<open>for (size_t i = start; ; --i) { if (p(data[i])) return i; if (i == 0) break; } return npos;\<close>\<close>

fun scan_down :: "('a \<Rightarrow> bool) \<Rightarrow> 'a list \<Rightarrow> nat \<Rightarrow> nat" where
  "scan_down p s 0 = (if p (s ! 0) then 0 else npos)"
| "scan_down p s (Suc i) = (if p (s ! Suc i) then Suc i else scan_down p s i)"

section \<open>Substrings\<close>

text \<open>\<open>std::find_end\<close>: the last occurrence of a nonempty needle.\<close>

fun str_find_end :: "'a list \<Rightarrow> 'a list \<Rightarrow> nat option" where
  "str_find_end needle [] = None"
| "str_find_end needle (c # cs) =
     (case str_find_end needle cs of
        Some n \<Rightarrow> Some (Suc n)
      | None \<Rightarrow> if take (length needle) (c # cs) = needle then Some 0 else None)"

definition findT :: "'a list \<Rightarrow> 'a list \<Rightarrow> nat \<Rightarrow> nat" where
  "findT self s pos =
     (if pos > length self then npos
      else
        let xpos = (case str_find s (drop pos self) of Some k \<Rightarrow> pos + k | None \<Rightarrow> length self)
        in if xpos + length s \<le> length self then xpos else npos)"

definition find_charT :: "'a list \<Rightarrow> 'a \<Rightarrow> nat \<Rightarrow> nat" where
  "find_charT self c pos = (if pos \<ge> length self then npos else scan_up (\<lambda>x. x = c) self pos)"

definition rfindT :: "'a list \<Rightarrow> 'a list \<Rightarrow> nat \<Rightarrow> nat" where
  "rfindT self s pos =
     (if length self < length s then npos
      else if s = [] then min (length self) pos
      else
        let last = min (length self - length s) pos + length s
        in case str_find_end s (take last self) of Some n \<Rightarrow> n | None \<Rightarrow> npos)"

definition rfind_charT :: "'a list \<Rightarrow> 'a \<Rightarrow> nat \<Rightarrow> nat" where
  "rfind_charT self c pos =
     (if length self = 0 then npos
      else scan_down (\<lambda>x. x = c) self (min pos (length self - 1)))"

definition substrT :: "'a list \<Rightarrow> nat \<Rightarrow> nat \<Rightarrow> 'a list" where
  "substrT self pos n =
     (let pos = (if pos > length self then length self else pos);
          n = (if n > length self - pos then length self - pos else n)
      in take n (drop pos self))"

definition piece_starts_with :: "'a list \<Rightarrow> 'a list \<Rightarrow> bool" where
  "piece_starts_with self x \<longleftrightarrow> length self \<ge> length x \<and> take (length x) self = x"

definition piece_ends_with :: "'a list \<Rightarrow> 'a list \<Rightarrow> bool" where
  "piece_ends_with self x \<longleftrightarrow>
     length self \<ge> length x \<and> take (length x) (drop (length self - length x) self) = x"

text \<open>\<open>remove_prefix\<close> and \<open>remove_suffix\<close> check their argument.\<close>

definition remove_prefix :: "'a list \<Rightarrow> nat \<Rightarrow> 'a list run" where
  "remove_prefix self n = run_bind (CHECK (n \<le> length self)) (\<lambda>_. Ret (drop n self))"

definition remove_suffix :: "'a list \<Rightarrow> nat \<Rightarrow> 'a list run" where
  "remove_suffix self n = run_bind (CHECK (n \<le> length self)) (\<lambda>_. Ret (take (length self - n) self))"

section \<open>Character sets\<close>

text \<open>\<open>bool lookup[UCHAR_MAX + 1] = { false }\<close> filled by \<open>BuildLookupTable\<close>.\<close>

fun BuildLookupTable :: "string \<Rightarrow> bool list \<Rightarrow> bool list" where
  "BuildLookupTable [] table = table"
| "BuildLookupTable (c # cs) table = BuildLookupTable cs (table[of_char c := True])"

definition lookup_table :: "string \<Rightarrow> bool list" where
  "lookup_table s = BuildLookupTable s (replicate 256 False)"

definition find_first_of8 :: "string \<Rightarrow> string \<Rightarrow> nat \<Rightarrow> nat" where
  "find_first_of8 self s pos =
     (if length self = 0 \<or> length s = 0 then npos
      else if length s = 1 then find_charT self (s ! 0) pos
      else scan_up (\<lambda>c. lookup_table s ! of_char c) self pos)"

definition find_first_of16 :: "string16 \<Rightarrow> string16 \<Rightarrow> nat \<Rightarrow> nat" where
  "find_first_of16 self s pos = scan_up (\<lambda>c. list_ex (\<lambda>x. c = x) s) self pos"

definition find_first_not_of_charT :: "'a list \<Rightarrow> 'a \<Rightarrow> nat \<Rightarrow> nat" where
  "find_first_not_of_charT self c pos =
     (if length self = 0 then npos else scan_up (\<lambda>x. x \<noteq> c) self pos)"

definition find_first_not_of8 :: "string \<Rightarrow> string \<Rightarrow> nat \<Rightarrow> nat" where
  "find_first_not_of8 self s pos =
     (if length self = 0 then npos
      else if length s = 0 then 0
      else if length s = 1 then find_first_not_of_charT self (s ! 0) pos
      else scan_up (\<lambda>c. \<not> lookup_table s ! of_char c) self pos)"

definition find_first_not_of16 :: "string16 \<Rightarrow> string16 \<Rightarrow> nat \<Rightarrow> nat" where
  "find_first_not_of16 self s pos =
     (if length self = 0 then npos
      else scan_up (\<lambda>c. \<not> list_ex (\<lambda>x. c = x) s) self pos)"

definition find_last_of8 :: "string \<Rightarrow> string \<Rightarrow> nat \<Rightarrow> nat" where
  "find_last_of8 self s pos =
     (if length self = 0 \<or> length s = 0 then npos
      else if length s = 1 then rfind_charT self (s ! 0) pos
      else scan_down (\<lambda>c. lookup_table s ! of_char c) self (min pos (length self - 1)))"

definition find_last_of16 :: "string16 \<Rightarrow> string16 \<Rightarrow> nat \<Rightarrow> nat" where
  "find_last_of16 self s pos =
     (if length self = 0 then npos
      else scan_down (\<lambda>c. list_ex (\<lambda>x. c = x) s) self (min pos (length self - 1)))"

definition find_last_not_of_charT :: "'a list \<Rightarrow> 'a \<Rightarrow> nat \<Rightarrow> nat" where
  "find_last_not_of_charT self c pos =
     (if length self = 0 then npos
      else scan_down (\<lambda>x. x \<noteq> c) self (min pos (length self - 1)))"

definition find_last_not_of8 :: "string \<Rightarrow> string \<Rightarrow> nat \<Rightarrow> nat" where
  "find_last_not_of8 self s pos =
     (if length self = 0 then npos
      else
        let i = min pos (length self - 1) in
        if length s = 0 then i
        else if length s = 1 then find_last_not_of_charT self (s ! 0) pos
        else scan_down (\<lambda>c. \<not> lookup_table s ! of_char c) self i)"

definition find_last_not_of16 :: "string16 \<Rightarrow> string16 \<Rightarrow> nat \<Rightarrow> nat" where
  "find_last_not_of16 self s pos =
     (if length self = 0 then npos
      else scan_down (\<lambda>c. \<not> list_ex (\<lambda>x. c = x) s) self (min pos (length self - 1)))"

section \<open>Correctness of the scans\<close>

lemma scan_up_hit:
  assumes "i \<le> n" "n < length s" "p (s ! n)" "\<And>k. i \<le> k \<Longrightarrow> k < n \<Longrightarrow> \<not> p (s ! k)"
  shows "scan_up p s i = n"
  using assms
proof (induction p s i rule: scan_up.induct)
  case (1 p s i)
  show ?case
  proof (cases "i = n")
    case True
    with 1 show ?thesis by (simp add: scan_up.simps)
  next
    case False
    with 1 have "i < n" "\<not> p (s ! i)" by auto
    with 1 show ?thesis by (simp add: scan_up.simps [of p s i])
  qed
qed

lemma scan_up_miss: "(\<And>k. i \<le> k \<Longrightarrow> k < length s \<Longrightarrow> \<not> p (s ! k)) \<Longrightarrow> scan_up p s i = npos"
proof (induction p s i rule: scan_up.induct)
  case (1 p s i)
  then show ?case by (simp add: scan_up.simps [of p s i])
qed

lemma scan_down_hit:
  assumes "n \<le> i" "p (s ! n)" "\<And>k. n < k \<Longrightarrow> k \<le> i \<Longrightarrow> \<not> p (s ! k)"
  shows "scan_down p s i = n"
  using assms by (induction i) (auto simp: le_Suc_eq)

lemma scan_down_miss: "(\<And>k. k \<le> i \<Longrightarrow> \<not> p (s ! k)) \<Longrightarrow> scan_down p s i = npos"
  by (induction i) auto

lemma length_BuildLookupTable [simp]: "length (BuildLookupTable s t) = length t"
  by (induction s t rule: BuildLookupTable.induct) auto

lemma of_char_less_256: "of_char c < (256 :: nat)"
  by (cases c) (simp add: of_char_def horner_sum_simps split: if_splits)

lemma BuildLookupTable_nth:
  "length t = 256 \<Longrightarrow> BuildLookupTable s t ! of_char c \<longleftrightarrow> c \<in> set s \<or> t ! of_char c"
proof (induction s t rule: BuildLookupTable.induct)
  case (2 d cs t)
  have "of_char d = (of_char c :: nat) \<longleftrightarrow> d = c" by simp
  with 2 show ?case using of_char_less_256 [of d] by (auto simp: nth_list_update)
qed simp

lemma lookup_table_nth [simp]: "lookup_table s ! of_char c \<longleftrightarrow> c \<in> set s"
  using of_char_less_256 [of c] by (simp add: lookup_table_def BuildLookupTable_nth)

lemma list_ex_mem [simp]: "list_ex (\<lambda>x. c = x) s \<longleftrightarrow> c \<in> set s"
  by (auto simp: list_ex_iff)

lemma scan_up_cong: "(\<And>c. p c = q c) \<Longrightarrow> scan_up p s i = scan_up q s i"
  by (metis ext)

lemma scan_up_const: "i < length s \<Longrightarrow> (\<And>c. p c) \<Longrightarrow> scan_up p s i = i"
  by (simp add: scan_up.simps)

lemma scan_down_const: "(\<And>c. p c) \<Longrightarrow> scan_down p s i = i"
  by (cases i) auto

lemma length_1_set: "length s = Suc 0 \<Longrightarrow> c \<in> set s \<longleftrightarrow> c = s ! 0"
  by (cases s) auto

text \<open>
  Both widths of a search compute the same scan, but the 8-bit \<open>find_first_not_of\<close> ignores its
  start position when the set of characters is empty.
\<close>

lemma find_first_not_of8_scan:
  assumes "s \<noteq> [] \<or> pos = 0"
  shows "find_first_not_of8 self s pos = scan_up (\<lambda>c. c \<notin> set s) self pos"
proof (cases "self = []")
  case True
  then show ?thesis by (simp add: find_first_not_of8_def scan_up.simps)
next
  case False
  with assms show ?thesis
    by (cases "s = []"; cases "length s = 1")
      (auto simp: find_first_not_of8_def find_first_not_of_charT_def scan_up_const length_1_set
          intro!: scan_up_cong)
qed

lemma find_first_not_of8_empty_set: "self \<noteq> [] \<Longrightarrow> find_first_not_of8 self [] pos = 0"
  by (simp add: find_first_not_of8_def)

lemma find_first_not_of16_scan: "find_first_not_of16 self s pos = scan_up (\<lambda>c. c \<notin> set s) self pos"
  by (simp add: find_first_not_of16_def scan_up.simps)

lemma find_last_not_of8_scan:
  "find_last_not_of8 self s pos =
     (if self = [] then npos else scan_down (\<lambda>c. c \<notin> set s) self (min pos (length self - 1)))"
proof -
  have "(\<lambda>x. x \<noteq> s ! 0) = (\<lambda>c. c \<notin> set s)" if "length s = 1"
    using length_1_set [of s] that by auto
  then show ?thesis
    by (auto simp: find_last_not_of8_def find_last_not_of_charT_def scan_down_const Let_def)
qed

lemma find_last_not_of16_scan:
  "find_last_not_of16 self s pos =
     (if self = [] then npos else scan_down (\<lambda>c. c \<notin> set s) self (min pos (length self - 1)))"
  by (simp add: find_last_not_of16_def)

lemma find_first_of8_scan: "find_first_of8 self s pos = scan_up (\<lambda>c. c \<in> set s) self pos"
proof -
  have "(\<lambda>x. x = s ! 0) = (\<lambda>c. c \<in> set s)" if "length s = 1"
    using length_1_set [of s] that by auto
  then show ?thesis
    by (auto simp: find_first_of8_def find_charT_def scan_up.simps [of _ self pos] scan_up_miss)
qed

lemma find_first_of16_scan: "find_first_of16 self s pos = scan_up (\<lambda>c. c \<in> set s) self pos"
  by (simp add: find_first_of16_def)

lemma find_last_of8_scan:
  "find_last_of8 self s pos =
     (if self = [] then npos else scan_down (\<lambda>c. c \<in> set s) self (min pos (length self - 1)))"
proof -
  have "(\<lambda>x. x = s ! 0) = (\<lambda>c. c \<in> set s)" if "length s = 1"
    using length_1_set [of s] that by auto
  then show ?thesis
    by (auto simp: find_last_of8_def rfind_charT_def scan_down_miss)
qed

lemma find_last_of16_scan:
  "find_last_of16 self s pos =
     (if self = [] then npos else scan_down (\<lambda>c. c \<in> set s) self (min pos (length self - 1)))"
  by (simp add: find_last_of16_def)

section \<open>Correctness of the substring searches\<close>

lemma findT_spec:
  assumes "pos \<le> length self"
  shows "findT self s pos = (case str_find s (drop pos self) of Some k \<Rightarrow> pos + k | None \<Rightarrow> npos)"
proof (cases "str_find s (drop pos self)")
  case None
  then have "s \<noteq> []" by (auto simp: str_find_None_iff)
  with assms None show ?thesis by (simp add: findT_def)
next
  case (Some k)
  then have "pos + k + length s \<le> length self"
    using str_find_Some [OF Some] assms by (simp, linarith)
  with Some assms show ?thesis by (simp add: findT_def)
qed

lemma findT_past_end: "length self < pos \<Longrightarrow> findT self s pos = npos"
  by (simp add: findT_def)

lemma str_find_end_Some:
  "str_find_end p s = Some n \<Longrightarrow> n < length s \<and> n + length p \<le> length s \<and> take (length p) (drop n s) = p"
proof (induction s arbitrary: n)
  case (Cons c cs)
  show ?case
  proof (cases "str_find_end p cs")
    case None
    with Cons.prems have "n = 0" "take (length p) (c # cs) = p" by (auto split: if_splits)
    moreover from this have "length p \<le> length (c # cs)"
      by (metis length_take min.absorb_iff2 min.commute nat_le_linear)
    ultimately show ?thesis by simp
  next
    case (Some m)
    with Cons show ?thesis by auto
  qed
qed simp

lemma str_find_end_maximal:
  "str_find_end p s = Some n \<Longrightarrow> n < m \<Longrightarrow> m < length s \<Longrightarrow> take (length p) (drop m s) \<noteq> p"
proof (induction s arbitrary: n m)
  case (Cons c cs)
  show ?case
  proof (cases "str_find_end p cs")
    case None
    have "take (length p) (drop k cs) \<noteq> p" if "k < length cs" for k
      using None that
    proof (induction cs arbitrary: k)
      case (Cons d ds)
      then show ?case by (cases k) (auto split: option.splits if_splits)
    qed simp
    with Cons.prems None show ?thesis by (cases m) (auto split: if_splits)
  next
    case (Some q)
    with Cons show ?thesis by (cases m) auto
  qed
qed simp

lemma substrT_eq: "substrT self pos n = take n (drop pos self)"
  by (simp add: substrT_def Let_def min_def)

lemma piece_starts_with_iff: "piece_starts_with self x \<longleftrightarrow> prefix x self"
  by (auto simp: piece_starts_with_def take_eq_prefix dest: prefix_length_le)

lemma piece_ends_with_iff: "piece_ends_with self x \<longleftrightarrow> suffix x self"
proof
  assume "piece_ends_with self x"
  then have "drop (length self - length x) self = x" by (simp add: piece_ends_with_def)
  then show "suffix x self" by (metis suffix_drop)
next
  assume "suffix x self"
  then show "piece_ends_with self x" by (auto simp: suffix_def piece_ends_with_def)
qed

end
