(* ===== verification/Base_String_Ascii.thy ===== *)
theory Base_String_Ascii
  imports Cxtpl_Prelude Cxtpl_Words Base_String_Piece "HOL-Library.List_Lexorder"
begin

text \<open>
  The ASCII part of \<open>third_party/chromium/base/strings/string_util.h\<close> and \<open>string_util.cc\<close>:
  character classes, case mapping and case-insensitive comparison, prefix and suffix tests, and
  the word-at-a-time test \<open>IsStringASCII\<close> of the three character widths, with its alignment
  prologue and its batches of sixteen machine words.
\<close>

unbundle bit_operations_syntax

section \<open>Character classes\<close>

text \<open>
  The templates of the header are used with \<open>char\<close> and \<open>char16\<close>; a character is given by its value.
\<close>

abbreviation ord8 :: "char \<Rightarrow> int" where
  "ord8 c \<equiv> sint (byte c)"

abbreviation ord16 :: "char16 \<Rightarrow> int" where
  "ord16 c \<equiv> uint c"

definition IsAsciiWhitespace :: "int \<Rightarrow> bool" where
  "IsAsciiWhitespace c \<longleftrightarrow> c = 0x20 \<or> c = 0x0D \<or> c = 0x0A \<or> c = 0x09 \<or> c = 0x0C"

definition IsAsciiAlpha :: "int \<Rightarrow> bool" where
  "IsAsciiAlpha c \<longleftrightarrow> (c \<ge> 0x41 \<and> c \<le> 0x5A) \<or> (c \<ge> 0x61 \<and> c \<le> 0x7A)"

definition IsAsciiUpper :: "int \<Rightarrow> bool" where
  "IsAsciiUpper c \<longleftrightarrow> c \<ge> 0x41 \<and> c \<le> 0x5A"

definition IsAsciiLower :: "int \<Rightarrow> bool" where
  "IsAsciiLower c \<longleftrightarrow> c \<ge> 0x61 \<and> c \<le> 0x7A"

definition IsAsciiDigit :: "int \<Rightarrow> bool" where
  "IsAsciiDigit c \<longleftrightarrow> c \<ge> 0x30 \<and> c \<le> 0x39"

definition IsAsciiPrintable :: "int \<Rightarrow> bool" where
  "IsAsciiPrintable c \<longleftrightarrow> c \<ge> 0x20 \<and> c \<le> 0x7E"

definition IsHexDigit :: "int \<Rightarrow> bool" where
  "IsHexDigit c \<longleftrightarrow>
     (c \<ge> 0x30 \<and> c \<le> 0x39) \<or> (c \<ge> 0x41 \<and> c \<le> 0x46) \<or> (c \<ge> 0x61 \<and> c \<le> 0x66)"

definition HexDigitToInt :: "int \<Rightarrow> int" where
  "HexDigitToInt c =
     (if c \<ge> 0x30 \<and> c \<le> 0x39 then c - 0x30
      else if c \<ge> 0x41 \<and> c \<le> 0x46 then c - 0x41 + 10
      else if c \<ge> 0x61 \<and> c \<le> 0x66 then c - 0x61 + 10
      else 0)"

section \<open>Case\<close>

text \<open>The arithmetic is done in \<open>int\<close> and converted back to the character type.\<close>

definition ToLowerASCII8 :: "char \<Rightarrow> char" where
  "ToLowerASCII8 c =
     (if ord8 c \<ge> 0x41 \<and> ord8 c \<le> 0x5A then char_of_byte (word_of_int (ord8 c + (0x61 - 0x41)))
      else c)"

definition ToUpperASCII8 :: "char \<Rightarrow> char" where
  "ToUpperASCII8 c =
     (if ord8 c \<ge> 0x61 \<and> ord8 c \<le> 0x7A then char_of_byte (word_of_int (ord8 c + (0x41 - 0x61)))
      else c)"

definition ToLowerASCII16 :: "char16 \<Rightarrow> char16" where
  "ToLowerASCII16 c =
     (if ord16 c \<ge> 0x41 \<and> ord16 c \<le> 0x5A then word_of_int (ord16 c + (0x61 - 0x41)) else c)"

definition ToUpperASCII16 :: "char16 \<Rightarrow> char16" where
  "ToUpperASCII16 c =
     (if ord16 c \<ge> 0x61 \<and> ord16 c \<le> 0x7A then word_of_int (ord16 c + (0x41 - 0x61)) else c)"

definition ToLowerASCII :: "('c \<Rightarrow> 'c) \<Rightarrow> 'c list \<Rightarrow> 'c list" where
  "ToLowerASCII lower str = map lower str"

definition ToUpperASCII :: "('c \<Rightarrow> 'c) \<Rightarrow> 'c list \<Rightarrow> 'c list" where
  "ToUpperASCII upper str = map upper str"

text \<open>The comparison loop, at the suffixes of \<open>a\<close> and \<open>b\<close> from index \<open>i\<close> on.\<close>

fun CompareCaseInsensitiveASCIIT :: "('c \<Rightarrow> int) \<Rightarrow> ('c \<Rightarrow> 'c) \<Rightarrow> 'c list \<Rightarrow> 'c list \<Rightarrow> int" where
  "CompareCaseInsensitiveASCIIT ord lower (a # as) (b # bs) =
     (if ord (lower a) < ord (lower b) then -1
      else if ord (lower a) > ord (lower b) then 1
      else CompareCaseInsensitiveASCIIT ord lower as bs)"
| "CompareCaseInsensitiveASCIIT ord lower as bs =
     (if length as = length bs then 0 else if length as < length bs then -1 else 1)"

definition EqualsCaseInsensitiveASCIIT :: "('c \<Rightarrow> int) \<Rightarrow> ('c \<Rightarrow> 'c) \<Rightarrow> 'c list \<Rightarrow> 'c list \<Rightarrow> bool" where
  "EqualsCaseInsensitiveASCIIT ord lower a b =
     (if length a \<noteq> length b then False else CompareCaseInsensitiveASCIIT ord lower a b = 0)"

fun DoLowerCaseEqualsASCII_from ::
  "('c \<Rightarrow> int) \<Rightarrow> ('c \<Rightarrow> 'c) \<Rightarrow> 'c list \<Rightarrow> string \<Rightarrow> bool" where
  "DoLowerCaseEqualsASCII_from ord lower (c # str) (b # bs) =
     (if ord (lower c) \<noteq> ord8 b then False else DoLowerCaseEqualsASCII_from ord lower str bs)"
| "DoLowerCaseEqualsASCII_from ord lower str bs = True"

definition DoLowerCaseEqualsASCII ::
  "('c \<Rightarrow> int) \<Rightarrow> ('c \<Rightarrow> 'c) \<Rightarrow> 'c list \<Rightarrow> string \<Rightarrow> bool" where
  "DoLowerCaseEqualsASCII ord lower str lowercase_ascii =
     (if length str \<noteq> length lowercase_ascii then False
      else DoLowerCaseEqualsASCII_from ord lower str lowercase_ascii)"

text \<open>The pointer version: \<open>b\<close> is a C string, here without its terminating NUL.\<close>

fun LowerCaseEqualsASCII_ptr :: "string \<Rightarrow> string \<Rightarrow> bool" where
  "LowerCaseEqualsASCII_ptr (c # a) (b # bs) =
     (if ToLowerASCII8 c \<noteq> b then False else LowerCaseEqualsASCII_ptr a bs)"
| "LowerCaseEqualsASCII_ptr (c # a) [] = False"
| "LowerCaseEqualsASCII_ptr [] b = (b = [])"

definition EqualsASCII :: "string16 \<Rightarrow> string \<Rightarrow> bool" where
  "EqualsASCII str ascii =
     (if length str \<noteq> length ascii then False
      else list_all2 (\<lambda>a s. ord8 a = ord16 s) ascii str)"

section \<open>Prefixes and suffixes\<close>

datatype CompareCase = SENSITIVE | INSENSITIVE_ASCII

definition StartsWithT :: "('c \<Rightarrow> 'c) \<Rightarrow> 'c list \<Rightarrow> 'c list \<Rightarrow> CompareCase \<Rightarrow> bool" where
  "StartsWithT lower str search_for case_sensitivity =
     (if length search_for > length str then False
      else
        let source = substrT str 0 (length search_for) in
        case case_sensitivity of
          SENSITIVE \<Rightarrow> source = search_for
        | INSENSITIVE_ASCII \<Rightarrow> list_all2 (\<lambda>x y. lower x = lower y) search_for source)"

definition EndsWithT :: "('c \<Rightarrow> 'c) \<Rightarrow> 'c list \<Rightarrow> 'c list \<Rightarrow> CompareCase \<Rightarrow> bool" where
  "EndsWithT lower str search_for case_sensitivity =
     (if length search_for > length str then False
      else
        let source = substrT str (length str - length search_for) (length search_for) in
        case case_sensitivity of
          SENSITIVE \<Rightarrow> source = search_for
        | INSENSITIVE_ASCII \<Rightarrow> list_all2 (\<lambda>x y. lower x = lower y) source search_for)"

abbreviation StartsWith :: "string \<Rightarrow> string \<Rightarrow> CompareCase \<Rightarrow> bool" where
  "StartsWith \<equiv> StartsWithT ToLowerASCII8"

abbreviation StartsWith16 :: "string16 \<Rightarrow> string16 \<Rightarrow> CompareCase \<Rightarrow> bool" where
  "StartsWith16 \<equiv> StartsWithT ToLowerASCII16"

abbreviation EndsWith :: "string \<Rightarrow> string \<Rightarrow> CompareCase \<Rightarrow> bool" where
  "EndsWith \<equiv> EndsWithT ToLowerASCII8"

abbreviation EndsWith16 :: "string16 \<Rightarrow> string16 \<Rightarrow> CompareCase \<Rightarrow> bool" where
  "EndsWith16 \<equiv> EndsWithT ToLowerASCII16"

section \<open>The word-at-a-time ASCII test\<close>

type_synonym machine_word = "64 word"

definition NonASCIIMask8 :: machine_word where
  "NonASCIIMask8 = 0x8080808080808080"

definition NonASCIIMask16 :: machine_word where
  "NonASCIIMask16 = 0xFF80FF80FF80FF80"

definition NonASCIIMask32 :: machine_word where
  "NonASCIIMask32 = 0xFFFFFF80FFFFFF80"

definition IsMachineWordAligned :: "nat \<Rightarrow> bool" where
  "IsMachineWordAligned pointer \<longleftrightarrow> pointer mod 8 = 0"

text \<open>A little-endian machine word read from the characters at a pointer.\<close>

fun load_word :: "'n::len word list \<Rightarrow> machine_word" where
  "load_word [] = 0"
| "load_word (c # cs) = ucast c OR push_bit LENGTH('n) (load_word cs)"

text \<open>
  \<open>DoIsStringASCII(characters, length)\<close> for characters of \<open>sz\<close> bytes: \<open>conv\<close> is the conversion of
  one character to \<open>MachineWord\<close>, \<open>load\<close> the word of the next \<open>8 / sz\<close> characters. The loops run
  over the characters that remain up to \<open>end\<close>; \<open>pointer\<close> is the address of the first of them.
\<close>

fun ascii_prologue ::
  "nat \<Rightarrow> ('c \<Rightarrow> machine_word) \<Rightarrow> nat \<Rightarrow> 'c list \<Rightarrow> machine_word \<Rightarrow> machine_word \<times> 'c list" where
  "ascii_prologue sz conv pointer [] all_char_bits = (all_char_bits, [])"
| "ascii_prologue sz conv pointer (c # cs) all_char_bits =
     (if \<not> IsMachineWordAligned pointer
      then ascii_prologue sz conv (pointer + sz) cs (all_char_bits OR conv c)
      else (all_char_bits, c # cs))"

primrec ascii_batch ::
  "('c list \<Rightarrow> machine_word) \<Rightarrow> nat \<Rightarrow> nat \<Rightarrow> 'c list \<Rightarrow> machine_word \<Rightarrow> machine_word \<times> 'c list" where
  "ascii_batch load cpw 0 cs all_char_bits = (all_char_bits, cs)"
| "ascii_batch load cpw (Suc i) cs all_char_bits =
     ascii_batch load cpw i (drop cpw cs) (all_char_bits OR load (take cpw cs))"

text \<open>The loop over batches: \<open>None\<close> when a batch has a non-ASCII character (the early return).\<close>

function ascii_batches ::
  "('c list \<Rightarrow> machine_word) \<Rightarrow> machine_word \<Rightarrow> nat \<Rightarrow> 'c list \<Rightarrow> 'c list option" where
  "ascii_batches load non_ascii cpw cs =
     (if 16 * cpw \<le> length cs \<and> 0 < cpw then
        (let (all_char_bits, cs') = ascii_batch load cpw 16 cs 0 in
         if all_char_bits AND non_ascii \<noteq> 0 then None
         else ascii_batches load non_ascii cpw (drop (16 * cpw) cs))
      else Some cs)"
  by pat_completeness auto
termination
  by (relation "measure (\<lambda>(_, _, _, cs). length cs)") auto

declare ascii_batches.simps [simp del]

function ascii_words ::
  "('c list \<Rightarrow> machine_word) \<Rightarrow> nat \<Rightarrow> 'c list \<Rightarrow> machine_word \<Rightarrow> machine_word \<times> 'c list" where
  "ascii_words load cpw cs all_char_bits =
     (if cpw \<le> length cs \<and> 0 < cpw
      then ascii_words load cpw (drop cpw cs) (all_char_bits OR load (take cpw cs))
      else (all_char_bits, cs))"
  by pat_completeness auto
termination
  by (relation "measure (\<lambda>(_, _, cs, _). length cs)") auto

declare ascii_words.simps [simp del]

fun ascii_bytes :: "('c \<Rightarrow> machine_word) \<Rightarrow> 'c list \<Rightarrow> machine_word \<Rightarrow> machine_word" where
  "ascii_bytes conv [] all_char_bits = all_char_bits"
| "ascii_bytes conv (c # cs) all_char_bits = ascii_bytes conv cs (all_char_bits OR conv c)"

definition DoIsStringASCII ::
  "nat \<Rightarrow> ('c \<Rightarrow> machine_word) \<Rightarrow> ('c list \<Rightarrow> machine_word) \<Rightarrow> machine_word \<Rightarrow> nat \<Rightarrow> 'c list \<Rightarrow> bool" where
  "DoIsStringASCII sz conv load non_ascii pointer characters =
     (if length characters = 0 then True
      else
        let (all_char_bits, cs) = ascii_prologue sz conv pointer characters 0 in
        if all_char_bits AND non_ascii \<noteq> 0 then False
        else case ascii_batches load non_ascii (8 div sz) cs of
          None \<Rightarrow> False
        | Some cs \<Rightarrow>
            let (all_char_bits, cs) = ascii_words load (8 div sz) cs 0 in
            ascii_bytes conv cs all_char_bits AND non_ascii = 0)"

definition conv8 :: "char \<Rightarrow> machine_word" where
  "conv8 c = scast (byte c)"

definition load8 :: "string \<Rightarrow> machine_word" where
  "load8 cs = load_word (map byte cs)"

definition IsStringASCII_at :: "nat \<Rightarrow> string \<Rightarrow> bool" where
  "IsStringASCII_at = DoIsStringASCII 1 conv8 load8 NonASCIIMask8"

definition IsStringASCII16_at :: "nat \<Rightarrow> string16 \<Rightarrow> bool" where
  "IsStringASCII16_at = DoIsStringASCII 2 ucast load_word NonASCIIMask16"

definition IsStringASCII32_at :: "nat \<Rightarrow> 32 word list \<Rightarrow> bool" where
  "IsStringASCII32_at = DoIsStringASCII 4 scast load_word NonASCIIMask32"

section \<open>The ASCII test examines every character\<close>

text \<open>
  What the loops rely on: the mask sees a non-ASCII character both when it is converted alone and
  when it is one of the characters of a word.
\<close>

locale ascii_mask =
  fixes sz :: nat and conv :: "'c \<Rightarrow> machine_word" and load :: "'c list \<Rightarrow> machine_word"
    and non_ascii :: machine_word and ascii :: "'c \<Rightarrow> bool"
  assumes cpw_pos: "0 < 8 div sz"
    and conv_mask: "conv c AND non_ascii = 0 \<longleftrightarrow> ascii c"
    and load_mask: "length cs = 8 div sz \<Longrightarrow> load cs AND non_ascii = 0 \<longleftrightarrow> list_all ascii cs"
begin

lemma or_mask: "(a OR b) AND non_ascii = 0 \<longleftrightarrow> a AND non_ascii = 0 \<and> b AND non_ascii = 0"
  by (auto simp: bit_eq_iff bit_simps)

lemma prologue_ok:
  "ascii_prologue sz conv p cs w = (w', cs') \<Longrightarrow>
     (w' AND non_ascii = 0 \<and> list_all ascii cs') \<longleftrightarrow> (w AND non_ascii = 0 \<and> list_all ascii cs)"
  by (induction cs arbitrary: p w) (auto simp: or_mask conv_mask split: if_splits)

lemma batch_ok:
  "ascii_batch load (8 div sz) n cs w = (w', cs') \<Longrightarrow> n * (8 div sz) \<le> length cs \<Longrightarrow>
     cs' = drop (n * (8 div sz)) cs \<and>
     (w' AND non_ascii = 0 \<longleftrightarrow> w AND non_ascii = 0 \<and> list_all ascii (take (n * (8 div sz)) cs))"
proof (induction n arbitrary: cs w)
  case (Suc n)
  have len: "length (take (8 div sz) cs) = 8 div sz" using Suc.prems(2) by simp
  from Suc.IH [of "drop (8 div sz) cs"] Suc.prems
  show ?case
    by (auto simp: or_mask load_mask [OF len] take_add add.commute)
qed simp

lemma all_take_drop: "list_all ascii cs \<longleftrightarrow> list_all ascii (take n cs) \<and> list_all ascii (drop n cs)"
  by (metis append_take_drop_id list_all_append)

lemma batches_ok:
  "(case ascii_batches load non_ascii (8 div sz) cs of None \<Rightarrow> False | Some cs' \<Rightarrow> list_all ascii cs')
     \<longleftrightarrow> list_all ascii cs"
proof (induction cs rule: length_induct)
  case (1 cs)
  show ?case
  proof (cases "16 * (8 div sz) \<le> length cs")
    case True
    obtain w cs' where b: "ascii_batch load (8 div sz) 16 cs 0 = (w, cs')" by fastforce
    from batch_ok [OF b] True
    have w: "w AND non_ascii = 0 \<longleftrightarrow> list_all ascii (take (16 * (8 div sz)) cs)" by simp
    have "length (drop (16 * (8 div sz)) cs) < length cs" using True cpw_pos by simp
    with 1 have "(case ascii_batches load non_ascii (8 div sz) (drop (16 * (8 div sz)) cs) of
       None \<Rightarrow> False | Some cs' \<Rightarrow> list_all ascii cs') \<longleftrightarrow> list_all ascii (drop (16 * (8 div sz)) cs)"
      by blast
    with True w b cpw_pos all_take_drop [of cs "16 * (8 div sz)"] show ?thesis
      by (simp add: ascii_batches.simps [of load non_ascii _ cs])
  next
    case False
    then show ?thesis by (simp add: ascii_batches.simps [of load non_ascii _ cs])
  qed
qed

lemma words_ok:
  "ascii_words load (8 div sz) cs w = (w', cs') \<Longrightarrow>
     (w' AND non_ascii = 0 \<and> list_all ascii cs') \<longleftrightarrow> (w AND non_ascii = 0 \<and> list_all ascii cs)"
proof (induction cs arbitrary: w rule: length_induct)
  case (1 cs)
  show ?case
  proof (cases "8 div sz \<le> length cs")
    case True
    then have len: "length (take (8 div sz) cs) = 8 div sz" by simp
    have "length (drop (8 div sz) cs) < length cs" using True cpw_pos by simp
    moreover from 1(2) True cpw_pos
    have "ascii_words load (8 div sz) (drop (8 div sz) cs) (w OR load (take (8 div sz) cs)) = (w', cs')"
      by (simp add: ascii_words.simps [of load _ cs])
    ultimately have "(w' AND non_ascii = 0 \<and> list_all ascii cs') \<longleftrightarrow>
        ((w OR load (take (8 div sz) cs)) AND non_ascii = 0 \<and> list_all ascii (drop (8 div sz) cs))"
      using 1(1) by blast
    then show ?thesis
      unfolding all_take_drop [of cs "8 div sz"] or_mask load_mask [OF len] by blast
  next
    case False
    with 1 show ?thesis by (simp add: ascii_words.simps [of load _ cs])
  qed
qed

lemma bytes_ok: "ascii_bytes conv cs w AND non_ascii = 0 \<longleftrightarrow> w AND non_ascii = 0 \<and> list_all ascii cs"
  by (induction cs arbitrary: w) (auto simp: or_mask conv_mask)

lemma DoIsStringASCII_all: "DoIsStringASCII sz conv load non_ascii pointer cs \<longleftrightarrow> list_all ascii cs"
proof -
  obtain w cs1 where p: "ascii_prologue sz conv pointer cs 0 = (w, cs1)" by fastforce
  note p_ok = prologue_ok [OF p]
  show ?thesis
  proof (cases "ascii_batches load non_ascii (8 div sz) cs1")
    case None
    with batches_ok [of cs1] p p_ok show ?thesis by (cases cs) (auto simp: DoIsStringASCII_def)
  next
    case (Some cs2)
    obtain w2 cs3 where w: "ascii_words load (8 div sz) cs2 0 = (w2, cs3)" by fastforce
    from batches_ok [of cs1] words_ok [OF w] Some w p p_ok show ?thesis
      by (auto simp: DoIsStringASCII_def bytes_ok)
  qed
qed

end

lemma bit_load_word:
  fixes cs :: "'n::len word list"
  shows "bit (load_word cs) n \<longleftrightarrow>
    n < 64 \<and> n div LENGTH('n) < length cs \<and> bit (cs ! (n div LENGTH('n))) (n mod LENGTH('n))"
proof (induction cs arbitrary: n)
  case (Cons c cs)
  show ?case
  proof (cases "n < LENGTH('n)")
    case True
    then show ?thesis by (auto simp: bit_simps)
  next
    case False
    then have "\<not> bit (ucast c :: machine_word) n"
      using bit_imp_le_length [of c n] by (auto simp: bit_simps)
    moreover obtain m where n: "n = m + LENGTH('n)" using False by (metis add.commute le_Suc_ex not_less)
    moreover have "(m + LENGTH('n)) div LENGTH('n) = Suc (m div LENGTH('n))" by (subst div_add_self2) auto
    ultimately show ?thesis using Cons.IH [of m] by (auto simp: bit_simps)
  qed
qed simp

lemma word_and_eq_0_iff: "(a :: machine_word) AND b = 0 \<longleftrightarrow> (\<forall>n < 64. \<not> (bit a n \<and> bit b n))"
  by (auto simp: bit_eq_iff bit_simps)

text \<open>A mask that repeats the bits \<open>P\<close> of every character decides the loaded word.\<close>

lemma load_word_mask:
  fixes cs :: "'n::len word list" and m :: machine_word
  assumes len: "length cs * LENGTH('n) = 64"
    and m: "\<And>n. n < 64 \<Longrightarrow> bit m n \<longleftrightarrow> P (n mod LENGTH('n))"
  shows "load_word cs AND m = 0 \<longleftrightarrow> list_all (\<lambda>c. \<forall>j < LENGTH('n). P j \<longrightarrow> \<not> bit c j) cs"
proof -
  have "(\<forall>n < 64. \<not> (bit (load_word cs) n \<and> bit m n)) \<longleftrightarrow>
        (\<forall>k < length cs. \<forall>j < LENGTH('n). P j \<longrightarrow> \<not> bit (cs ! k) j)" (is "?L \<longleftrightarrow> ?R")
  proof
    assume L: ?L
    show ?R
    proof (intro allI impI)
      fix k j assume kj: "k < length cs" "j < LENGTH('n)" "P j"
      let ?n = "k * LENGTH('n) + j"
      have "?n < Suc k * LENGTH('n)" using kj(2) by simp
      also have "\<dots> \<le> length cs * LENGTH('n)" using kj(1) by (intro mult_right_mono) auto
      finally have n: "?n < 64" using len by simp
      moreover have "?n div LENGTH('n) = k" "?n mod LENGTH('n) = j" using kj(2) by auto
      ultimately show "\<not> bit (cs ! k) j" using L kj m [OF n] by (auto simp: bit_load_word)
    qed
  next
    assume R: ?R
    show ?L
      using R m by (auto simp: bit_load_word)
  qed
  then show ?thesis by (simp add: word_and_eq_0_iff list_all_length)
qed

lemma NonASCIIMask_bits:
  "n < 64 \<Longrightarrow> bit NonASCIIMask8 n \<longleftrightarrow> 7 \<le> n mod 8"
  "n < 64 \<Longrightarrow> bit NonASCIIMask16 n \<longleftrightarrow> 7 \<le> n mod 16"
  "n < 64 \<Longrightarrow> bit NonASCIIMask32 n \<longleftrightarrow> 7 \<le> n mod 32"
proof -
  have "list_all (\<lambda>n. (bit NonASCIIMask8 n \<longleftrightarrow> 7 \<le> n mod 8) \<and> (bit NonASCIIMask16 n \<longleftrightarrow> 7 \<le> n mod 16)
      \<and> (bit NonASCIIMask32 n \<longleftrightarrow> 7 \<le> n mod 32)) [0..<64]"
    by code_simp
  then show "n < 64 \<Longrightarrow> bit NonASCIIMask8 n \<longleftrightarrow> 7 \<le> n mod 8"
    "n < 64 \<Longrightarrow> bit NonASCIIMask16 n \<longleftrightarrow> 7 \<le> n mod 16"
    "n < 64 \<Longrightarrow> bit NonASCIIMask32 n \<longleftrightarrow> 7 \<le> n mod 32"
    by (auto simp: list_all_iff)
qed

lemma high_bits_zero:
  fixes c :: "'n::len word"
  assumes "7 \<le> LENGTH('n)"
  shows "(\<forall>j < LENGTH('n). 7 \<le> j \<longrightarrow> \<not> bit c j) \<longleftrightarrow> unat c < 128"
proof -
  have "(\<forall>j < LENGTH('n). 7 \<le> j \<longrightarrow> \<not> bit c j) \<longleftrightarrow> take_bit 7 c = c"
    by (auto simp: bit_eq_iff bit_simps)
  also have "\<dots> \<longleftrightarrow> unat c mod 128 = unat c"
    by (simp only: word_unat_eq_iff unsigned_take_bit_eq) (simp add: take_bit_eq_mod)
  also have "\<dots> \<longleftrightarrow> unat c < 128"
    by (metis mod_less mod_less_divisor zero_less_numeral)
  finally show ?thesis .
qed

text \<open>The same mask on one converted character, zero- or sign-extended.\<close>

lemma conv_word_mask:
  fixes c :: "'n::len word" and m w :: machine_word
  assumes len: "8 \<le> LENGTH('n)" "LENGTH('n) \<le> 64"
    and m: "\<And>n. n < 64 \<Longrightarrow> bit m n \<longleftrightarrow> 7 \<le> n mod LENGTH('n)"
    and w: "\<And>n. n < LENGTH('n) \<Longrightarrow> bit w n \<longleftrightarrow> bit c n"
    and w': "\<And>n. bit w n \<Longrightarrow> LENGTH('n) \<le> n \<Longrightarrow> bit c (LENGTH('n) - 1)"
  shows "w AND m = 0 \<longleftrightarrow> unat c < 128"
proof -
  have "(\<forall>n < 64. \<not> (bit w n \<and> bit m n)) \<longleftrightarrow> (\<forall>j < LENGTH('n). 7 \<le> j \<longrightarrow> \<not> bit c j)" (is "?L \<longleftrightarrow> ?R")
  proof
    assume L: ?L
    show ?R
    proof (intro allI impI)
      fix j assume "j < LENGTH('n)" "7 \<le> j"
      with L m [of j] w [of j] len show "\<not> bit c j" by auto
    qed
  next
    assume R: ?R
    show ?L
    proof (intro allI impI notI)
      fix n assume "n < (64 :: nat)" and b: "bit w n \<and> bit m n"
      then show False
        using R m [of n] w [of n] w' [of n] len by (cases "n < LENGTH('n)") auto
    qed
  qed
  then show ?thesis using high_bits_zero [of c] len by (simp add: word_and_eq_0_iff)
qed

abbreviation is_ascii8 :: "char \<Rightarrow> bool" where
  "is_ascii8 c \<equiv> of_char c < (128 :: nat)"

abbreviation is_ascii :: "'n::len word \<Rightarrow> bool" where
  "is_ascii c \<equiv> unat c < 128"

lemma unat_byte [simp]: "unat (byte c) = of_char c"
  using of_char_less_256 [of c] by (simp add: byte_def unat_of_nat)

lemma load_word_ascii:
  fixes cs :: "'n::len word list"
  assumes "length cs * LENGTH('n) = 64" "8 \<le> LENGTH('n)"
    "\<And>n. n < 64 \<Longrightarrow> bit m n \<longleftrightarrow> 7 \<le> n mod LENGTH('n)"
  shows "load_word cs AND m = 0 \<longleftrightarrow> list_all is_ascii cs"
  using load_word_mask [OF assms(1), of m "\<lambda>j. 7 \<le> j"] assms(2,3) by (simp add: high_bits_zero)

lemma bit_scast_low:
  fixes c :: "'n::len word"
  shows "n < LENGTH('n) \<Longrightarrow> LENGTH('n) \<le> 64 \<Longrightarrow> bit (scast c :: machine_word) n \<longleftrightarrow> bit c n"
  and bit_scast_high:
  "bit (scast c :: machine_word) n \<Longrightarrow> LENGTH('n) \<le> n \<Longrightarrow> bit c (LENGTH('n) - 1)"
  by (auto simp: bit_signed_iff min_def not_le dest: le_antisym split: if_splits)

lemma conv_scast_mask:
  fixes c :: "'n::len word" and m :: machine_word
  assumes "8 \<le> LENGTH('n)" "LENGTH('n) \<le> 64"
    and "\<And>n. n < 64 \<Longrightarrow> bit m n \<longleftrightarrow> 7 \<le> n mod LENGTH('n)"
  shows "scast c AND m = 0 \<longleftrightarrow> unat c < 128"
proof (rule conv_word_mask [OF assms])
  show "n < LENGTH('n) \<Longrightarrow> bit (scast c :: machine_word) n \<longleftrightarrow> bit c n" for n
    using assms(2) bit_scast_low [where c = c and n = n] by blast
  show "bit (scast c :: machine_word) n \<Longrightarrow> LENGTH('n) \<le> n \<Longrightarrow> bit c (LENGTH('n) - 1)" for n
    by (rule bit_scast_high)
qed

interpretation ascii8: ascii_mask 1 conv8 load8 NonASCIIMask8 is_ascii8
proof
  fix c
  show "conv8 c AND NonASCIIMask8 = 0 \<longleftrightarrow> is_ascii8 c"
    unfolding unat_byte [symmetric]
    unfolding conv8_def
    by (rule conv_scast_mask) (simp_all add: NonASCIIMask_bits)
next
  fix cs :: string assume "length cs = 8 div 1"
  then show "load8 cs AND NonASCIIMask8 = 0 \<longleftrightarrow> list_all is_ascii8 cs"
    using load_word_ascii [of "map byte cs" NonASCIIMask8]
    by (simp add: load8_def NonASCIIMask_bits list.pred_map comp_def)
qed simp

interpretation ascii16: ascii_mask 2 "ucast :: char16 \<Rightarrow> machine_word" load_word NonASCIIMask16 is_ascii
proof
  fix c :: char16
  show "ucast c AND NonASCIIMask16 = 0 \<longleftrightarrow> is_ascii c"
    by (rule conv_word_mask) (auto simp: bit_unsigned_iff NonASCIIMask_bits dest: bit_imp_le_length)
next
  fix cs :: string16 assume "length cs = 8 div 2"
  then show "load_word cs AND NonASCIIMask16 = 0 \<longleftrightarrow> list_all is_ascii cs"
    using load_word_ascii [of cs NonASCIIMask16] by (simp add: NonASCIIMask_bits)
qed simp

interpretation ascii32: ascii_mask 4 "scast :: 32 word \<Rightarrow> machine_word" load_word NonASCIIMask32 is_ascii
proof
  fix c :: "32 word"
  show "scast c AND NonASCIIMask32 = 0 \<longleftrightarrow> is_ascii c"
    by (rule conv_scast_mask) (simp_all add: NonASCIIMask_bits)
next
  fix cs :: "32 word list" assume "length cs = 8 div 4"
  then show "load_word cs AND NonASCIIMask32 = 0 \<longleftrightarrow> list_all is_ascii cs"
    using load_word_ascii [of cs NonASCIIMask32] by (simp add: NonASCIIMask_bits)
qed simp

lemma IsStringASCII_at_iff: "IsStringASCII_at pointer s \<longleftrightarrow> list_all is_ascii8 s"
  unfolding IsStringASCII_at_def by (rule ascii8.DoIsStringASCII_all)

lemma IsStringASCII16_at_iff: "IsStringASCII16_at pointer s \<longleftrightarrow> list_all is_ascii s"
  unfolding IsStringASCII16_at_def by (rule ascii16.DoIsStringASCII_all)

lemma IsStringASCII32_at_iff: "IsStringASCII32_at pointer s \<longleftrightarrow> list_all is_ascii s"
  unfolding IsStringASCII32_at_def by (rule ascii32.DoIsStringASCII_all)

text \<open>
  An aligned prologue, a batch of sixteen words and a tail do not depend on where the string lies in
  memory, so the test is a function of the characters.
\<close>

abbreviation IsStringASCII :: "string \<Rightarrow> bool" where
  "IsStringASCII \<equiv> IsStringASCII_at 0"

abbreviation IsStringASCII16 :: "string16 \<Rightarrow> bool" where
  "IsStringASCII16 \<equiv> IsStringASCII16_at 0"

abbreviation IsStringASCII32 :: "32 word list \<Rightarrow> bool" where
  "IsStringASCII32 \<equiv> IsStringASCII32_at 0"

section \<open>Case mapping and comparison\<close>

abbreviation char_code :: "char \<Rightarrow> nat" where
  "char_code c \<equiv> of_char c"

lemma char_code_below: "256 \<le> n \<Longrightarrow> char_code c < n"
  using of_char_less_256 [of c] by linarith

lemma signed_residue:
  fixes x :: int
  assumes "0 \<le> x" "x < 256"
  shows "(x + 128) mod 256 - 128 = (if x < 128 then x else x - 256)"
proof (cases "x < 128")
  case True
  with assms show ?thesis by (simp add: mod_pos_pos_trivial)
next
  case False
  have "(x + 128) mod 256 = ((x - 128) + 256) mod 256" by (simp add: add.commute)
  also have "\<dots> = (x - 128) mod 256" by (rule mod_add_self2)
  also have "\<dots> = x - 128" using False assms by (simp add: mod_pos_pos_trivial)
  finally show ?thesis using False by simp
qed

lemma sint_byte:
  "sint (byte c) = (if of_char c < (128 :: nat) then int (of_char c) else int (of_char c) - 256)"
proof -
  have "sint (byte c) = (uint (byte c) + 128) mod 256 - 128"
    by (simp add: sint_uint signed_take_bit_eq_take_bit_shift take_bit_eq_mod)
  also have "uint (byte c) = int (of_char c)"
    by (metis unat_byte uint_nat)
  finally show ?thesis
    using signed_residue [of "int (of_char c)"] of_char_less_256 [of c] by simp
qed

lemma ord8_inj: "ord8 a = ord8 b \<longleftrightarrow> a = b"
  by (metis char_of_byte_byte signed_word_eqI)

lemma ord16_inj: "ord16 a = ord16 b \<longleftrightarrow> a = b"
  by (simp add: word_uint_eq_iff)

lemma of_char_of_value:
  "0 \<le> k \<Longrightarrow> k < 256 \<Longrightarrow> of_char (char_of_byte (word_of_int k)) = nat k"
proof -
  assume k: "0 \<le> k" "k < 256"
  have "of_char (char_of_byte (word_of_int k)) = unat (word_of_int k :: 8 word)"
    by (metis byte_char_of_byte unat_byte)
  also have "\<dots> = nat k" using k by (simp add: unat_eq_nat_uint uint_word_of_int)
  finally show ?thesis .
qed

lemma ToLowerASCII8_code:
  "char_code (ToLowerASCII8 c) = (if 65 \<le> char_code c \<and> char_code c \<le> 90 then char_code c + 32 else char_code c)"
proof (cases "65 \<le> char_code c \<and> char_code c \<le> 90")
  case True
  then have "ord8 c = int (char_code c)" by (simp add: sint_byte)
  moreover from this True have "ToLowerASCII8 c = char_of_byte (word_of_int (int (char_code c) + 32))"
    unfolding ToLowerASCII8_def by simp
  ultimately show ?thesis
    using True of_char_of_value [of "int (char_code c) + 32"] by (simp add: nat_add_distrib)
next
  case False
  then have "ToLowerASCII8 c = c"
    by (auto simp: ToLowerASCII8_def sint_byte split: if_splits) (use of_char_less_256 [of c] in linarith)
  with False show ?thesis by auto
qed

lemma ToUpperASCII8_code:
  "char_code (ToUpperASCII8 c) = (if 97 \<le> char_code c \<and> char_code c \<le> 122 then char_code c - 32 else char_code c)"
proof (cases "97 \<le> char_code c \<and> char_code c \<le> 122")
  case True
  then have "ord8 c = int (char_code c)" by (simp add: sint_byte)
  moreover from this True have "ToUpperASCII8 c = char_of_byte (word_of_int (int (char_code c) - 32))"
    unfolding ToUpperASCII8_def by simp
  ultimately show ?thesis
    using True of_char_of_value [of "int (char_code c) - 32"] by (simp add: nat_diff_distrib)
next
  case False
  then have "ToUpperASCII8 c = c"
    by (auto simp: ToUpperASCII8_def sint_byte split: if_splits) (use of_char_less_256 [of c] in linarith)
  with False show ?thesis by auto
qed

text \<open>The comparison is the lexicographic order of the lowered strings.\<close>

lemma CompareCaseInsensitiveASCIIT_lex:
  "CompareCaseInsensitiveASCIIT ord lower a b =
    (if map (ord \<circ> lower) a = map (ord \<circ> lower) b then 0
     else if map (ord \<circ> lower) a < map (ord \<circ> lower) b then -1 else 1)"
proof (induction ord lower a b rule: CompareCaseInsensitiveASCIIT.induct)
  case (1 ord lower a as b bs)
  then show ?case
    by (cases "ord (lower a)" "ord (lower b)" rule: linorder_cases) (auto simp: comp_def)
qed (auto simp: comp_def neq_Nil_conv)

lemma EqualsCaseInsensitiveASCIIT_iff:
  "EqualsCaseInsensitiveASCIIT ord lower a b \<longleftrightarrow> map (ord \<circ> lower) a = map (ord \<circ> lower) b"
  by (auto simp: EqualsCaseInsensitiveASCIIT_def CompareCaseInsensitiveASCIIT_lex dest: map_eq_imp_length_eq)

lemma DoLowerCaseEqualsASCII_iff:
  "DoLowerCaseEqualsASCII ord lower str b \<longleftrightarrow> map (ord \<circ> lower) str = map ord8 b"
proof -
  have "length str = length b \<Longrightarrow> DoLowerCaseEqualsASCII_from ord lower str b \<longleftrightarrow> map (ord \<circ> lower) str = map ord8 b"
    by (induction ord lower str b rule: DoLowerCaseEqualsASCII_from.induct) auto
  then show ?thesis by (auto simp: DoLowerCaseEqualsASCII_def dest: map_eq_imp_length_eq)
qed

lemma LowerCaseEqualsASCII_ptr_iff: "LowerCaseEqualsASCII_ptr a b \<longleftrightarrow> map ToLowerASCII8 a = b"
  by (induction a b rule: LowerCaseEqualsASCII_ptr.induct) auto

lemma EqualsASCII_iff: "EqualsASCII str ascii \<longleftrightarrow> map ord16 str = map ord8 ascii"
  by (auto simp: EqualsASCII_def list_all2_conv_all_nth list_eq_iff_nth_eq)

lemma StartsWithT_sensitive: "StartsWithT lower str p SENSITIVE \<longleftrightarrow> prefix p str"
  by (auto simp: StartsWithT_def substrT_eq take_eq_prefix dest: prefix_length_le)

lemma EndsWithT_sensitive: "EndsWithT lower str p SENSITIVE \<longleftrightarrow> suffix p str"
  using piece_ends_with_iff [of str p]
  by (auto simp: EndsWithT_def substrT_eq piece_ends_with_def)

lemma StartsWithT_insensitive:
  "StartsWithT lower str p INSENSITIVE_ASCII \<longleftrightarrow> prefix (map lower p) (map lower str)"
proof -
  have "list_all2 (\<lambda>x y. lower x = lower y) p q \<longleftrightarrow> map lower q = map lower p" for q
    by (auto simp: list_all2_conv_all_nth list_eq_iff_nth_eq)
  then have "StartsWithT lower str p INSENSITIVE_ASCII \<longleftrightarrow>
      length p \<le> length str \<and> take (length (map lower p)) (map lower str) = map lower p"
    by (simp add: StartsWithT_def substrT_eq take_map not_le)
  also have "\<dots> \<longleftrightarrow> prefix (map lower p) (map lower str)"
    unfolding take_eq_prefix using prefix_length_le [of "map lower p" "map lower str"] by auto
  finally show ?thesis .
qed

lemma HexDigitToInt_roundtrip:
  "IsHexDigit c \<Longrightarrow> 0 \<le> HexDigitToInt c \<and> HexDigitToInt c < 16"
  by (auto simp: IsHexDigit_def HexDigitToInt_def)

end
