(* ===== verification/Base_Utf_Conversions.thy ===== *)
theory Base_Utf_Conversions
  imports Base_Icu_Utf Base_String_Ascii
begin

text \<open>
  The conversions between UTF-8, UTF-16 and wide strings of
  \<open>third_party/chromium/base/strings/utf_string_conversions.cc\<close> and the single-character functions of
  \<open>utf_string_conversion_utils.cc\<close>. \<open>DoUTFConversion\<close> is one loop for each source encoding, over
  \<open>int32_t\<close> indices; the destination is the list of the units written so far. A wide character is a
  32-bit word (\<open>WCHAR_T_IS_UTF32\<close>).
\<close>

section \<open>The conversion loops\<close>

definition kErrorCodePoint :: code_point where
  "kErrorCodePoint = 0xFFFD"

lemma CBU8_NEXT_progress: "i < fst (CBU8_NEXT s i len)"
  by (simp add: CBU8_NEXT_def utf8_nextCharSafeBody_def Let_def)

lemma CBU8_NEXT_measure: "(j, c) = CBU8_NEXT s i len \<Longrightarrow> i < j"
  using CBU8_NEXT_progress [of i s len] by (metis fst_conv)

function DoUTFConversion8 ::
  "(code_point \<Rightarrow> 'd list) \<Rightarrow> string \<Rightarrow> int \<Rightarrow> int \<Rightarrow> bool \<Rightarrow> 'd list \<Rightarrow> bool \<times> 'd list" where
  "DoUTFConversion8 app src src_len i success dest =
     (if i < src_len then
        (let (i', code_point) = CBU8_NEXT src i src_len in
         if \<not> IsValidCodepoint code_point
         then DoUTFConversion8 app src src_len i' False (dest @ app kErrorCodePoint)
         else DoUTFConversion8 app src src_len i' success (dest @ app code_point))
      else (success, dest))"
  by pat_completeness auto
termination
  by (relation "measure (\<lambda>(_, _, len, i, _). nat (len - i))")
    (auto dest: CBU8_NEXT_measure)

declare DoUTFConversion8.simps [simp del]

definition ConvertSingleChar :: "char16 \<Rightarrow> bool \<Rightarrow> bool \<times> code_point" where
  "ConvertSingleChar c success =
     (if \<not> CBU16_IS_SINGLE (ucast c) \<or> \<not> IsValidCodepoint (ucast c) then (False, kErrorCodePoint)
      else (success, ucast c))"

function DoUTFConversion16_loop ::
  "(code_point \<Rightarrow> 'd list) \<Rightarrow> string16 \<Rightarrow> int \<Rightarrow> int \<Rightarrow> bool \<Rightarrow> 'd list \<Rightarrow> int \<times> bool \<times> 'd list" where
  "DoUTFConversion16_loop app src src_len i success dest =
     (if i < src_len - 1 then
        (if CBU16_IS_LEAD (ucast (u16_at src i)) \<and> CBU16_IS_TRAIL (ucast (u16_at src (i + 1))) then
           (let code_point = CBU16_GET_SUPPLEMENTARY (ucast (u16_at src i)) (ucast (u16_at src (i + 1)));
                (success, code_point) =
                  (if \<not> IsValidCodepoint code_point then (False, kErrorCodePoint)
                   else (success, code_point))
            in DoUTFConversion16_loop app src src_len (i + 2) success (dest @ app code_point))
         else
           (let (success, code_point) = ConvertSingleChar (u16_at src i) success
            in DoUTFConversion16_loop app src src_len (i + 1) success (dest @ app code_point)))
      else (i, success, dest))"
  by pat_completeness auto
termination
  by (relation "measure (\<lambda>(_, _, len, i, _). nat (len - i))") auto

declare DoUTFConversion16_loop.simps [simp del]

definition DoUTFConversion16 ::
  "(code_point \<Rightarrow> 'd list) \<Rightarrow> string16 \<Rightarrow> int \<Rightarrow> bool \<times> 'd list" where
  "DoUTFConversion16 app src src_len =
     (let (i, success, dest) = DoUTFConversion16_loop app src src_len 0 True [] in
      if i < src_len then
        (let (success, code_point) = ConvertSingleChar (u16_at src i) success
         in (success, dest @ app code_point))
      else (success, dest))"

definition u32_at :: "32 word list \<Rightarrow> int \<Rightarrow> code_point" where
  "u32_at s i = (if 0 \<le> i \<and> nat i < length s then s ! nat i else 0)"

function DoUTFConversion32 ::
  "(code_point \<Rightarrow> 'd list) \<Rightarrow> 32 word list \<Rightarrow> int \<Rightarrow> int \<Rightarrow> bool \<Rightarrow> 'd list \<Rightarrow> bool \<times> 'd list" where
  "DoUTFConversion32 app src src_len i success dest =
     (if i < src_len then
        (let code_point = u32_at src i;
             (success, code_point) =
               (if \<not> IsValidCodepoint code_point then (False, kErrorCodePoint) else (success, code_point))
         in DoUTFConversion32 app src src_len (i + 1) success (dest @ app code_point))
      else (success, dest))"
  by pat_completeness auto
termination
  by (relation "measure (\<lambda>(_, _, len, i, _). nat (len - i))") auto

declare DoUTFConversion32.simps [simp del]

section \<open>The public functions\<close>

text \<open>\<open>static_cast<int32_t>(src_str.length())\<close>.\<close>

definition int32_of_size :: "nat \<Rightarrow> int" where
  "int32_of_size n = sint (word_of_nat n :: 32 word)"

lemma int32_of_size_small [simp]: "n < 2 ^ 31 \<Longrightarrow> int32_of_size n = int n"
  by (simp add: int32_of_size_def signed_of_nat signed_take_bit_int_eq_self_iff)

text \<open>
  \<open>UTFConversion\<close>: an ASCII source is copied unit by unit (\<open>assign\<close> is the conversion of one
  character type to the other), any other source goes through the loop.
\<close>

definition UTFConversion ::
  "('s list \<Rightarrow> bool) \<Rightarrow> ('s \<Rightarrow> 'd) \<Rightarrow> ('s list \<Rightarrow> int \<Rightarrow> bool \<times> 'd list) \<Rightarrow> 's list \<Rightarrow> bool \<times> 'd list" where
  "UTFConversion ascii_test assign conv src =
     (if ascii_test src then (True, map assign src) else conv src (int32_of_size (length src)))"

abbreviation append8 :: "code_point \<Rightarrow> string" where
  "append8 c \<equiv> map char_of_byte (CBU8_APPEND_UNSAFE c)"

abbreviation append32 :: "code_point \<Rightarrow> 32 word list" where
  "append32 c \<equiv> [c]"

abbreviation conv_from8 :: "(code_point \<Rightarrow> 'd list) \<Rightarrow> string \<Rightarrow> int \<Rightarrow> bool \<times> 'd list" where
  "conv_from8 app src len \<equiv> DoUTFConversion8 app src len 0 True []"

abbreviation conv_from32 :: "(code_point \<Rightarrow> 'd list) \<Rightarrow> 32 word list \<Rightarrow> int \<Rightarrow> bool \<times> 'd list" where
  "conv_from32 app src len \<equiv> DoUTFConversion32 app src len 0 True []"

abbreviation sext8 :: "char \<Rightarrow> 'n::len word" where
  "sext8 c \<equiv> scast (byte c)"

abbreviation trunc8 :: "'n::len word \<Rightarrow> char" where
  "trunc8 c \<equiv> char_of_byte (ucast c)"

definition UTF8ToUTF16_flag :: "string \<Rightarrow> bool \<times> string16" where
  "UTF8ToUTF16_flag = UTFConversion IsStringASCII sext8 (conv_from8 CBU16_APPEND_UNSAFE)"

definition UTF16ToUTF8_flag :: "string16 \<Rightarrow> bool \<times> string" where
  "UTF16ToUTF8_flag = UTFConversion IsStringASCII16 trunc8 (DoUTFConversion16 append8)"

definition UTF8ToWide_flag :: "string \<Rightarrow> bool \<times> 32 word list" where
  "UTF8ToWide_flag = UTFConversion IsStringASCII sext8 (conv_from8 append32)"

definition UTF16ToWide_flag :: "string16 \<Rightarrow> bool \<times> 32 word list" where
  "UTF16ToWide_flag = UTFConversion IsStringASCII16 ucast (DoUTFConversion16 append32)"

definition WideToUTF8_flag :: "32 word list \<Rightarrow> bool \<times> string" where
  "WideToUTF8_flag = UTFConversion IsStringASCII32 trunc8 (conv_from32 append8)"

definition WideToUTF16_flag :: "32 word list \<Rightarrow> bool \<times> string16" where
  "WideToUTF16_flag = UTFConversion IsStringASCII32 ucast (conv_from32 CBU16_APPEND_UNSAFE)"

text \<open>The versions that ignore the success flag.\<close>

definition UTF8ToUTF16 :: "string \<Rightarrow> string16" where "UTF8ToUTF16 s = snd (UTF8ToUTF16_flag s)"

definition UTF16ToUTF8 :: "string16 \<Rightarrow> string" where "UTF16ToUTF8 s = snd (UTF16ToUTF8_flag s)"

definition UTF8ToWide :: "string \<Rightarrow> 32 word list" where "UTF8ToWide s = snd (UTF8ToWide_flag s)"

definition UTF16ToWide :: "string16 \<Rightarrow> 32 word list" where "UTF16ToWide s = snd (UTF16ToWide_flag s)"

definition WideToUTF8 :: "32 word list \<Rightarrow> string" where "WideToUTF8 s = snd (WideToUTF8_flag s)"

definition WideToUTF16 :: "32 word list \<Rightarrow> string16" where "WideToUTF16 s = snd (WideToUTF16_flag s)"

text \<open>
  \<open>ASCIIToUTF16\<close> copies the characters, sign-extending each; its \<open>DCHECK\<close> ends a debug build when the
  argument is not ASCII (the first parameter says whether \<open>DCHECK\<close> is compiled in).
\<close>

definition ASCIIToUTF16_run :: "bool \<Rightarrow> string \<Rightarrow> string16 run" where
  "ASCIIToUTF16_run dcheck ascii =
     (if dcheck \<and> \<not> IsStringASCII ascii then Terminated else Ret (map sext8 ascii))"

definition ASCIIToUTF16 :: "string \<Rightarrow> string16" where
  "ASCIIToUTF16 ascii = map sext8 ascii"

definition UTF16ToASCII_run :: "bool \<Rightarrow> string16 \<Rightarrow> string run" where
  "UTF16ToASCII_run dcheck utf16 =
     (if dcheck \<and> \<not> IsStringASCII16 utf16 then Terminated else Ret (map trunc8 utf16))"

section \<open>Single characters\<close>

text \<open>The result is the new \<open>*char_index\<close>, the code point written (if one is) and the return value.\<close>

definition ReadUnicodeCharacter8 :: "string \<Rightarrow> int \<Rightarrow> int \<Rightarrow> int \<times> code_point option \<times> bool" where
  "ReadUnicodeCharacter8 src src_len char_index =
     (let (i, code_point) = CBU8_NEXT src char_index src_len
      in (i - 1, Some code_point, IsValidCodepoint code_point))"

definition ReadUnicodeCharacter16 :: "string16 \<Rightarrow> int \<Rightarrow> int \<Rightarrow> int \<times> code_point option \<times> bool" where
  "ReadUnicodeCharacter16 src src_len char_index =
     (let c = ucast (u16_at src char_index) in
      if CBU_IS_SURROGATE c then
        (if \<not> CBU_IS_SURROGATE_LEAD c \<or> char_index + 1 \<ge> src_len \<or>
            \<not> CBU16_IS_TRAIL (ucast (u16_at src (char_index + 1)))
         then (char_index, None, False)
         else
           (let code_point = CBU16_GET_SUPPLEMENTARY c (ucast (u16_at src (char_index + 1)))
            in (char_index + 1, Some code_point, IsValidCodepoint code_point)))
      else (char_index, Some c, IsValidCodepoint c))"

definition ReadUnicodeCharacter32 :: "32 word list \<Rightarrow> int \<Rightarrow> int \<Rightarrow> int \<times> code_point option \<times> bool" where
  "ReadUnicodeCharacter32 src src_len char_index =
     (char_index, Some (u32_at src char_index), IsValidCodepoint (u32_at src char_index))"

text \<open>The output string after the call, and the number of units written.\<close>

definition WriteUnicodeCharacter8 :: "code_point \<Rightarrow> string \<Rightarrow> string \<times> nat" where
  "WriteUnicodeCharacter8 code_point output =
     (if code_point \<le> 0x7f then (output @ [trunc8 code_point], 1)
      else
        let char_offset = length output + length (CBU8_APPEND_UNSAFE code_point)
        in (output @ append8 code_point, char_offset - length output))"

definition WriteUnicodeCharacter16 :: "code_point \<Rightarrow> string16 \<Rightarrow> string16 \<times> nat" where
  "WriteUnicodeCharacter16 code_point output =
     (if CBU16_LENGTH code_point = 1 then (output @ [ucast code_point], 1)
      else (output @ CBU16_APPEND_UNSAFE code_point, 2))"

section \<open>Decoding\<close>

text \<open>
  The reference: the code points of a source, read one after the other with \<open>next\<close>; what is not a
  valid code point counts as an error and is replaced.
\<close>

function utf_decode ::
  "('u list \<Rightarrow> int \<Rightarrow> int \<Rightarrow> int \<times> code_point) \<Rightarrow> 'u list \<Rightarrow> int \<Rightarrow> int \<Rightarrow> bool \<times> code_point list" where
  "utf_decode nxt src len i =
     (if i < len \<and> i < fst (nxt src i len) then
        (let c = snd (nxt src i len); (ok, cs) = utf_decode nxt src len (fst (nxt src i len))
         in (IsValidCodepoint c \<and> ok, (if IsValidCodepoint c then c else kErrorCodePoint) # cs))
      else (True, []))"
  by pat_completeness auto
termination
  by (relation "measure (\<lambda>(_, _, len, i). nat (len - i))") auto

declare utf_decode.simps [simp del]

lemma utf_decode_done: "\<not> i < len \<Longrightarrow> utf_decode nxt src len i = (True, [])"
  by (simp add: utf_decode.simps)

lemma utf_decode_step:
  "i < len \<Longrightarrow> nxt src i len = (j, c) \<Longrightarrow> i < j \<Longrightarrow>
     utf_decode nxt src len i =
       (let (ok, cs) = utf_decode nxt src len j
        in (IsValidCodepoint c \<and> ok, (if IsValidCodepoint c then c else kErrorCodePoint) # cs))"
  by (simp add: utf_decode.simps [of nxt src len i])

lemma kErrorCodePoint_valid [simp]: "IsValidCodepoint kErrorCodePoint"
  by (simp add: IsValidCodepoint_def kErrorCodePoint_def)

definition units_at :: "'u list \<Rightarrow> int \<Rightarrow> 'u list \<Rightarrow> bool" where
  "units_at src i u \<longleftrightarrow> take (length u) (drop (nat i) src) = u"

text \<open>
  What a reader of one code point has to provide: it accepts every encoded valid code point, what it
  accepts is an encoding, and it always moves on without passing the end.
\<close>

locale utf_source =
  fixes enc :: "code_point \<Rightarrow> 'u list"
    and nxt :: "'u list \<Rightarrow> int \<Rightarrow> int \<Rightarrow> int \<times> code_point"
  assumes enc_nonempty: "IsValidCodepoint c \<Longrightarrow> enc c \<noteq> []"
    and nxt_complete: "IsValidCodepoint c \<Longrightarrow> 0 \<le> i \<Longrightarrow> units_at src i (enc c) \<Longrightarrow>
      i + int (length (enc c)) \<le> len \<Longrightarrow> len \<le> int (length src) \<Longrightarrow>
      nxt src i len = (i + int (length (enc c)), c)"
    and nxt_sound: "0 \<le> i \<Longrightarrow> i < len \<Longrightarrow> len \<le> int (length src) \<Longrightarrow> nxt src i len = (j, c) \<Longrightarrow>
      i < j \<and> j \<le> len \<and>
      (IsValidCodepoint c \<longrightarrow> units_at src i (enc c) \<and> j = i + int (length (enc c)))"
begin

lemma decode_complete:
  assumes "\<forall>c \<in> set cs. IsValidCodepoint c"
  shows "utf_decode nxt (pre @ concat (map enc cs)) (int (length (pre @ concat (map enc cs)))) (int (length pre))
    = (True, cs)"
  using assms
proof (induction cs arbitrary: pre)
  case Nil
  then show ?case by (simp add: utf_decode.simps)
next
  case (Cons c cs)
  let ?src = "pre @ concat (map enc (c # cs))"
  from Cons.prems have "nxt ?src (int (length pre)) (int (length ?src)) = (int (length pre) + int (length (enc c)), c)"
    by (intro nxt_complete) (auto simp: units_at_def)
  moreover have "0 < length (enc c)" using Cons.prems enc_nonempty by simp
  ultimately have "utf_decode nxt ?src (int (length ?src)) (int (length pre)) =
      (let (ok, cs) = utf_decode nxt ?src (int (length ?src)) (int (length pre) + int (length (enc c)))
       in (IsValidCodepoint c \<and> ok, (if IsValidCodepoint c then c else kErrorCodePoint) # cs))"
    by (intro utf_decode_step) (simp_all add: add_pos_nonneg)
  then show ?case
    using Cons.IH [of "pre @ enc c"] Cons.prems by simp
qed

lemma decode_sound:
  "0 \<le> i \<Longrightarrow> i \<le> len \<Longrightarrow> len \<le> int (length src) \<Longrightarrow> utf_decode nxt src len i = (ok, cs) \<Longrightarrow>
     (\<forall>c \<in> set cs. IsValidCodepoint c) \<and>
     (ok \<longrightarrow> take (nat (len - i)) (drop (nat i) src) = concat (map enc cs))"
proof (induction "nat (len - i)" arbitrary: i ok cs rule: less_induct)
  case less
  show ?case
  proof (cases "i < len")
    case False
    with less.prems show ?thesis by (simp add: utf_decode_done)
  next
    case True
    obtain j c where n: "nxt src i len = (j, c)" by fastforce
    with less.prems True
    have j: "i < j" "j \<le> len" and
      c: "IsValidCodepoint c \<Longrightarrow> units_at src i (enc c) \<and> j = i + int (length (enc c))"
      using nxt_sound [of i len src j c] by auto
    obtain ok' cs' where d: "utf_decode nxt src len j = (ok', cs')" by fastforce
    have IH: "(\<forall>c \<in> set cs'. IsValidCodepoint c) \<and>
        (ok' \<longrightarrow> take (nat (len - j)) (drop (nat j) src) = concat (map enc cs'))"
      using less.hyps [of j ok' cs'] less.prems True j d by auto
    from utf_decode_step [of i len nxt src j c, OF True n j(1)] d less.prems(4)
    have ok: "ok = (IsValidCodepoint c \<and> ok')" and cs: "cs = (if IsValidCodepoint c then c else kErrorCodePoint) # cs'"
      by auto
    show ?thesis
    proof (intro conjI impI)
      show "\<forall>c \<in> set cs. IsValidCodepoint c" using IH cs by auto
      assume ok
      with ok c have u: "take (length (enc c)) (drop (nat i) src) = enc c" "j = i + int (length (enc c))"
        by (auto simp: units_at_def)
      have "nat (len - i) = length (enc c) + nat (len - j)" "nat j = length (enc c) + nat i"
        using u(2) j less.prems(1) by auto
      then show "take (nat (len - i)) (drop (nat i) src) = concat (map enc cs)"
        using u(1) IH \<open>ok\<close> ok cs by (simp add: take_add)
    qed
  qed
qed

end

text \<open>
  A conversion adds the writer of one code point, the unit-by-unit copy of ASCII text, the loop that
  refines the reference, and the bound on the room a source unit needs in the destination.
\<close>

locale utf_conversion = utf_source enc nxt
  for enc :: "code_point \<Rightarrow> 's list" and nxt :: "'s list \<Rightarrow> int \<Rightarrow> int \<Rightarrow> int \<times> code_point" +
  fixes app :: "code_point \<Rightarrow> 'd list" and ascii_test :: "'s list \<Rightarrow> bool"
    and ascii :: "'s \<Rightarrow> bool" and assign :: "'s \<Rightarrow> 'd"
    and conv :: "'s list \<Rightarrow> int \<Rightarrow> bool \<times> 'd list" and coefficient :: nat
  assumes ascii_test_all: "ascii_test src \<longleftrightarrow> list_all ascii src"
    and ascii_unit: "ascii u \<Longrightarrow> \<exists>c. IsValidCodepoint c \<and> enc c = [u] \<and> app c = [assign u]"
    and conv_decode: "0 \<le> len \<Longrightarrow> len \<le> int (length src) \<Longrightarrow>
      conv src len = (let (ok, cs) = utf_decode nxt src len 0 in (ok, concat (map app cs)))"
    and app_bound: "IsValidCodepoint c \<Longrightarrow> length (app c) \<le> coefficient * length (enc c)"
    and app_error_bound: "length (app kErrorCodePoint) \<le> coefficient"
begin

lemma ascii_points:
  "list_all ascii src \<Longrightarrow>
     \<exists>cs. (\<forall>c \<in> set cs. IsValidCodepoint c) \<and> concat (map enc cs) = src \<and> concat (map app cs) = map assign src"
proof (induction src)
  case (Cons u us)
  then obtain cs where cs: "\<forall>c \<in> set cs. IsValidCodepoint c" "concat (map enc cs) = us"
    "concat (map app cs) = map assign us" by auto
  from Cons.prems ascii_unit obtain c where "IsValidCodepoint c" "enc c = [u]" "app c = [assign u]"
    by auto
  with cs show ?case by (intro exI [of _ "c # cs"]) auto
qed (auto intro: exI [of _ "[]"])

lemma decode_whole:
  "\<forall>c \<in> set cs. IsValidCodepoint c \<Longrightarrow>
     utf_decode nxt (concat (map enc cs)) (int (length (concat (map enc cs)))) 0 = (True, cs)"
  using decode_complete [of cs "[]"] by simp

lemma conversion_decode:
  assumes "length src < 2 ^ 31"
  shows "UTFConversion ascii_test assign conv src =
    (let (ok, cs) = utf_decode nxt src (int (length src)) 0 in (ok, concat (map app cs)))"
proof (cases "ascii_test src")
  case True
  then obtain cs where "\<forall>c \<in> set cs. IsValidCodepoint c" "concat (map enc cs) = src"
    "concat (map app cs) = map assign src"
    using ascii_points ascii_test_all by blast
  with decode_whole [of cs] True show ?thesis by (simp add: UTFConversion_def)
next
  case False
  with assms conv_decode [of "int (length src)" src] show ?thesis by (simp add: UTFConversion_def)
qed

lemma conversion_complete:
  assumes "\<forall>c \<in> set cs. IsValidCodepoint c" "length (concat (map enc cs)) < 2 ^ 31"
  shows "UTFConversion ascii_test assign conv (concat (map enc cs)) = (True, concat (map app cs))"
  using conversion_decode [OF assms(2)] decode_whole [OF assms(1)] by simp

lemma conversion_sound:
  assumes "length src < 2 ^ 31" "UTFConversion ascii_test assign conv src = (ok, dest)"
  shows "\<exists>cs. (\<forall>c \<in> set cs. IsValidCodepoint c) \<and> dest = concat (map app cs) \<and>
    (ok \<longleftrightarrow> src = concat (map enc cs))"
proof -
  obtain ok' cs where d: "utf_decode nxt src (int (length src)) 0 = (ok', cs)" by fastforce
  with conversion_decode [OF assms(1)] assms(2) have "ok = ok'" "dest = concat (map app cs)" by auto
  moreover from decode_sound [OF _ _ _ d]
  have "\<forall>c \<in> set cs. IsValidCodepoint c" "ok' \<Longrightarrow> src = concat (map enc cs)" by auto
  moreover from this(1) decode_whole [of cs] d have "src = concat (map enc cs) \<Longrightarrow> ok'" by auto
  ultimately show ?thesis by blast
qed

lemma decode_bound:
  "0 \<le> i \<Longrightarrow> i \<le> len \<Longrightarrow> len \<le> int (length src) \<Longrightarrow>
     int (length (concat (map app (snd (utf_decode nxt src len i))))) \<le> int coefficient * (len - i)"
proof (induction "nat (len - i)" arbitrary: i rule: less_induct)
  case less
  show ?case
  proof (cases "i < len")
    case False
    with less.prems show ?thesis by (simp add: utf_decode_done)
  next
    case True
    obtain j c where n: "nxt src i len = (j, c)" by fastforce
    with less.prems True
    have j: "i < j" "j \<le> len" and
      c: "IsValidCodepoint c \<Longrightarrow> units_at src i (enc c) \<and> j = i + int (length (enc c))"
      using nxt_sound [of i len src j c] by auto
    have IH: "int (length (concat (map app (snd (utf_decode nxt src len j))))) \<le> int coefficient * (len - j)"
      using less.hyps [of j] less.prems True j by simp
    have "int (length (app (if IsValidCodepoint c then c else kErrorCodePoint))) \<le> int coefficient * (j - i)"
    proof (cases "IsValidCodepoint c")
      case True
      then have "int (length (app c)) \<le> int coefficient * int (length (enc c))"
        using app_bound [OF True] by (metis of_nat_le_iff of_nat_mult)
      with c [OF True] True show ?thesis by simp
    next
      case False
      have "int coefficient * 1 \<le> int coefficient * (j - i)" using j(1) by (intro mult_left_mono) auto
      with app_error_bound False show ?thesis by simp
    qed
    moreover have "int coefficient * (j - i) + int coefficient * (len - j) = int coefficient * (len - i)"
      by (simp add: algebra_simps)
    moreover have "snd (utf_decode nxt src len i) =
        (if IsValidCodepoint c then c else kErrorCodePoint) # snd (utf_decode nxt src len j)"
      unfolding utf_decode_step [of i len nxt src j c, OF True n j(1)]
      by (simp add: case_prod_beta)
    ultimately show ?thesis using IH by (simp only: list.map concat.simps length_append of_nat_add)
  qed
qed

lemma conversion_bound:
  assumes "length src < 2 ^ 31"
  shows "length (snd (UTFConversion ascii_test assign conv src)) \<le> coefficient * length src"
  using decode_bound [of 0 "int (length src)" src] conversion_decode [OF assms]
  by (simp add: case_prod_beta Let_def flip: of_nat_mult)

end

section \<open>UTF-8 as a source\<close>

lemma units_at_iff:
  "0 \<le> i \<Longrightarrow> nat i + length u \<le> length s \<Longrightarrow>
     units_at s i u \<longleftrightarrow> (\<forall>k < length u. s ! (nat i + k) = u ! k)"
  by (auto simp: units_at_def list_eq_iff_nth_eq)

lemma units_at_length: "units_at s i u \<Longrightarrow> u \<noteq> [] \<Longrightarrow> nat i + length u \<le> length s"
  unfolding units_at_def by (metis add.commute diff_is_0_eq drop_all length_drop length_take le_diff_conv2
      linear min.absorb_iff2 min.commute take_Nil)

lemma encoded_at_units:
  assumes "0 \<le> i" "nat i + length (append8 c) \<le> length s"
  shows "encoded_at s i c \<longleftrightarrow> units_at s i (append8 c)"
proof -
  have "u8_at s (i + int k) = byte (s ! (nat i + k))" if "k < length (CBU8_APPEND_UNSAFE c)" for k
    using that assms by (simp add: u8_at_def nat_add_distrib)
  moreover have "byte a = b \<longleftrightarrow> a = char_of_byte b" for a b by auto
  ultimately show ?thesis using units_at_iff [OF assms] by (simp add: encoded_at_def)
qed

lemma append8_length: "length (append8 c) > 0"
  by (simp add: length_append8)

interpretation utf8: utf_source append8 CBU8_NEXT
proof
  fix c :: code_point and i len j :: int and src :: string
  show "append8 c \<noteq> []" if "IsValidCodepoint c" using append8_length [of c] by auto
  {
    assume "IsValidCodepoint c" "0 \<le> i" "units_at src i (append8 c)"
      "i + int (length (append8 c)) \<le> len" "len \<le> int (length src)"
    then show "CBU8_NEXT src i len = (i + int (length (append8 c)), c)"
      using CBU8_NEXT_complete [of c src i len] encoded_at_units [of i c src] by simp
  }
  assume A: "0 \<le> i" "i < len" "len \<le> int (length src)" "CBU8_NEXT src i len = (j, c)"
  have inv: "\<not> IsValidCodepoint CBU_SENTINEL"
    by code_simp
  from CBU8_NEXT_sound [OF A(1,2,4)] A inv
  show "i < j \<and> j \<le> len \<and> (IsValidCodepoint c \<longrightarrow> units_at src i (append8 c) \<and> j = i + int (length (append8 c)))"
    using encoded_at_units [of i c src] by auto
qed

section \<open>UTF-16 as a source\<close>

lemma valid_iff: "IsValidCodepoint c \<longleftrightarrow> unat c < 0xD800 \<or> 0xE000 \<le> unat c \<and> unat c \<le> 0x10FFFF"
  by (simp add: valid_nat valid_nat_def)

lemma unat_unit [simp]: "unat (ucast (u :: char16) :: code_point) = unat u"
  by (simp add: unat_ucast16)

lemma u16_at_in: "0 \<le> i \<Longrightarrow> nat i < length s \<Longrightarrow> u16_at s i = s ! nat i"
  by (simp add: u16_at_def)

lemma CBU16_NEXT_cases:
  "CBU16_NEXT s i len =
     (if 0xD800 \<le> unat (u16_at s i) \<and> unat (u16_at s i) < 0xDC00 \<and> i + 1 \<noteq> len
         \<and> 0xDC00 \<le> unat (u16_at s (i + 1)) \<and> unat (u16_at s (i + 1)) < 0xE000
      then (i + 2, of_nat (0x10000 + (unat (u16_at s i) - 0xD800) * 1024 + (unat (u16_at s (i + 1)) - 0xDC00)))
      else (i + 1, ucast (u16_at s i)))"
  by (auto simp: CBU16_NEXT_def CBU16_IS_LEAD_iff CBU16_IS_TRAIL_iff Let_def CBU16_GET_SUPPLEMENTARY_value
      simp del: of_nat_add of_nat_mult)

lemma append16_surrogates:
  assumes "0xD800 \<le> a" "a < 0xDC00" "0xDC00 \<le> b" "b < 0xE000"
  shows "CBU16_APPEND_UNSAFE (of_nat (0x10000 + (a - 0xD800) * 1024 + (b - 0xDC00))) = [of_nat a, of_nat b]"
    and "IsValidCodepoint (of_nat (0x10000 + (a - 0xD800) * 1024 + (b - 0xDC00)))"
proof -
  let ?n = "0x10000 + (a - 0xD800) * 1024 + (b - 0xDC00)"
  have n: "?n \<le> 0x10FFFF" using assms by simp
  then have u: "unat (of_nat ?n :: code_point) = ?n" by (rule unat_of_nat_code_point)
  have "(y + x * 1024) div 1024 = x \<and> (y + x * 1024) mod 1024 = y" if "y < 1024" for x y :: nat
    using that by simp
  from this [of "b - 0xDC00" "64 + (a - 0xD800)"] assms(3,4)
  have d: "?n div 1024 = 64 + (a - 0xD800)" "?n mod 1024 = b - 0xDC00"
    by (simp_all add: algebra_simps)
  have eqs: "0xD7C0 + ?n div 1024 = a" "0xDC00 + ?n mod 1024 = b" unfolding d using assms by simp_all
  have "65536 \<le> unat (of_nat ?n :: code_point)" "unat (of_nat ?n :: code_point) \<le> 0x10FFFF"
    unfolding u using n by simp_all
  from append16_big [OF this] show "CBU16_APPEND_UNSAFE (of_nat ?n) = [of_nat a, of_nat b]"
    by (simp only: u eqs)
  show "IsValidCodepoint (of_nat ?n)" unfolding valid_iff u using n by simp
qed

lemma append16_unit: "unat c < 65536 \<Longrightarrow> CBU16_APPEND_UNSAFE c = [ucast c]"
  by (simp add: CBU16_APPEND_UNSAFE_def word_le_nat_alt)

lemma CBU16_NEXT_complete:
  assumes v: "IsValidCodepoint c" and i: "0 \<le> i" and u: "units_at src i (CBU16_APPEND_UNSAFE c)"
    and len: "i + int (length (CBU16_APPEND_UNSAFE c)) \<le> len" "len \<le> int (length src)"
  shows "CBU16_NEXT src i len = (i + int (length (CBU16_APPEND_UNSAFE c)), c)"
proof -
  have fits: "nat i + length (CBU16_APPEND_UNSAFE c) \<le> length src" using i len by linarith
  note at = u [unfolded units_at_iff [OF i fits]]
  show ?thesis
  proof (cases "unat c < 65536")
    case True
    then have "u16_at src i = ucast c"
      using at fits i by (simp add: append16_unit u16_at_def)
    moreover have "unat (ucast c :: char16) = unat c" using True by (simp add: unat_ucast_eq)
    moreover from this have "ucast (ucast c :: char16) = c" by (simp add: word_unat_eq_iff)
    ultimately show ?thesis
      using v True by (auto simp: CBU16_NEXT_cases append16_unit valid_iff)
  next
    case False
    let ?n = "unat c"
    have n: "?n \<le> 0x10FFFF" "65536 \<le> ?n" using v False by (auto simp: valid_iff)
    have ap: "CBU16_APPEND_UNSAFE c = [of_nat (0xD7C0 + ?n div 1024), of_nat (0xDC00 + ?n mod 1024)]"
      by (rule append16_big [OF n(2) n(1)])
    have d: "?n div 1024 \<le> 1087" "64 \<le> ?n div 1024" using n div_le_mono [of _ _ 1024] by fastforce+
    have lead: "unat (of_nat (0xD7C0 + ?n div 1024) :: char16) = 0xD7C0 + ?n div 1024"
      using d by (simp only: unat_of_nat) simp
    have trail: "unat (of_nat (0xDC00 + ?n mod 1024) :: char16) = 0xDC00 + ?n mod 1024"
      by (simp only: unat_of_nat) simp
    have a0: "u16_at src i = of_nat (0xD7C0 + ?n div 1024)"
      and a1: "u16_at src (i + 1) = of_nat (0xDC00 + ?n mod 1024)"
      using at fits i unfolding ap by (auto simp: u16_at_def nat_add_distrib less_Suc_eq all_conj_distrib simp del: of_nat_add)
    have "0x10000 + (0xD7C0 + ?n div 1024 - 0xD800) * 1024 + (0xDC00 + ?n mod 1024 - 0xDC00) = ?n"
      using d div_mult_mod_eq [of ?n 1024] by (simp add: diff_mult_distrib)
    moreover have "?n mod 1024 < 1024" by simp
    moreover have "i + 1 \<noteq> len" using len ap by simp
    ultimately show ?thesis
      using d unfolding CBU16_NEXT_cases a0 a1 lead trail ap by simp
  qed
qed

lemma CBU16_NEXT_sound:
  assumes A: "0 \<le> i" "i < len" "len \<le> int (length src)" "CBU16_NEXT src i len = (j, c)"
  shows "i < j \<and> j \<le> len \<and> (IsValidCodepoint c \<longrightarrow>
      units_at src i (CBU16_APPEND_UNSAFE c) \<and> j = i + int (length (CBU16_APPEND_UNSAFE c)))"
proof (cases "0xD800 \<le> unat (u16_at src i) \<and> unat (u16_at src i) < 0xDC00 \<and> i + 1 \<noteq> len
    \<and> 0xDC00 \<le> unat (u16_at src (i + 1)) \<and> unat (u16_at src (i + 1)) < 0xE000")
  case True
  with A(4) have j: "j = i + 2" and c: "c = of_nat (0x10000 + (unat (u16_at src i) - 0xD800) * 1024
      + (unat (u16_at src (i + 1)) - 0xDC00))"
    by (auto simp: CBU16_NEXT_cases simp del: of_nat_add of_nat_mult)
  have ap: "CBU16_APPEND_UNSAFE c = [u16_at src i, u16_at src (i + 1)]"
    unfolding c using True by (subst append16_surrogates(1)) simp_all
  have le: "i + 2 \<le> len" using True A(2) by linarith
  then have fits: "nat i + length [u16_at src i, u16_at src (i + 1)] \<le> length src"
    using A(1,3) by simp
  have "units_at src i [u16_at src i, u16_at src (i + 1)]"
    unfolding units_at_iff [OF A(1) fits]
    using fits A(1) by (auto simp: u16_at_def nat_add_distrib less_Suc_eq)
  with le j ap show ?thesis by simp
next
  case False
  with A(4) have j: "j = i + 1" and c: "c = ucast (u16_at src i)"
    by (auto simp: CBU16_NEXT_cases split: if_splits)
  have "unat c < 2 ^ LENGTH(16)" unfolding c unat_unit by (rule unsigned_less)
  moreover from this have "(ucast c :: char16) = u16_at src i"
    unfolding c by (simp add: word_unat_eq_iff unat_ucast_eq)
  ultimately have ap: "CBU16_APPEND_UNSAFE c = [u16_at src i]"
    by (simp add: append16_unit)
  have fits: "nat i + length [u16_at src i] \<le> length src" using A(1-3) by simp
  have "units_at src i [u16_at src i]"
    unfolding units_at_iff [OF A(1) fits] using fits A(1) by (simp add: u16_at_def)
  with A(2) j ap show ?thesis by simp
qed

interpretation utf16: utf_source CBU16_APPEND_UNSAFE CBU16_NEXT
  by unfold_locales (simp add: CBU16_APPEND_UNSAFE_def, rule CBU16_NEXT_complete, assumption+, rule CBU16_NEXT_sound, assumption+)

section \<open>Wide characters as a source\<close>

definition wide_next :: "32 word list \<Rightarrow> int \<Rightarrow> int \<Rightarrow> int \<times> code_point" where
  "wide_next src i len = (i + 1, u32_at src i)"

interpretation utf32: utf_source append32 wide_next
proof
  fix c :: code_point and i len j :: int and src :: "32 word list"
  show "append32 c \<noteq> []" by simp
  {
    assume "IsValidCodepoint c" "0 \<le> i" "units_at src i (append32 c)"
      "i + int (length (append32 c)) \<le> len" "len \<le> int (length src)"
    moreover from this have "nat i < length src" by simp
    ultimately show "wide_next src i len = (i + int (length (append32 c)), c)"
      using units_at_iff [of i "append32 c" src] by (simp add: wide_next_def u32_at_def)
  }
  assume "0 \<le> i" "i < len" "len \<le> int (length src)" "wide_next src i len = (j, c)"
  then show "i < j \<and> j \<le> len \<and>
      (IsValidCodepoint c \<longrightarrow> units_at src i (append32 c) \<and> j = i + int (length (append32 c)))"
    using units_at_iff [of i "append32 c" src] by (auto simp: wide_next_def u32_at_def)
qed

section \<open>The loops refine the reference\<close>

lemma DoUTFConversion8_decode:
  "DoUTFConversion8 app src len i success dest =
     (success \<and> fst (utf_decode CBU8_NEXT src len i), dest @ concat (map app (snd (utf_decode CBU8_NEXT src len i))))"
proof (induction app src len i success dest rule: DoUTFConversion8.induct)
  case (1 app src len i success dest)
  show ?case
  proof (cases "i < len")
    case True
    obtain j c where n: "CBU8_NEXT src i len = (j, c)" by fastforce
    then have "i < j" using CBU8_NEXT_measure [of j c src i len] by simp
    note step = utf_decode_step [where nxt = CBU8_NEXT, OF True n this]
    show ?thesis
      using "1.IH" True n
      by (subst DoUTFConversion8.simps) (simp add: step case_prod_beta)
  next
    case False
    then show ?thesis by (simp add: DoUTFConversion8.simps utf_decode_done)
  qed
qed

lemma DoUTFConversion32_decode:
  "DoUTFConversion32 app src len i success dest =
     (success \<and> fst (utf_decode wide_next src len i), dest @ concat (map app (snd (utf_decode wide_next src len i))))"
proof (induction app src len i success dest rule: DoUTFConversion32.induct)
  case (1 app src len i success dest)
  show ?case
  proof (cases "i < len")
    case True
    have n: "wide_next src i len = (i + 1, u32_at src i)" by (simp add: wide_next_def)
    have "i < i + 1" by simp
    note step = utf_decode_step [where nxt = wide_next, OF True n this]
    show ?thesis
      using "1.IH" True
      by (subst DoUTFConversion32.simps) (simp add: step case_prod_beta)
  next
    case False
    then show ?thesis by (simp add: DoUTFConversion32.simps utf_decode_done)
  qed
qed

text \<open>The UTF-16 loop stops one unit before the end and converts that unit separately.\<close>

definition utf16_finish ::
  "(code_point \<Rightarrow> 'd list) \<Rightarrow> string16 \<Rightarrow> int \<Rightarrow> int \<times> bool \<times> 'd list \<Rightarrow> bool \<times> 'd list" where
  "utf16_finish app src src_len = (\<lambda>(i, success, dest).
     if i < src_len then
       (let (success, code_point) = ConvertSingleChar (u16_at src i) success
        in (success, dest @ app code_point))
     else (success, dest))"

lemma ConvertSingleChar_next:
  assumes "CBU16_NEXT src i len = (i + 1, c)" "0 \<le> i"
  shows "ConvertSingleChar (u16_at src i) success =
    (success \<and> IsValidCodepoint c, if IsValidCodepoint c then c else kErrorCodePoint)"
proof -
  from assms have "c = ucast (u16_at src i)" by (auto simp: CBU16_NEXT_cases split: if_splits)
  then show ?thesis
    by (auto simp: ConvertSingleChar_def CBU16_IS_SINGLE_def CBU_IS_SURROGATE_iff valid_iff)
qed

lemma DoUTFConversion16_loop_decode:
  assumes "0 \<le> i" "i \<le> len"
  shows "utf16_finish app src len (DoUTFConversion16_loop app src len i success dest) =
     (success \<and> fst (utf_decode CBU16_NEXT src len i), dest @ concat (map app (snd (utf_decode CBU16_NEXT src len i))))"
  using assms
proof (induction app src len i success dest rule: DoUTFConversion16_loop.induct)
  case (1 app src len i success dest)
  let ?pair = "CBU16_IS_LEAD (ucast (u16_at src i)) \<and> CBU16_IS_TRAIL (ucast (u16_at src (i + 1)))"
  consider (pair) "i < len - 1" ?pair | (unit) "i < len - 1" "\<not> ?pair" | (last) "i = len - 1" | (stop) "i = len"
    using "1.prems" by linarith
  then show ?case
  proof cases
    case pair
    let ?c = "CBU16_GET_SUPPLEMENTARY (ucast (u16_at src i)) (ucast (u16_at src (i + 1)))"
    have n: "CBU16_NEXT src i len = (i + 2, ?c)" using pair by (simp add: CBU16_NEXT_def)
    have "i < len" "i < i + 2" using pair by auto
    note step = utf_decode_step [where nxt = CBU16_NEXT, OF this(1) n this(2)]
    show ?thesis
      using "1.IH"(1) [OF pair] pair "1.prems"
      by (subst DoUTFConversion16_loop.simps) (simp add: step case_prod_beta)
  next
    case unit
    let ?c = "ucast (u16_at src i) :: code_point"
    have n: "CBU16_NEXT src i len = (i + 1, ?c)" using unit by (auto simp: CBU16_NEXT_def Let_def)
    have "i < len" "i < i + 1" using unit by auto
    note step = utf_decode_step [where nxt = CBU16_NEXT, OF this(1) n this(2)]
    have eq: "DoUTFConversion16_loop app src len i success dest =
        DoUTFConversion16_loop app src len (i + 1)
          (fst (ConvertSingleChar (u16_at src i) success)) (dest @ app (snd (ConvertSingleChar (u16_at src i) success)))"
      by (subst DoUTFConversion16_loop.simps) (simp only: unit if_True if_False case_prod_beta Let_def)
    show ?thesis
      using "1.IH"(2) [OF unit] "1.prems" unit(1)
      unfolding eq ConvertSingleChar_next [OF n "1.prems"(1)] step
      by (simp add: case_prod_beta)
  next
    case last
    let ?c = "ucast (u16_at src i) :: code_point"
    have n: "CBU16_NEXT src i len = (i + 1, ?c)" using last by (simp add: CBU16_NEXT_def Let_def)
    have "i < len" "i < i + 1" using last by auto
    note step = utf_decode_step [where nxt = CBU16_NEXT, OF this(1) n this(2)]
    have dec: "utf_decode CBU16_NEXT src len (i + 1) = (True, [])"
      using last by (simp add: utf_decode_done)
    have eq: "DoUTFConversion16_loop app src len i success dest = (i, success, dest)"
      using last by (subst DoUTFConversion16_loop.simps) simp
    show ?thesis
      using \<open>i < len\<close>
      unfolding eq utf16_finish_def prod.case step dec ConvertSingleChar_next [OF n "1.prems"(1)]
      by simp
  next
    case stop
    then show ?thesis by (simp add: DoUTFConversion16_loop.simps utf16_finish_def utf_decode_done)
  qed
qed

lemma DoUTFConversion16_finish:
  "DoUTFConversion16 app src len = utf16_finish app src len (DoUTFConversion16_loop app src len 0 True [])"
  by (simp add: DoUTFConversion16_def utf16_finish_def)

lemma DoUTFConversion16_decode:
  "0 \<le> len \<Longrightarrow> DoUTFConversion16 app src len =
     (fst (utf_decode CBU16_NEXT src len 0), concat (map app (snd (utf_decode CBU16_NEXT src len 0))))"
  by (simp add: DoUTFConversion16_finish DoUTFConversion16_loop_decode)

section \<open>The six conversions\<close>

lemma append8_unit: "unat c < 128 \<Longrightarrow> append8 c = [trunc8 c]"
  by (simp add: CBU8_APPEND_UNSAFE_def word_le_nat_alt)

lemma length_append16: "length (CBU16_APPEND_UNSAFE c) = (if unat c < 65536 then 1 else 2)"
  by (auto simp: CBU16_APPEND_UNSAFE_def word_le_nat_alt)

lemma kErrorCodePoint_value: "unat kErrorCodePoint = 0xFFFD"
  by (simp add: kErrorCodePoint_def)

lemma unat_code_point: "unat (of_nat n :: code_point) = n" if "n < 128"
  using that by (simp add: unat_of_nat)

lemma trunc8_ascii: "char_code a < 128 \<Longrightarrow> trunc8 (of_nat (char_code a) :: code_point) = a"
proof -
  assume a: "char_code a < 128"
  have "(ucast (of_nat (char_code a) :: code_point) :: 8 word) = byte a"
    using a by (simp add: word_unat_eq_iff unat_ucast_eq unat_code_point)
  then show ?thesis by simp
qed

lemma sext8_ascii: "char_code a < 128 \<Longrightarrow> (sext8 a :: 'n::len word) = of_nat (char_code a)"
proof -
  assume "char_code a < 128"
  then have "sint (byte a) = int (char_code a)" by (simp add: sint_byte)
  then show ?thesis by (metis of_int_of_nat_eq of_int_sint)
qed

interpretation utf8_to_16: utf_conversion append8 CBU8_NEXT CBU16_APPEND_UNSAFE IsStringASCII is_ascii8
  sext8 "conv_from8 CBU16_APPEND_UNSAFE" 1
proof
  fix src :: string and u :: char and len :: int and c :: code_point
  show "IsStringASCII src \<longleftrightarrow> list_all is_ascii8 src" by (rule IsStringASCII_at_iff)
  show "conv_from8 CBU16_APPEND_UNSAFE src len = (let (ok, cs) = utf_decode CBU8_NEXT src len 0
      in (ok, concat (map CBU16_APPEND_UNSAFE cs)))"
    by (simp add: DoUTFConversion8_decode case_prod_beta)
  show "length (CBU16_APPEND_UNSAFE c) \<le> 1 * length (append8 c)"
    by (simp add: length_append16 length_append8)
  show "length (CBU16_APPEND_UNSAFE kErrorCodePoint) \<le> 1"
    by (simp add: length_append16 kErrorCodePoint_value)
  assume u: "is_ascii8 u"
  let ?c = "of_nat (char_code u) :: code_point"
  have "unat ?c = char_code u" using u by (rule unat_code_point)
  then show "\<exists>c. IsValidCodepoint c \<and> append8 c = [u] \<and> CBU16_APPEND_UNSAFE c = [sext8 u]"
    using u by (intro exI [of _ ?c]) (simp add: valid_iff append8_unit append16_small sext8_ascii trunc8_ascii)
qed

interpretation utf8_to_32: utf_conversion append8 CBU8_NEXT append32 IsStringASCII is_ascii8
  sext8 "conv_from8 append32" 1
proof
  fix src :: string and u :: char and len :: int and c :: code_point
  show "IsStringASCII src \<longleftrightarrow> list_all is_ascii8 src" by (rule IsStringASCII_at_iff)
  show "conv_from8 append32 src len = (let (ok, cs) = utf_decode CBU8_NEXT src len 0
      in (ok, concat (map append32 cs)))"
    by (simp add: DoUTFConversion8_decode case_prod_beta)
  show "length (append32 c) \<le> 1 * length (append8 c)"
    by (simp add: length_append8)
  assume u: "is_ascii8 u"
  let ?c = "of_nat (char_code u) :: code_point"
  have "unat ?c = char_code u" using u by (rule unat_code_point)
  then show "\<exists>c. IsValidCodepoint c \<and> append8 c = [u] \<and> append32 c = [sext8 u]"
    using u by (intro exI [of _ ?c]) (simp add: valid_iff append8_unit sext8_ascii trunc8_ascii)
qed simp

lemma ucast16_point: "unat u < 65536 \<Longrightarrow> (ucast (ucast (u :: char16) :: code_point) :: char16) = u"
  by (simp add: word_unat_eq_iff unat_ucast_eq)

lemma unat_char16: "unat (u :: char16) < 65536"
proof -
  have "unat u < 2 ^ LENGTH(16)" by (rule unsigned_less)
  then show ?thesis by simp
qed

lemma append16_ascii: "is_ascii (u :: char16) \<Longrightarrow> CBU16_APPEND_UNSAFE (ucast u) = [u]"
  using unat_char16 [of u] by (simp add: append16_unit ucast16_point)

lemma trunc8_ascii16: "is_ascii (u :: char16) \<Longrightarrow> trunc8 (ucast u :: code_point) = trunc8 u"
proof -
  assume "is_ascii u"
  then have "(ucast (ucast u :: code_point) :: 8 word) = ucast u"
    by (simp add: word_unat_eq_iff unat_ucast_eq)
  then show ?thesis by simp
qed

interpretation utf16_to_8: utf_conversion CBU16_APPEND_UNSAFE CBU16_NEXT append8 IsStringASCII16 is_ascii
  trunc8 "DoUTFConversion16 append8" 3
proof
  fix src :: string16 and u :: char16 and len :: int and c :: code_point
  show "IsStringASCII16 src \<longleftrightarrow> list_all is_ascii src" by (rule IsStringASCII16_at_iff)
  show "DoUTFConversion16 append8 src len = (let (ok, cs) = utf_decode CBU16_NEXT src len 0
      in (ok, concat (map append8 cs)))" if "0 \<le> len"
    using that by (simp add: DoUTFConversion16_decode case_prod_beta)
  show "length (append8 c) \<le> 3 * length (CBU16_APPEND_UNSAFE c)"
    by (simp add: length_append16 length_append8)
  show "length (append8 kErrorCodePoint) \<le> 3"
    by (simp add: length_append8 kErrorCodePoint_value)
  assume u: "is_ascii u"
  then show "\<exists>c. IsValidCodepoint c \<and> CBU16_APPEND_UNSAFE c = [u] \<and> append8 c = [trunc8 u]"
    by (intro exI [of _ "ucast u"]) (simp add: valid_iff append8_unit append16_ascii trunc8_ascii16)
qed

interpretation utf16_to_32: utf_conversion CBU16_APPEND_UNSAFE CBU16_NEXT append32 IsStringASCII16 is_ascii
  ucast "DoUTFConversion16 append32" 1
proof
  fix src :: string16 and u :: char16 and len :: int and c :: code_point
  show "IsStringASCII16 src \<longleftrightarrow> list_all is_ascii src" by (rule IsStringASCII16_at_iff)
  show "DoUTFConversion16 append32 src len = (let (ok, cs) = utf_decode CBU16_NEXT src len 0
      in (ok, concat (map append32 cs)))" if "0 \<le> len"
    using that by (simp add: DoUTFConversion16_decode case_prod_beta)
  show "length (append32 c) \<le> 1 * length (CBU16_APPEND_UNSAFE c)"
    by (simp add: length_append16)
  assume u: "is_ascii u"
  then show "\<exists>c. IsValidCodepoint c \<and> CBU16_APPEND_UNSAFE c = [u] \<and> append32 c = [ucast u]"
    by (intro exI [of _ "ucast u"]) (simp add: valid_iff append16_ascii)
qed simp

interpretation utf32_to_8: utf_conversion append32 wide_next append8 IsStringASCII32 is_ascii
  trunc8 "conv_from32 append8" 4
proof
  fix src :: "32 word list" and u :: "32 word" and len :: int and c :: code_point
  show "IsStringASCII32 src \<longleftrightarrow> list_all is_ascii src" by (rule IsStringASCII32_at_iff)
  show "conv_from32 append8 src len = (let (ok, cs) = utf_decode wide_next src len 0
      in (ok, concat (map append8 cs)))"
    by (simp add: DoUTFConversion32_decode case_prod_beta)
  show "length (append8 c) \<le> 4 * length (append32 c)"
    by (simp add: length_append8)
  show "length (append8 kErrorCodePoint) \<le> 4"
    by (simp add: length_append8 kErrorCodePoint_value)
  assume u: "is_ascii u"
  then show "\<exists>c. IsValidCodepoint c \<and> append32 c = [u] \<and> append8 c = [trunc8 u]"
    by (intro exI [of _ u]) (simp add: valid_iff append8_unit)
qed

interpretation utf32_to_16: utf_conversion append32 wide_next CBU16_APPEND_UNSAFE IsStringASCII32 is_ascii
  ucast "conv_from32 CBU16_APPEND_UNSAFE" 2
proof
  fix src :: "32 word list" and u :: "32 word" and len :: int and c :: code_point
  show "IsStringASCII32 src \<longleftrightarrow> list_all is_ascii src" by (rule IsStringASCII32_at_iff)
  show "conv_from32 CBU16_APPEND_UNSAFE src len = (let (ok, cs) = utf_decode wide_next src len 0
      in (ok, concat (map CBU16_APPEND_UNSAFE cs)))"
    by (simp add: DoUTFConversion32_decode case_prod_beta)
  show "length (CBU16_APPEND_UNSAFE c) \<le> 2 * length (append32 c)"
    by (simp add: length_append16)
  show "length (CBU16_APPEND_UNSAFE kErrorCodePoint) \<le> 2"
    by (simp add: length_append16 kErrorCodePoint_value)
  assume u: "is_ascii u"
  then show "\<exists>c. IsValidCodepoint c \<and> append32 c = [u] \<and> CBU16_APPEND_UNSAFE c = [ucast u]"
    by (intro exI [of _ u]) (simp add: valid_iff append16_unit)
qed

section \<open>Properties of the conversions\<close>

definition utf8_encode :: "code_point list \<Rightarrow> string" where
  "utf8_encode cs = concat (map append8 cs)"

definition utf16_encode :: "code_point list \<Rightarrow> string16" where
  "utf16_encode cs = concat (map CBU16_APPEND_UNSAFE cs)"

abbreviation valid_points :: "code_point list \<Rightarrow> bool" where
  "valid_points cs \<equiv> list_all IsValidCodepoint cs"

lemma UTF8ToUTF16_flag_encode:
  "valid_points cs \<Longrightarrow> length (utf8_encode cs) < 2 ^ 31 \<Longrightarrow>
     UTF8ToUTF16_flag (utf8_encode cs) = (True, utf16_encode cs)"
  unfolding UTF8ToUTF16_flag_def utf8_encode_def utf16_encode_def
  by (rule utf8_to_16.conversion_complete) (auto simp: list_all_iff)

lemma UTF16ToUTF8_flag_encode:
  "valid_points cs \<Longrightarrow> length (utf16_encode cs) < 2 ^ 31 \<Longrightarrow>
     UTF16ToUTF8_flag (utf16_encode cs) = (True, utf8_encode cs)"
  unfolding UTF16ToUTF8_flag_def utf8_encode_def utf16_encode_def
  by (rule utf16_to_8.conversion_complete) (auto simp: list_all_iff)

lemma UTF8ToUTF16_flag_sound:
  "length s < 2 ^ 31 \<Longrightarrow> UTF8ToUTF16_flag s = (ok, t) \<Longrightarrow>
     \<exists>cs. valid_points cs \<and> t = utf16_encode cs \<and> (ok \<longleftrightarrow> s = utf8_encode cs)"
  unfolding UTF8ToUTF16_flag_def utf8_encode_def utf16_encode_def list_all_iff
  by (rule utf8_to_16.conversion_sound)

lemma UTF16ToUTF8_flag_sound:
  "length s < 2 ^ 31 \<Longrightarrow> UTF16ToUTF8_flag s = (ok, t) \<Longrightarrow>
     \<exists>cs. valid_points cs \<and> t = utf8_encode cs \<and> (ok \<longleftrightarrow> s = utf16_encode cs)"
  unfolding UTF16ToUTF8_flag_def utf8_encode_def utf16_encode_def list_all_iff
  by (rule utf16_to_8.conversion_sound)

lemma length_utf8_encode: "length (utf8_encode cs) \<le> 3 * length (utf16_encode cs)"
  by (induction cs) (auto simp: utf8_encode_def utf16_encode_def length_append8 length_append16)

lemma length_utf16_encode: "length (utf16_encode cs) \<le> length (utf8_encode cs)"
  by (induction cs) (auto simp: utf8_encode_def utf16_encode_def length_append8 length_append16)

lemma UTF16ToUTF8_encode:
  "valid_points cs \<Longrightarrow> length (utf16_encode cs) < 2 ^ 31 \<Longrightarrow> UTF16ToUTF8 (utf16_encode cs) = utf8_encode cs"
  by (simp add: UTF16ToUTF8_def UTF16ToUTF8_flag_encode)

lemma UTF16ToUTF8_empty_iff: "length s < 2 ^ 31 \<Longrightarrow> UTF16ToUTF8 s = [] \<longleftrightarrow> s = []"
proof -
  assume len: "length s < 2 ^ 31"
  have "utf_decode CBU16_NEXT s (int (length s)) 0 \<noteq> (ok, [])" if "s \<noteq> []" for ok
  proof -
    obtain j c where n: "CBU16_NEXT s 0 (int (length s)) = (j, c)" by fastforce
    have l: "0 < int (length s)" using that by simp
    with utf16.nxt_sound [of 0 "int (length s)" s j c] n have "0 < j" by simp
    from utf_decode_step [where nxt = CBU16_NEXT, OF l n this] show ?thesis
      by (simp add: case_prod_beta)
  qed
  moreover have "UTF16ToUTF8 s = concat (map append8 (snd (utf_decode CBU16_NEXT s (int (length s)) 0)))"
    using utf16_to_8.conversion_decode [OF len] by (simp add: UTF16ToUTF8_def UTF16ToUTF8_flag_def case_prod_beta)
  moreover have "append8 c \<noteq> []" for c using append8_length [of c] by auto
  ultimately show ?thesis
    by (cases "utf_decode CBU16_NEXT s (int (length s)) 0"; cases "snd (utf_decode CBU16_NEXT s (int (length s)) 0)")
      (auto simp: UTF16ToUTF8_def UTF16ToUTF8_flag_def UTFConversion_def IsStringASCII16_at_iff)
qed

lemma int32_of_size_le: "int32_of_size n \<le> int n"
proof -
  have "int32_of_size n \<le> take_bit 32 (int n)"
    by (simp add: int32_of_size_def signed_of_nat signed_take_bit_eq_take_bit_minus)
  also have "\<dots> \<le> int n" by (simp add: take_bit_nat_less_eq_self flip: of_nat_take_bit)
  finally show ?thesis .
qed

text \<open>The size bound of the conversion for every length, also where \<open>int32_t\<close> truncates it.\<close>

lemma length_UTF16ToUTF8: "length (UTF16ToUTF8 s) \<le> 3 * length s"
proof (cases "IsStringASCII16 s")
  case True
  then show ?thesis by (simp add: UTF16ToUTF8_def UTF16ToUTF8_flag_def UTFConversion_def)
next
  case False
  let ?len = "int32_of_size (length s)"
  have u: "UTF16ToUTF8 s = snd (DoUTFConversion16 append8 s ?len)"
    using False by (simp add: UTF16ToUTF8_def UTF16ToUTF8_flag_def UTFConversion_def)
  show ?thesis
  proof (cases "0 \<le> ?len")
    case True
    have "int (length (concat (map append8 (snd (utf_decode CBU16_NEXT s ?len 0))))) \<le> int 3 * (?len - 0)"
      by (rule utf16_to_8.decode_bound) (use True int32_of_size_le in auto)
    with u True int32_of_size_le [of "length s"] show ?thesis
      by (simp add: DoUTFConversion16_decode)
  next
    case False
    then show ?thesis
      unfolding u by (simp add: DoUTFConversion16_def DoUTFConversion16_loop.simps)
  qed
qed

lemma UTF16ToUTF8_ASCII:
  assumes "list_all is_ascii8 s" shows "UTF16ToUTF8 (ASCIIToUTF16 s) = s"
proof -
  have u: "unat (sext8 c :: char16) = char_code c" if "is_ascii8 c" for c
    using that by (simp add: sext8_ascii unat_of_nat)
  have "is_ascii8 c \<Longrightarrow> trunc8 (sext8 c :: char16) = c" for c
    using u [of c] by (simp add: unat_ucast_eq char_of_byte_def)
  then have "map trunc8 (ASCIIToUTF16 s) = s"
    using assms by (induction s) (auto simp: ASCIIToUTF16_def)
  moreover have "IsStringASCII16 (ASCIIToUTF16 s)"
    using assms u by (auto simp: IsStringASCII16_at_iff ASCIIToUTF16_def list_all_iff)
  ultimately show ?thesis
    by (simp add: UTF16ToUTF8_def UTF16ToUTF8_flag_def UTFConversion_def)
qed

text \<open>
  C37: converting UTF-8 to UTF-16 and back returns the original bytes whenever the first conversion
  reports success, so a successful conversion loses nothing.
\<close>

theorem utf8_utf16_roundtrip:
  assumes "length s < 2 ^ 31" and "UTF8ToUTF16_flag s = (True, t)"
  shows "UTF16ToUTF8_flag t = (True, s)"
proof -
  from UTF8ToUTF16_flag_sound [OF assms] obtain cs where cs: "valid_points cs" "t = utf16_encode cs"
    "s = utf8_encode cs" by auto
  moreover from cs assms(1) length_utf16_encode [of cs] have "length (utf16_encode cs) < 2 ^ 31" by simp
  ultimately show ?thesis by (simp add: UTF16ToUTF8_flag_encode)
qed

theorem utf8_utf16_roundtrip_witness:
  "UTF16ToUTF8_flag [0xE9, 0x20AC, 0xD83D, 0xDE00] =
     (True, map char_of_byte [0xC3, 0xA9, 0xE2, 0x82, 0xAC, 0xF0, 0x9F, 0x98, 0x80])"
proof (rule utf8_utf16_roundtrip)
  show "UTF8ToUTF16_flag (map char_of_byte [0xC3, 0xA9, 0xE2, 0x82, 0xAC, 0xF0, 0x9F, 0x98, 0x80]) =
      (True, [0xE9, 0x20AC, 0xD83D, 0xDE00])"
    by code_simp
qed simp

text \<open>
  C38: whatever 16-bit units come in, unpaired surrogates included, the UTF-8 that comes out is
  well-formed: decoding it succeeds. The success flag says exactly whether decoding it gives the
  original units back, so nothing is altered silently.
\<close>

theorem utf16_to_utf8_wellformed:
  assumes "3 * length s < 2 ^ 31" and "UTF16ToUTF8_flag s = (ok, t)"
  shows "fst (UTF8ToUTF16_flag t) \<and> (ok \<longleftrightarrow> snd (UTF8ToUTF16_flag t) = s)"
proof -
  have "length s < 2 ^ 31" using assms(1) by simp
  from UTF16ToUTF8_flag_sound [OF this assms(2)] obtain cs where
    cs: "valid_points cs" "t = utf8_encode cs" "ok \<longleftrightarrow> s = utf16_encode cs" by blast
  have "length t \<le> 3 * length s"
    using utf16_to_8.conversion_bound [of s] assms unfolding UTF16ToUTF8_flag_def by simp
  with cs(2) assms(1) have "length (utf8_encode cs) < 2 ^ 31" by simp
  from UTF8ToUTF16_flag_encode [OF cs(1) this] cs show ?thesis by auto
qed

theorem utf16_to_utf8_wellformed_witness:
  "fst (UTF8ToUTF16_flag (''a'' @ map char_of_byte [0xEF, 0xBF, 0xBD] @ ''b'')) \<and>
   (False \<longleftrightarrow> snd (UTF8ToUTF16_flag (''a'' @ map char_of_byte [0xEF, 0xBF, 0xBD] @ ''b'')) = [0x61, 0xD800, 0x62])"
proof (rule utf16_to_utf8_wellformed)
  show "UTF16ToUTF8_flag [0x61, 0xD800, 0x62] = (False, ''a'' @ map char_of_byte [0xEF, 0xBF, 0xBD] @ ''b'')"
    by code_simp
qed simp



section \<open>Single characters\<close>

lemma WriteUnicodeCharacter8_append:
  "WriteUnicodeCharacter8 c out = (out @ append8 c, length (append8 c))"
  by (auto simp: WriteUnicodeCharacter8_def append8_unit length_append8 word_le_nat_alt)

lemma WriteUnicodeCharacter16_append:
  "WriteUnicodeCharacter16 c out = (out @ CBU16_APPEND_UNSAFE c, length (CBU16_APPEND_UNSAFE c))"
  by (auto simp: WriteUnicodeCharacter16_def CBU16_LENGTH_def CBU16_APPEND_UNSAFE_def)

lemma surrogate_lead_iff:
  assumes "CBU_IS_SURROGATE c" shows "CBU_IS_SURROGATE_LEAD c \<longleftrightarrow> CBU16_IS_LEAD c"
proof -
  have "c AND 2 ^ 10 = 0 \<longleftrightarrow> even (unat c div 2 ^ 10)"
  proof -
    have "bit (unat c) 10 \<longleftrightarrow> bit c 10" by (simp add: bit_unsigned_iff)
    then show ?thesis unfolding and_exp_eq_0_iff_not_bit by (simp add: bit_iff_odd)
  qed
  moreover have "even (unat c div 1024) \<longleftrightarrow> unat c < 0xDC00"
  proof -
    from assms have r: "0xD800 \<le> unat c" "unat c < 0xE000" by (auto simp: CBU_IS_SURROGATE_iff)
    show ?thesis
    proof (cases "unat c < 0xDC00")
      case True
      then have "unat c div 1024 = 54" using r by (intro div_nat_eqI) simp_all
      with True show ?thesis by simp
    next
      case False
      then have "unat c div 1024 = 55" using r by (intro div_nat_eqI) simp_all
      with False show ?thesis by simp
    qed
  qed
  ultimately show ?thesis using assms
    by (simp add: CBU_IS_SURROGATE_LEAD_def CBU16_IS_LEAD_iff CBU_IS_SURROGATE_iff)
qed

lemma ReadUnicodeCharacter16_next:
  assumes "0 \<le> i" "i < len" "len \<le> int (length s)" "CBU16_NEXT s i len = (j, c)" "IsValidCodepoint c"
  shows "ReadUnicodeCharacter16 s len i = (j - 1, Some c, True)"
proof -
  let ?u = "ucast (u16_at s i) :: code_point" and ?v = "ucast (u16_at s (i + 1)) :: code_point"
  consider (pair) "CBU16_IS_LEAD ?u" "i + 1 \<noteq> len" "CBU16_IS_TRAIL ?v" "j = i + 2" "c = CBU16_GET_SUPPLEMENTARY ?u ?v"
    | (unit) "j = i + 1" "c = ?u"
    using assms(4) by (auto simp: CBU16_NEXT_def Let_def split: if_splits)
  then show ?thesis
  proof cases
    case pair
    moreover have "CBU_IS_SURROGATE ?u" using pair(1) by (simp add: CBU_IS_SURROGATE_iff CBU16_IS_LEAD_iff)
    ultimately show ?thesis
      using assms(2,5) surrogate_lead_iff [of ?u] by (simp add: ReadUnicodeCharacter16_def Let_def)
  next
    case unit
    moreover have "\<not> CBU_IS_SURROGATE ?u"
      using assms(5) unit(2) by (auto simp: valid_iff CBU_IS_SURROGATE_iff)
    ultimately show ?thesis using assms(5) by (simp add: ReadUnicodeCharacter16_def Let_def)
  qed
qed

text \<open>
  A valid code point written after any text in UTF-8 or UTF-16 is read back from where it starts,
  and the reader stops on its last unit.
\<close>

theorem unicode_character_roundtrip:
  assumes "IsValidCodepoint c"
  shows "(let (s, n) = WriteUnicodeCharacter8 c out in
            ReadUnicodeCharacter8 (s @ rest) (int (length (s @ rest))) (int (length out)) =
              (int (length out + n) - 1, Some c, True)) \<and>
         (let (s, n) = WriteUnicodeCharacter16 c out16 in
            ReadUnicodeCharacter16 (s @ rest16) (int (length (s @ rest16))) (int (length out16)) =
              (int (length out16 + n) - 1, Some c, True))"
proof -
  let ?s = "out @ append8 c @ rest" and ?t = "out16 @ CBU16_APPEND_UNSAFE c @ rest16"
  have "CBU8_NEXT ?s (int (length out)) (int (length ?s)) = (int (length out) + int (length (append8 c)), c)"
    by (rule utf8.nxt_complete [OF assms]) (simp_all add: units_at_def)
  moreover have n: "CBU16_NEXT ?t (int (length out16)) (int (length ?t)) =
      (int (length out16) + int (length (CBU16_APPEND_UNSAFE c)), c)"
    by (rule utf16.nxt_complete [OF assms]) (simp_all add: units_at_def)
  moreover have "ReadUnicodeCharacter16 ?t (int (length ?t)) (int (length out16)) =
      (int (length out16) + int (length (CBU16_APPEND_UNSAFE c)) - 1, Some c, True)"
    by (rule ReadUnicodeCharacter16_next [OF _ _ _ n assms]) (simp_all add: length_append16)
  ultimately show ?thesis
    using assms by (simp add: WriteUnicodeCharacter8_append WriteUnicodeCharacter16_append ReadUnicodeCharacter8_def add.assoc)
qed

theorem unicode_character_roundtrip_witness:
  "ReadUnicodeCharacter8 (''ab'' @ append8 0x20AC @ ''c'') 6 2 = (4, Some 0x20AC, True) \<and>
   ReadUnicodeCharacter16 ([0x61] @ CBU16_APPEND_UNSAFE 0x1F600 @ [0x62]) 4 1 = (2, Some 0x1F600, True)"
proof -
  have v: "IsValidCodepoint 0x20AC" "IsValidCodepoint 0x1F600" by (simp_all add: IsValidCodepoint_def)
  show ?thesis
    using unicode_character_roundtrip [OF v(1), of "''ab''" "''c''" "[]" "[]"]
      unicode_character_roundtrip [OF v(2), of "[]" "[]" "[0x61]" "[0x62]"]
    by (simp add: WriteUnicodeCharacter8_append WriteUnicodeCharacter16_append length_append8 length_append16)
qed

end
