(* ===== verification/Cxtpl_Position.thy ===== *)
theory Cxtpl_Position
  imports Cxtpl_Errors Base_Utf_Conversions Base_String_Piece
begin

text \<open>
  The position kept by the generator and the error texts built from it
  (\<open>shiftPos\<close>, \<open>removePrefix\<close>, \<open>getLineNum\<close>, \<open>highlightTextPos\<close> and \<open>ErrorDetails\<close> of
  \<open>src/core/CXTPL.cpp\<close>). Every \<open>substr\<close> is the throwing one; that none of them throws is proved.
\<close>

text \<open>
  What depends on the build: whether \<open>NDEBUG\<close> is undefined (then \<open>DCHECK\<close> and the debug checks are
  compiled in) and the text of \<open>__FILE__\<close>.
\<close>

record build =
  debug :: bool
  FILE :: string

section \<open>Positions\<close>

record position =
  index :: int

definition shiftPos :: "string16 \<Rightarrow> position \<Rightarrow> nat \<Rightarrow> nat \<Rightarrow> (string16 \<times> position) run" where
  "shiftPos src pos start end_of =
     run_bind (str_substr src start (sz_sub end_of start))
       (\<lambda>s. Ret (s, pos\<lparr>index := index pos + int start\<rparr>))"

definition removePrefix :: "string16 \<Rightarrow> string \<Rightarrow> position \<Rightarrow> (string16 \<times> position) run" where
  "removePrefix src pref pos = shiftPos src pos (length pref) (length src)"

section \<open>The highlighted context of an error\<close>

definition digit_char :: "nat \<Rightarrow> char" where
  "digit_char d = char_of (48 + d)"

fun decimal :: "nat \<Rightarrow> string" where
  "decimal n = (if n < 10 then [digit_char n] else decimal (n div 10) @ [digit_char (n mod 10)])"

declare decimal.simps [simp del]

text \<open>\<open>std::to_string\<close> of an integer.\<close>

definition to_string :: "int \<Rightarrow> string" where
  "to_string n = (if n < 0 then CHR ''-'' # decimal (nat (- n)) else decimal (nat n))"

definition highlight_visible_offset :: "int \<times> int" where
  "highlight_visible_offset = (20, 20)"

definition highlight_fill_symbol :: char16 where
  "highlight_fill_symbol = 0x20"

definition getLineNum :: "string16 \<Rightarrow> position \<Rightarrow> int" where
  "getLineNum original_str curPos = 1 + int (count_list original_str 0x0A)"

abbreviation nl16 :: string16 where
  "nl16 \<equiv> ASCIIToUTF16 [CHR 0x0A]"

definition highlightTextPos :: "string16 \<Rightarrow> position \<Rightarrow> string16 run" where
  "highlightTextPos original_str curPos =
     (let pos_index = min (max 0 (index curPos)) (int (length original_str));
          start_highlight = max 0 (pos_index - fst highlight_visible_offset);
          end_highlight = min (pos_index + snd highlight_visible_offset) (int (length original_str))
      in run_bind (str_substr original_str (nat start_highlight) (nat (pos_index - start_highlight)))
        (\<lambda>visible_original_start.
          let end_newline_pos = (case str_rfind_char 0x0A visible_original_start of None \<Rightarrow> 0 | Some n \<Rightarrow> n);
              columnNum = sz_sub (length visible_original_start) end_newline_pos;
              lineNum = getLineNum visible_original_start curPos;
              fill = replicate columnNum highlight_fill_symbol
          in run_bind (str_substr original_str (nat pos_index) (nat (end_highlight - pos_index)))
            (\<lambda>visible_original_end.
              Ret (nl16 @ visible_original_start @ nl16 @ fill @
                   ASCIIToUTF16 ''^<==[error here]'' @
                   ASCIIToUTF16 ''[line: '' @ ASCIIToUTF16 (to_string lineNum) @ ASCIIToUTF16 '']'' @
                   ASCIIToUTF16 ''[column: '' @ ASCIIToUTF16 (to_string (int columnNum)) @ ASCIIToUTF16 '']'' @
                   nl16 @ fill @ ASCIIToUTF16 ''^'' @ nl16 @ fill @ ASCIIToUTF16 ''^'' @ nl16 @
                   visible_original_end @ nl16))))"

section \<open>Error details\<close>

text \<open>\<open>ErrorDetails::UnknownTag\<close>; the grave accent is the one of the source text.\<close>

definition ErrorDetails_UnknownTag :: "build \<Rightarrow> string16 \<Rightarrow> position \<Rightarrow> string \<Rightarrow> string run" where
  "ErrorDetails_UnknownTag cfg original_str curPos openTagStart =
     run_bind (highlightTextPos original_str curPos)
       (\<lambda>h. Ret (''can'' @ [CHR 0x60] @ ''t find known tag after opening tag '' @ openTagStart @
                 '' ('' @ FILE cfg @ '')'' @ [CHR 0x0A] @ UTF16ToUTF8 h))"

definition ErrorDetails_UnclosedTag ::
  "build \<Rightarrow> string16 \<Rightarrow> position \<Rightarrow> string \<Rightarrow> string \<Rightarrow> string run" where
  "ErrorDetails_UnclosedTag cfg original_str curPos startTag closeTag =
     run_bind (highlightTextPos original_str curPos)
       (\<lambda>h. Ret (''can'' @ [CHR 0x60] @ ''t find closing tag '' @ closeTag @
                 '' after starting tag '' @ startTag @ '' ('' @ FILE cfg @ '')'' @ UTF16ToUTF8 h))"

section \<open>No substring of these functions throws\<close>

lemma shiftPos_ok [run_simps]:
  "start \<le> length s \<Longrightarrow> length s < 2 ^ 64 \<Longrightarrow>
     shiftPos s pos start (length s) = Ret (drop start s, pos\<lparr>index := index pos + int start\<rparr>)"
  by (simp add: shiftPos_def)

lemma shiftPos_prefix [run_simps]:
  "n \<le> length s \<Longrightarrow> length s < 2 ^ 64 \<Longrightarrow>
     shiftPos s pos 0 n = Ret (take n s, pos)"
  by (simp add: shiftPos_def)

lemma removePrefix_ok [run_simps]:
  "length p \<le> length s \<Longrightarrow> length s < 2 ^ 64 \<Longrightarrow>
     removePrefix s p pos = Ret (drop (length p) s, pos\<lparr>index := index pos + int (length p)\<rparr>)"
  by (simp add: removePrefix_def run_simps)

text \<open>The same text without the failure of \<open>substr\<close>, for the specification.\<close>

definition highlight_window :: "string16 \<Rightarrow> int \<Rightarrow> string16 \<times> string16" where
  "highlight_window s i =
     (let p = nat (min (max 0 i) (int (length s)))
      in (drop (p - 20) (take p s), take 20 (drop p s)))"

definition highlight_text :: "string16 \<Rightarrow> int \<Rightarrow> string16" where
  "highlight_text s i =
     (let (before, after) = highlight_window s i;
          column = length before - (case str_rfind_char 0x0A before of None \<Rightarrow> 0 | Some n \<Rightarrow> n);
          fill = replicate column 0x20
      in nl16 @ before @ nl16 @ fill @ ASCIIToUTF16 ''^<==[error here]'' @
         ASCIIToUTF16 ''[line: '' @ ASCIIToUTF16 (to_string (1 + int (count_list before 0x0A))) @ ASCIIToUTF16 '']'' @
         ASCIIToUTF16 ''[column: '' @ ASCIIToUTF16 (to_string (int column)) @ ASCIIToUTF16 '']'' @
         nl16 @ fill @ ASCIIToUTF16 ''^'' @ nl16 @ fill @ ASCIIToUTF16 ''^'' @ nl16 @ after @ nl16)"

lemma str_rfind_char_less: "str_rfind_char x s = Some n \<Longrightarrow> n < length s"
  by (induction s arbitrary: n) (auto split: option.splits if_splits)

lemma highlightTextPos_text:
  assumes "length s < 2 ^ 63"
  shows "highlightTextPos s pos = Ret (highlight_text s (index pos))"
proof -
  define p where "p = nat (min (max 0 (index pos)) (int (length s)))"
  have p: "min (max 0 (index pos)) (int (length s)) = int p" "p \<le> length s" by (auto simp: p_def)
  have a: "nat (max 0 (int p - 20)) = p - 20" "nat (int p - max 0 (int p - 20)) = p - (p - 20)" by auto
  have b: "nat (min (int p + 20) (int (length s)) - int p) = min 20 (length s - p)" using p(2) by auto
  have s1: "str_substr s (p - 20) (p - (p - 20)) = Ret (drop (p - 20) (take p s))"
    using p(2) by (simp add: str_substr_def drop_take)
  have s2: "str_substr s p (min 20 (length s - p)) = Ret (take 20 (drop p s))"
    using p(2) by (cases "20 \<le> length s - p") (simp_all add: str_substr_def min_def)
  let ?v = "drop (p - 20) (take p s)"
  let ?n = "case str_rfind_char 0x0A ?v of None \<Rightarrow> 0 | Some n \<Rightarrow> n"
  have "?n \<le> length ?v" using str_rfind_char_less [of "0x0A" ?v] by (auto split: option.split)
  then have c: "sz_sub (length ?v) ?n = length ?v - ?n"
    using assms by (intro sz_sub_le) auto
  have w: "highlight_window s (index pos) = (?v, take 20 (drop p s))"
    by (simp add: highlight_window_def p_def Let_def)
  show ?thesis
    by (simp only: highlightTextPos_def Let_def p highlight_visible_offset_def fst_conv snd_conv a b s1 s2
      run_bind.simps c highlight_text_def w prod.case getLineNum_def highlight_fill_symbol_def nat_int
      append_assoc)
qed

section \<open>Property\<close>

text \<open>
  C32: an error message shows the twenty characters before the position, and the line it names is counted in
  them only: it is never above 21, and it is the line of the source exactly when no line ends before these characters.
\<close>

theorem error_line_window:
  assumes "length s < 2 ^ 63" "0 \<le> index pos" "index pos \<le> int (length s)"
  shows "let p = nat (index pos); visible = drop (p - 20) (take p s); line = getLineNum visible pos
    in (\<exists>fill details. highlightTextPos s pos =
          Ret (nl16 @ visible @ nl16 @ fill @ ASCIIToUTF16 ''^<==[error here]'' @
               ASCIIToUTF16 ''[line: '' @ ASCIIToUTF16 (to_string line) @ details)) \<and>
       1 \<le> line \<and> line \<le> 21 \<and>
       (line = getLineNum (take p s) pos \<longleftrightarrow> 0x0A \<notin> set (take (p - 20) s))"
proof -
  define p where "p = nat (index pos)"
  let ?visible = "drop (p - 20) (take p s)"
  have p: "nat (min (max 0 (index pos)) (int (length s))) = p" using assms(2,3) by (simp add: p_def)
  have shown: "\<exists>fill details. highlightTextPos s pos =
      Ret (nl16 @ ?visible @ nl16 @ fill @ ASCIIToUTF16 ''^<==[error here]'' @
           ASCIIToUTF16 ''[line: '' @ ASCIIToUTF16 (to_string (getLineNum ?visible pos)) @ details)"
    unfolding highlightTextPos_text [OF assms(1)] highlight_text_def highlight_window_def Let_def p prod.case getLineNum_def
    by blast
  have "count_list ?visible 0x0A \<le> 20"
    using count_le_length [of ?visible "0x0A"] by simp
  then have bounds: "1 \<le> getLineNum ?visible pos" "getLineNum ?visible pos \<le> 21" by (simp_all add: getLineNum_def)
  have "take p s = take (p - 20) s @ ?visible"
    by (metis append_take_drop_id diff_le_self min_def take_take)
  then have "count_list (take p s) 0x0A = count_list (take (p - 20) s) 0x0A + count_list ?visible 0x0A"
    by (metis count_list_append)
  then have "getLineNum ?visible pos = getLineNum (take p s) pos \<longleftrightarrow> 0x0A \<notin> set (take (p - 20) s)"
    by (simp add: getLineNum_def count_list_0_iff)
  with shown bounds show ?thesis unfolding p_def [symmetric] Let_def by blast
qed

theorem error_line_window_witness:
  "getLineNum (drop (25 - 20) (take 25 (replicate 3 0x0A @ replicate 30 (0x20 :: char16)))) \<lparr>index = 25\<rparr> = 1 \<and>
   getLineNum (take 25 (replicate 3 0x0A @ replicate 30 (0x20 :: char16))) \<lparr>index = 25\<rparr> = 4"
proof -
  let ?s = "replicate 3 0x0A @ replicate 30 (0x20 :: char16)"
  have "length ?s < 2 ^ 63" "0 \<le> index \<lparr>index = 25\<rparr>" "index \<lparr>index = 25\<rparr> \<le> int (length ?s)" by simp_all
  from error_line_window [OF this]
  have "(getLineNum (drop (25 - 20) (take 25 ?s)) \<lparr>index = 25\<rparr> = getLineNum (take 25 ?s) \<lparr>index = 25\<rparr>) \<longleftrightarrow> 0x0A \<notin> set (take (25 - 20) ?s)"
    by (simp only: Let_def position.simps nat_numeral)
  moreover have "0x0A \<in> set (take (25 - 20) ?s)" by code_simp
  moreover have "getLineNum (drop (25 - 20) (take 25 ?s)) \<lparr>index = 25\<rparr> = 1" by code_simp
  moreover have "getLineNum (take 25 ?s) \<lparr>index = 25\<rparr> = 4" by code_simp
  ultimately show ?thesis by simp
qed

end
