(* ===== verification/Cxtpl_Generator.thy ===== *)
theory Cxtpl_Generator
  imports Cxtpl_Position Cxtpl_Codegen Base_String_Ascii
begin

text \<open>
  The engine: the tags of \<open>include/core/tags.hpp\<close> and the class \<open>Generator\<close> of
  \<open>include/core/CXTPL.hpp\<close> and \<open>src/core/CXTPL.cpp\<close>, one definition per function. A
  \<open>const char*\<close> that the code compares as a pointer is a pair of an address and its characters; the
  result string that a callback appends to is passed in and returned.
\<close>

section \<open>Tags\<close>

datatype cstr = CStr (address: nat) (chars: string)

record single_tag =
  tag_opening :: "cstr list"
  tag_attrs :: string
  tag_closing :: "string list"

type_synonym tag_callback = "string \<Rightarrow> string \<Rightarrow> string \<Rightarrow> string outcome run"

record pair_tag =
  open_tag :: single_tag
  close_tag :: single_tag
  callback :: tag_callback

record GeneratorTags =
  openTagStart :: cstr
  code_block :: pair_tag
  code_line :: pair_tag
  code_append_raw :: pair_tag
  code_append_as_string :: pair_tag
  code_include :: pair_tag

record Generator =
  generator_tags :: GeneratorTags
  original_str :: string16

definition supported_tags :: "Generator \<Rightarrow> GeneratorTags" where
  "supported_tags gen = generator_tags gen"

definition set_supported_tags :: "Generator \<Rightarrow> GeneratorTags \<Rightarrow> Generator" where
  "set_supported_tags gen tags = gen\<lparr>generator_tags := tags\<rparr>"

definition kOutVarName :: string where
  "kOutVarName = ''cxtpl_output''"

text \<open>\<open>DCHECK\<close> ends the process in a debug build only.\<close>

definition DCHECK :: "build \<Rightarrow> bool \<Rightarrow> unit run" where
  "DCHECK cfg b = (if debug cfg then CHECK b else Ret ())"

definition tag_attr_with_closing :: "build \<Rightarrow> single_tag \<Rightarrow> nat \<Rightarrow> string run" where
  "tag_attr_with_closing cfg tag closeIndex =
     run_bind (DCHECK cfg (closeIndex = 0)) (\<lambda>_.
     run_bind (vec_at (tag_closing tag) closeIndex) (\<lambda>c. Ret (tag_attrs tag @ c)))"

definition tag_to_string :: "build \<Rightarrow> single_tag \<Rightarrow> nat \<Rightarrow> nat \<Rightarrow> string run" where
  "tag_to_string cfg tag openIndex closeIndex =
     run_bind (DCHECK cfg (closeIndex = 0)) (\<lambda>_.
     run_bind (vec_at (tag_opening tag) openIndex) (\<lambda>op.
     run_bind (vec_at (tag_closing tag) closeIndex) (\<lambda>c. Ret (chars op @ tag_attrs tag @ c))))"

section \<open>Debug checks\<close>

text \<open>
  The comparison of \<open>tag_opening.at(0)\<close> with \<open>openTagStart\<close> compares two \<open>const char*\<close>, so it is the
  addresses that must agree.
\<close>

definition opening_is_start :: "GeneratorTags \<Rightarrow> pair_tag \<Rightarrow> bool run" where
  "opening_is_start tags tag =
     run_bind (vec_at (tag_opening (open_tag tag)) 0) (\<lambda>op. Ret (address op = address (openTagStart tags)))"

text \<open>\<open>a && b\<close> with short-circuit evaluation.\<close>

definition run_and :: "bool run \<Rightarrow> bool run \<Rightarrow> bool run" where
  "run_and a b = run_bind a (\<lambda>x. if x then b else Ret False)"

definition performDebugChecks :: "build \<Rightarrow> GeneratorTags \<Rightarrow> unit outcome run" where
  "performDebugChecks cfg tags =
     run_bind (CHECK (length (tag_opening (open_tag (code_line tags))) = 1)) (\<lambda>_.
     run_bind (CHECK (length (tag_opening (open_tag (code_block tags))) = 1)) (\<lambda>_.
     run_bind (CHECK (length (tag_opening (open_tag (code_append_raw tags))) = 1)) (\<lambda>_.
     run_bind (CHECK (length (tag_opening (open_tag (code_append_as_string tags))) = 1)) (\<lambda>_.
     run_bind (CHECK (length (tag_opening (open_tag (code_include tags))) = 1)) (\<lambda>_.
     run_bind
       (run_and (opening_is_start tags (code_line tags))
       (run_and (opening_is_start tags (code_block tags))
       (run_and (opening_is_start tags (code_append_raw tags))
       (run_and (opening_is_start tags (code_append_as_string tags))
                (opening_is_start tags (code_include tags))))))
       (\<lambda>isTagOpeningsValid.
          if \<not> isTagOpeningsValid then
            failure UNKNOWN_TAG (''all opening tags must start with '' @ chars (openTagStart tags) @
              '' ('' @ FILE cfg @ '')'')
          else success ()))))))"

section \<open>Handling a tag\<close>

text \<open>The text between the tags, with the string and the position after the closing tag.\<close>

definition encloseTag ::
  "build \<Rightarrow> Generator \<Rightarrow> string16 \<Rightarrow> position \<Rightarrow> string \<Rightarrow> string
     \<Rightarrow> (string16 \<times> string16 \<times> position) outcome run" where
  "encloseTag cfg gen processStr curPos startTag closeTag =
     run_bind (ASCIIToUTF16_run (debug cfg) closeTag) (\<lambda>closeTag16.
     case str_find closeTag16 processStr of
       None \<Rightarrow>
         run_bind (ErrorDetails_UnclosedTag cfg (original_str gen) curPos startTag closeTag)
           (\<lambda>details. failure UNCLOSED_TAG details)
     | Some close_pos \<Rightarrow>
         run_bind (str_substr processStr 0 close_pos) (\<lambda>tagCode.
         run_bind (shiftPos processStr curPos (close_pos + length closeTag) (length processStr))
           (\<lambda>(processStr, curPos). success (tagCode, processStr, curPos))))"

text \<open>
  The loop over the possible closing tags: a failed attempt leaves the string and the position as
  they were, and only the failure of the last one is reported.
\<close>

function handleTag_loop ::
  "build \<Rightarrow> Generator \<Rightarrow> string16 \<Rightarrow> pair_tag \<Rightarrow> position \<Rightarrow> string \<Rightarrow> string \<Rightarrow> nat
     \<Rightarrow> (string16 \<times> position \<times> string) outcome run" where
  "handleTag_loop cfg gen str tag curPos resultStr start_tag_str i =
     (if i < length (tag_opening (close_tag tag)) then
        run_bind (tag_to_string cfg (close_tag tag) i 0) (\<lambda>close_tag_str.
        run_bind (encloseTag cfg gen str curPos start_tag_str close_tag_str) (\<lambda>closedTagResult.
          case closedTagResult of
            Inl e \<Rightarrow>
              if i < length (tag_opening (close_tag tag)) - 1
              then handleTag_loop cfg gen str tag curPos resultStr start_tag_str (i + 1)
              else Ret (Inl e)
          | Inr (tagCode, strToChange, posToChange) \<Rightarrow>
              OUTCOME_TRY (callback tag resultStr (UTF16ToUTF8 tagCode) kOutVarName)
                (\<lambda>resultStr. success (strToChange, posToChange, resultStr))))
      else success (str, curPos, resultStr))"
  by pat_completeness auto
termination
  by (relation "measure (\<lambda>(_, _, _, tag, _, _, _, i). length (tag_opening (close_tag tag)) - i)") auto

declare handleTag_loop.simps [simp del]

definition handleTag ::
  "build \<Rightarrow> Generator \<Rightarrow> string16 \<Rightarrow> pair_tag \<Rightarrow> position \<Rightarrow> string
     \<Rightarrow> (string16 \<times> position \<times> string) outcome run" where
  "handleTag cfg gen str tag curPos resultStr =
     run_bind (tag_to_string cfg (open_tag tag) 0 0) (\<lambda>start_tag_str.
       handleTag_loop cfg gen str tag curPos resultStr start_tag_str 0)"

text \<open>One \<open>if\<close> of \<open>handleTagStart\<close>: the tag when its prefix follows, else the rest of the chain.\<close>

definition try_tag ::
  "build \<Rightarrow> Generator \<Rightarrow> pair_tag \<Rightarrow> string16 \<Rightarrow> position \<Rightarrow> string
     \<Rightarrow> (string16 \<times> position \<times> string) outcome run \<Rightarrow> (string16 \<times> position \<times> string) outcome run" where
  "try_tag cfg gen tag str curPos resultStr otherwise =
     run_bind (tag_attr_with_closing cfg (open_tag tag) 0) (\<lambda>pref.
     run_bind (ASCIIToUTF16_run (debug cfg) pref) (\<lambda>pref16.
       if StartsWith16 str pref16 SENSITIVE then
         run_bind (removePrefix str pref curPos) (\<lambda>(str, curPos).
           handleTag cfg gen str tag curPos resultStr)
       else otherwise))"

definition handleTagStart ::
  "build \<Rightarrow> Generator \<Rightarrow> string16 \<Rightarrow> position \<Rightarrow> string \<Rightarrow> (string16 \<times> position \<times> string) outcome run" where
  "handleTagStart cfg gen str curPos resultStr =
     try_tag cfg gen (code_line (supported_tags gen)) str curPos resultStr
    (try_tag cfg gen (code_block (supported_tags gen)) str curPos resultStr
    (try_tag cfg gen (code_append_raw (supported_tags gen)) str curPos resultStr
    (try_tag cfg gen (code_append_as_string (supported_tags gen)) str curPos resultStr
    (try_tag cfg gen (code_include (supported_tags gen)) str curPos resultStr
      (run_bind (ErrorDetails_UnknownTag cfg (original_str gen) curPos (chars (openTagStart (supported_tags gen))))
        (\<lambda>details. failure UNCLOSED_TAG details))))))"

section \<open>The generator loop\<close>

definition append_raw_text :: "string16 \<Rightarrow> string \<Rightarrow> string" where
  "append_raw_text subStrRawText resultStr =
     (if subStrRawText = [] then resultStr @ [CHR 0x0A]
      else resultStr @ appendToVariableAsRawText (UTF16ToUTF8 subStrRawText) kOutVarName)"

definition max_iterations :: int where
  "max_iterations = 2 ^ 64 - 1"

function generate_loop ::
  "build \<Rightarrow> Generator \<Rightarrow> int \<Rightarrow> string16 \<Rightarrow> position \<Rightarrow> string \<Rightarrow> string outcome run" where
  "generate_loop cfg gen i processStr curPos resultStr =
     (if i < max_iterations then
        run_bind (ASCIIToUTF16_run (debug cfg) (chars (openTagStart (supported_tags gen)))) (\<lambda>open16.
        case str_find open16 processStr of
          Some pos \<Rightarrow>
            run_bind (shiftPos processStr curPos 0 pos) (\<lambda>(subStrRawText, curPos).
            run_bind (shiftPos processStr curPos (pos + length (chars (openTagStart (supported_tags gen))))
                (length processStr)) (\<lambda>(processStr, curPos).
            OUTCOME_TRY (handleTagStart cfg gen processStr curPos (append_raw_text subStrRawText resultStr))
              (\<lambda>(processStr, curPos, resultStr).
                generate_loop cfg gen (i + 1) processStr curPos resultStr)))
        | None \<Rightarrow>
            run_bind (shiftPos processStr curPos 0 (length processStr)) (\<lambda>(subStrRawText, curPos).
              success (append_raw_text subStrRawText resultStr)))
      else success resultStr)"
  by pat_completeness auto
termination
  by (relation "measure (\<lambda>(_, _, i, _). nat (max_iterations - i))") auto

declare generate_loop.simps [simp del]

definition generateFromString :: "build \<Rightarrow> Generator \<Rightarrow> string outcome run" where
  "generateFromString cfg gen =
     OUTCOME_TRY (if debug cfg then performDebugChecks cfg (supported_tags gen) else success ()) (\<lambda>_.
       if original_str gen = []
       then failure EMPTY_INPUT (''empty string as input'' @ '' ('' @ FILE cfg @ '')'')
       else generate_loop cfg gen 0 (original_str gen) \<lparr>index = -1\<rparr> [])"

text \<open>The entry points are \<open>noexcept\<close>; they return the generator with its new \<open>original_str\<close>.\<close>

definition generate_from_ASCII :: "build \<Rightarrow> Generator \<Rightarrow> string \<Rightarrow> (Generator \<times> string outcome) run" where
  "generate_from_ASCII cfg gen template_source =
     noexcept (run_bind (DCHECK cfg (IsStringASCII template_source)) (\<lambda>_.
       run_bind (ASCIIToUTF16_run (debug cfg) template_source) (\<lambda>src.
         let gen = gen\<lparr>original_str := src\<rparr>
         in run_bind (generateFromString cfg gen) (\<lambda>r. Ret (gen, r)))))"

definition generate_from_UTF16 :: "build \<Rightarrow> Generator \<Rightarrow> string16 \<Rightarrow> (Generator \<times> string outcome) run" where
  "generate_from_UTF16 cfg gen template_source =
     noexcept (let gen = gen\<lparr>original_str := template_source\<rparr>
       in run_bind (generateFromString cfg gen) (\<lambda>r. Ret (gen, r)))"

end
