(* ===== verification/Cxtpl_Template.thy ===== *)
theory Cxtpl_Template
  imports Cxtpl_Generator
begin

text \<open>
  The specification of the engine: a template is a sequence of tags with text before each and a text
  at the end. \<open>parse\<close> reads this structure off a source and \<open>emit\<close> turns it into the generated code
  by running the callbacks in order. The engine of \<open>Cxtpl_Generator\<close>, with its mutable string, its
  position and its counter, is proved to compute \<open>emit (parse source)\<close>, error texts included.
\<close>

section \<open>Template languages\<close>

datatype kind = Line | Block | Raw | As_string | Include

text \<open>The order in which the engine tries the tags.\<close>

definition kinds :: "kind list" where
  "kinds = [Line, Block, Raw, As_string, Include]"

primrec tag_of :: "GeneratorTags \<Rightarrow> kind \<Rightarrow> pair_tag" where
  "tag_of tags Line = code_line tags"
| "tag_of tags Block = code_block tags"
| "tag_of tags Raw = code_append_raw tags"
| "tag_of tags As_string = code_append_as_string tags"
| "tag_of tags Include = code_include tags"

record language =
  lang_open :: string16
  lang_prefix :: "kind \<Rightarrow> string16"
  lang_closers :: "kind \<Rightarrow> string16 list"

definition prefix_text :: "pair_tag \<Rightarrow> string" where
  "prefix_text tag = tag_attrs (open_tag tag) @ hd (tag_closing (open_tag tag))"

definition start_text :: "pair_tag \<Rightarrow> string" where
  "start_text tag = chars (hd (tag_opening (open_tag tag))) @ prefix_text tag"

definition close_texts :: "pair_tag \<Rightarrow> string list" where
  "close_texts tag =
     map (\<lambda>op. chars op @ tag_attrs (close_tag tag) @ hd (tag_closing (close_tag tag)))
       (tag_opening (close_tag tag))"

definition language_of :: "GeneratorTags \<Rightarrow> language" where
  "language_of tags =
     \<lparr>lang_open = ASCIIToUTF16 (chars (openTagStart tags)),
      lang_prefix = \<lambda>k. ASCIIToUTF16 (prefix_text (tag_of tags k)),
      lang_closers = \<lambda>k. map ASCIIToUTF16 (close_texts (tag_of tags k))\<rparr>"

text \<open>The tags the engine can work with: nonempty lists, ASCII texts, one opening shared by all.\<close>

definition pair_tag_ok :: "cstr \<Rightarrow> pair_tag \<Rightarrow> bool" where
  "pair_tag_ok start tag \<longleftrightarrow>
     tag_opening (open_tag tag) = [start] \<and> tag_closing (open_tag tag) \<noteq> [] \<and>
     tag_opening (close_tag tag) \<noteq> [] \<and> tag_closing (close_tag tag) \<noteq> [] \<and>
     list_all is_ascii8 (prefix_text tag) \<and> list_all (list_all is_ascii8) (close_texts tag)"

definition tags_ok :: "GeneratorTags \<Rightarrow> bool" where
  "tags_ok tags \<longleftrightarrow>
     chars (openTagStart tags) \<noteq> [] \<and> list_all is_ascii8 (chars (openTagStart tags)) \<and>
     list_all (\<lambda>k. pair_tag_ok (openTagStart tags) (tag_of tags k)) kinds"

section \<open>Parsing\<close>

record piece =
  piece_text :: string16
  piece_kind :: kind
  piece_code :: string16
  piece_closer :: string16

datatype ending =
    Tail string16
  | Unknown_tag string16 string16
  | Unclosed_tag string16 kind string16

function parse :: "language \<Rightarrow> string16 \<Rightarrow> piece list \<times> ending" where
  "parse lang s =
     (if lang_open lang = [] then ([], Tail s)
      else case str_find (lang_open lang) s of
        None \<Rightarrow> ([], Tail s)
      | Some n \<Rightarrow>
          let rest = drop (n + length (lang_open lang)) s in
          case find (\<lambda>k. prefix (lang_prefix lang k) rest) kinds of
            None \<Rightarrow> ([], Unknown_tag (take n s) rest)
          | Some k \<Rightarrow>
              let body = drop (length (lang_prefix lang k)) rest in
              case find (\<lambda>c. occurs c body) (lang_closers lang k) of
                None \<Rightarrow> ([], Unclosed_tag (take n s) k body)
              | Some c \<Rightarrow>
                  let m = the (str_find c body);
                      (ps, end_of) = parse lang (drop (m + length c) body)
                  in (\<lparr>piece_text = take n s, piece_kind = k, piece_code = take m body, piece_closer = c\<rparr> # ps,
                      end_of))"
  by pat_completeness auto
termination
proof (relation "measure (\<lambda>(_, s). length s)", goal_cases)
  case (2 lang s n rest k body c m)
  then have "n + length (lang_open lang) \<le> length s" "0 < length (lang_open lang)"
    using str_find_Some [of "lang_open lang" s n] by auto
  moreover from 2 have rest: "rest = drop (n + length (lang_open lang)) s" and
    body: "body = drop (length (lang_prefix lang k)) rest" by simp_all
  ultimately have "length rest < length s" "length body \<le> length rest"
    unfolding rest body length_drop by linarith+
  moreover have "length (drop (m + length c) body) \<le> length body" by simp
  ultimately have "length (drop (m + length c) body) < length s" by linarith
  then show ?case by (simp only: in_measure prod.case)
qed simp

declare parse.simps [simp del]

lemma parse_tail:
  "lang_open lang \<noteq> [] \<Longrightarrow> str_find (lang_open lang) s = None \<Longrightarrow> parse lang s = ([], Tail s)"
  by (simp add: parse.simps [of lang s])

lemma parse_unknown:
  assumes "lang_open lang \<noteq> []" "str_find (lang_open lang) s = Some n" "rest = drop (n + length (lang_open lang)) s"
    and "List.find (\<lambda>k. prefix (lang_prefix lang k) rest) kinds = None"
  shows "parse lang s = ([], Unknown_tag (take n s) rest)"
  using assms by (simp add: parse.simps [of lang s] Let_def)

lemma parse_unclosed:
  assumes "lang_open lang \<noteq> []" "str_find (lang_open lang) s = Some n" "rest = drop (n + length (lang_open lang)) s"
    and "List.find (\<lambda>k. prefix (lang_prefix lang k) rest) kinds = Some k"
    and "body = drop (length (lang_prefix lang k)) rest"
    and "List.find (\<lambda>c. occurs c body) (lang_closers lang k) = None"
  shows "parse lang s = ([], Unclosed_tag (take n s) k body)"
  using assms by (simp add: parse.simps [of lang s] Let_def)

lemma parse_piece:
  assumes "lang_open lang \<noteq> []" "str_find (lang_open lang) s = Some n" "rest = drop (n + length (lang_open lang)) s"
    and "List.find (\<lambda>k. prefix (lang_prefix lang k) rest) kinds = Some k"
    and "body = drop (length (lang_prefix lang k)) rest"
    and "List.find (\<lambda>c. occurs c body) (lang_closers lang k) = Some c"
    and "m = the (str_find c body)" "parse lang (drop (m + length c) body) = (ps, e)"
  shows "parse lang s =
    (\<lparr>piece_text = take n s, piece_kind = k, piece_code = take m body, piece_closer = c\<rparr> # ps, e)"
  using assms by (simp add: parse.simps [of lang s] Let_def)

text \<open>Printing is the inverse: nothing of the source is lost by parsing.\<close>

definition print_piece :: "language \<Rightarrow> piece \<Rightarrow> string16" where
  "print_piece lang p =
     piece_text p @ lang_open lang @ lang_prefix lang (piece_kind p) @ piece_code p @ piece_closer p"

fun print_ending :: "language \<Rightarrow> ending \<Rightarrow> string16" where
  "print_ending lang (Tail t) = t"
| "print_ending lang (Unknown_tag t rest) = t @ lang_open lang @ rest"
| "print_ending lang (Unclosed_tag t k body) = t @ lang_open lang @ lang_prefix lang k @ body"

definition print_template :: "language \<Rightarrow> piece list \<Rightarrow> ending \<Rightarrow> string16" where
  "print_template lang ps e = concat (map (print_piece lang) ps) @ print_ending lang e"

lemma find_SomeD: "List.find P xs = Some x \<Longrightarrow> P x \<and> x \<in> set xs"
  by (auto simp: find_Some_iff)

lemma parse_lossless: "parse lang s = (ps, e) \<Longrightarrow> print_template lang ps e = s"
proof (induction lang s arbitrary: ps e rule: parse.induct)
  case (1 lang s)
  let ?o = "lang_open lang"
  show ?case
  proof (cases "?o = []")
    case True
    with "1.prems" show ?thesis by (auto simp: parse.simps print_template_def)
  next
    case ne: False
    show ?thesis
    proof (cases "str_find ?o s")
      case None
      with ne "1.prems" show ?thesis by (auto simp: parse.simps print_template_def)
    next
      case (Some n)
      define rest where "rest = drop (n + length ?o) s"
      have s: "s = take n s @ ?o @ rest" unfolding rest_def by (rule str_find_Some_split [OF Some])
      show ?thesis
      proof (cases "List.find (\<lambda>k. prefix (lang_prefix lang k) rest) kinds")
        case None
        with ne Some "1.prems" have "ps = []" "e = Unknown_tag (take n s) rest"
          by (auto simp: parse.simps [of lang s] rest_def Let_def)
        then show ?thesis using s by (simp add: print_template_def)
      next
        case k: (Some k)
        define body where "body = drop (length (lang_prefix lang k)) rest"
        have "prefix (lang_prefix lang k) rest" using find_SomeD [OF k] by simp
        then have rest: "rest = lang_prefix lang k @ body" by (auto simp: body_def prefix_def)
        show ?thesis
        proof (cases "List.find (\<lambda>c. occurs c body) (lang_closers lang k)")
          case None
          with ne Some k "1.prems" have "ps = []" "e = Unclosed_tag (take n s) k body"
            by (auto simp: parse.simps [of lang s] rest_def [symmetric] body_def [symmetric] Let_def)
          then show ?thesis using s rest by (simp add: print_template_def)
        next
          case c: (Some c)
          then have "occurs c body" using find_SomeD by fastforce
          then obtain m where m: "str_find c body = Some m" by (auto simp: occurs_def)
          obtain ps' e' where p: "parse lang (drop (m + length c) body) = (ps', e')" by fastforce
          have IH: "print_template lang ps' e' = drop (m + length c) body"
            using "1.IH" [OF ne Some rest_def k body_def c] m p by simp
          have ps: "ps = \<lparr>piece_text = take n s, piece_kind = k, piece_code = take m body, piece_closer = c\<rparr> # ps'" "e = e'"
            using ne Some k c m p "1.prems"
            by (auto simp: parse.simps [of lang s] rest_def [symmetric] body_def [symmetric] Let_def)
          have "body = take m body @ c @ drop (m + length c) body"
            by (rule str_find_Some_split [OF m])
          then show ?thesis
            using s rest IH unfolding ps print_template_def by (simp add: print_piece_def)
        qed
      qed
    qed
  qed
qed

section \<open>Emitting\<close>

definition unknown_tag_message :: "build \<Rightarrow> Generator \<Rightarrow> string16 \<Rightarrow> string" where
  "unknown_tag_message cfg gen rest =
     ''can'' @ [CHR 0x60] @ ''t find known tag after opening tag '' @ chars (openTagStart (supported_tags gen)) @
     '' ('' @ FILE cfg @ '')'' @ [CHR 0x0A] @
     UTF16ToUTF8 (highlight_text (original_str gen)
       (int (length (original_str gen)) - int (length rest) - 1))"

definition unclosed_tag_message :: "build \<Rightarrow> Generator \<Rightarrow> pair_tag \<Rightarrow> string16 \<Rightarrow> string" where
  "unclosed_tag_message cfg gen tag body =
     ''can'' @ [CHR 0x60] @ ''t find closing tag '' @ last (close_texts tag) @
     '' after starting tag '' @ start_text tag @ '' ('' @ FILE cfg @ '')'' @
     UTF16ToUTF8 (highlight_text (original_str gen)
       (int (length (original_str gen)) - int (length body) - 1))"

fun emit :: "build \<Rightarrow> Generator \<Rightarrow> piece list \<Rightarrow> ending \<Rightarrow> string \<Rightarrow> string outcome run" where
  "emit cfg gen [] (Tail t) acc = success (append_raw_text t acc)"
| "emit cfg gen [] (Unknown_tag t rest) acc = failure UNCLOSED_TAG (unknown_tag_message cfg gen rest)"
| "emit cfg gen [] (Unclosed_tag t k body) acc =
     failure UNCLOSED_TAG (unclosed_tag_message cfg gen (tag_of (supported_tags gen) k) body)"
| "emit cfg gen (p # ps) e acc =
     OUTCOME_TRY (callback (tag_of (supported_tags gen) (piece_kind p)) (append_raw_text (piece_text p) acc)
         (UTF16ToUTF8 (piece_code p)) kOutVarName)
       (\<lambda>acc. emit cfg gen ps e acc)"

section \<open>The steps of the engine\<close>

lemma ASCIIToUTF16_run_ok [run_simps]:
  "list_all is_ascii8 s \<Longrightarrow> ASCIIToUTF16_run d s = Ret (ASCIIToUTF16 s)"
  by (simp add: ASCIIToUTF16_run_def ASCIIToUTF16_def IsStringASCII_at_iff)

lemma length_ASCIIToUTF16 [simp]: "length (ASCIIToUTF16 s) = length s"
  by (simp add: ASCIIToUTF16_def)

lemma ASCIIToUTF16_empty [simp]: "ASCIIToUTF16 s = [] \<longleftrightarrow> s = []"
  by (simp add: ASCIIToUTF16_def)

lemma pair_tag_ok_texts [run_simps]:
  assumes "pair_tag_ok start tag"
  shows "tag_attr_with_closing cfg (open_tag tag) 0 = Ret (prefix_text tag)"
    and "tag_to_string cfg (open_tag tag) 0 0 = Ret (start_text tag)"
    and "i < length (tag_opening (close_tag tag)) \<Longrightarrow>
      tag_to_string cfg (close_tag tag) i 0 = Ret (close_texts tag ! i)"
  using assms
  by (auto simp: pair_tag_ok_def tag_attr_with_closing_def tag_to_string_def DCHECK_def vec_at_def
      prefix_text_def start_text_def close_texts_def hd_conv_nth)

lemma length_close_texts [simp]: "length (close_texts tag) = length (tag_opening (close_tag tag))"
  by (simp add: close_texts_def)

lemma performDebugChecks_ok: "tags_ok tags \<Longrightarrow> performDebugChecks cfg tags = success ()"
  by (simp add: tags_ok_def kinds_def pair_tag_ok_def performDebugChecks_def opening_is_start_def run_and_def)

text \<open>The string that remains is a suffix of the source, and the position counts what was consumed.\<close>

definition at_suffix :: "Generator \<Rightarrow> string16 \<Rightarrow> position \<Rightarrow> bool" where
  "at_suffix gen s pos \<longleftrightarrow>
     length s \<le> length (original_str gen) \<and> length (original_str gen) < 2 ^ 63 \<and>
     index pos = int (length (original_str gen)) - int (length s) - 1"

lemma at_suffix_size: "at_suffix gen s pos \<Longrightarrow> length s < 2 ^ 64 \<and> length (original_str gen) < 2 ^ 63"
  by (simp add: at_suffix_def)

lemma at_suffix_drop:
  "at_suffix gen s pos \<Longrightarrow> n \<le> length s \<Longrightarrow> at_suffix gen (drop n s) (pos\<lparr>index := index pos + int n\<rparr>)"
  by (auto simp: at_suffix_def)

lemma encloseTag_eval:
  assumes "at_suffix gen s pos" "list_all is_ascii8 close"
  shows "encloseTag cfg gen s pos start close =
    (case str_find (ASCIIToUTF16 close) s of
       None \<Rightarrow> failure UNCLOSED_TAG (''can'' @ [CHR 0x60] @ ''t find closing tag '' @ close @
         '' after starting tag '' @ start @ '' ('' @ FILE cfg @ '')'' @
         UTF16ToUTF8 (highlight_text (original_str gen) (index pos)))
     | Some m \<Rightarrow> success (take m s, drop (m + length close) s, pos\<lparr>index := index pos + int (m + length close)\<rparr>))"
proof (cases "str_find (ASCIIToUTF16 close) s")
  case None
  with assms show ?thesis
    using at_suffix_size [OF assms(1)]
    by (simp add: encloseTag_def run_simps ErrorDetails_UnclosedTag_def highlightTextPos_text)
next
  case (Some m)
  then have "m + length close \<le> length s" using str_find_Some by fastforce
  with Some assms show ?thesis
    using at_suffix_size [OF assms(1)] by (simp add: encloseTag_def run_simps del: of_nat_add)
qed

lemma handleTag_loop_eval:
  assumes ok: "pair_tag_ok start tag" and at: "at_suffix gen s pos"
    and i: "i < length (tag_opening (close_tag tag))"
  shows "handleTag_loop cfg gen s tag pos acc (start_text tag) i =
    (case List.find (\<lambda>c. occurs c s) (drop i (map ASCIIToUTF16 (close_texts tag))) of
       None \<Rightarrow> failure UNCLOSED_TAG (''can'' @ [CHR 0x60] @ ''t find closing tag '' @ last (close_texts tag) @
         '' after starting tag '' @ start_text tag @ '' ('' @ FILE cfg @ '')'' @
         UTF16ToUTF8 (highlight_text (original_str gen) (index pos)))
     | Some c \<Rightarrow>
         OUTCOME_TRY (callback tag acc (UTF16ToUTF8 (take (the (str_find c s)) s)) kOutVarName)
           (\<lambda>acc. success (drop (the (str_find c s) + length c) s,
              pos\<lparr>index := index pos + int (the (str_find c s) + length c)\<rparr>, acc)))"
  using i
proof (induction "length (tag_opening (close_tag tag)) - i" arbitrary: i rule: less_induct)
  case less
  let ?close = "close_texts tag ! i"
  have asc: "list_all is_ascii8 ?close"
    using ok less.prems by (auto simp: pair_tag_ok_def list_all_iff)
  have drop: "drop i (map ASCIIToUTF16 (close_texts tag)) =
      ASCIIToUTF16 ?close # drop (Suc i) (map ASCIIToUTF16 (close_texts tag))"
    using less.prems by (simp add: Cons_nth_drop_Suc [symmetric] drop_map)
  note step = handleTag_loop.simps [of cfg gen s tag pos acc "start_text tag" i]
  show ?case
  proof (cases "str_find (ASCIIToUTF16 ?close) s")
    case (Some m)
    then show ?thesis
      using less.prems unfolding step drop
      by (simp add: pair_tag_ok_texts [OF ok] encloseTag_eval [OF at asc] occurs_def)
  next
    case None
    show ?thesis
    proof (cases "Suc i < length (tag_opening (close_tag tag))")
      case True
      moreover from this have "i < length (tag_opening (close_tag tag)) - Suc 0" by simp
      ultimately show ?thesis
        using less.hyps [of "Suc i"] None less.prems unfolding step drop
        by (simp add: pair_tag_ok_texts [OF ok] encloseTag_eval [OF at asc] occurs_def)
    next
      case False
      then have l: "i = length (close_texts tag) - 1" using less.prems by simp
      then have "last (close_texts tag) = ?close" using less.prems by (metis last_conv_nth length_0_conv length_close_texts not_less0)
      moreover have "drop (Suc i) (map ASCIIToUTF16 (close_texts tag)) = []" using l by simp
      moreover have "\<not> i < length (tag_opening (close_tag tag)) - Suc 0" using False by simp
      ultimately show ?thesis
        using None less.prems unfolding step drop
        by (simp add: pair_tag_ok_texts [OF ok] encloseTag_eval [OF at asc] occurs_def)
    qed
  qed
qed

lemma try_tag_eval:
  assumes ok: "pair_tag_ok start tag" and at: "at_suffix gen s pos"
  shows "try_tag cfg gen tag s pos acc otherwise =
    (if prefix (ASCIIToUTF16 (prefix_text tag)) s then
       handleTag_loop cfg gen (drop (length (prefix_text tag)) s) tag
         (pos\<lparr>index := index pos + int (length (prefix_text tag))\<rparr>) acc (start_text tag) 0
     else otherwise)"
proof -
  have "list_all is_ascii8 (prefix_text tag)" using ok by (simp add: pair_tag_ok_def)
  moreover have "prefix (ASCIIToUTF16 (prefix_text tag)) s \<Longrightarrow> length (prefix_text tag) \<le> length s"
    using prefix_length_le by fastforce
  ultimately show ?thesis
    using at_suffix_size [OF at]
    by (simp add: try_tag_def pair_tag_ok_texts [OF ok] run_simps StartsWithT_sensitive handleTag_def)
qed

lemma tags_ok_tag: "tags_ok tags \<Longrightarrow> pair_tag_ok (openTagStart tags) (tag_of tags k)"
  by (cases k) (simp_all add: tags_ok_def kinds_def)

text \<open>The chain of \<open>handleTagStart\<close> picks the first tag whose prefix follows.\<close>

definition tag_result ::
  "build \<Rightarrow> Generator \<Rightarrow> string16 \<Rightarrow> position \<Rightarrow> string \<Rightarrow> kind \<Rightarrow> (string16 \<times> position \<times> string) outcome run" where
  "tag_result cfg gen s pos acc k =
     (let tag = tag_of (supported_tags gen) k
      in handleTag_loop cfg gen (drop (length (prefix_text tag)) s) tag
           (pos\<lparr>index := index pos + int (length (prefix_text tag))\<rparr>) acc (start_text tag) 0)"

lemma handleTagStart_find:
  assumes "tags_ok (supported_tags gen)" "at_suffix gen s pos"
  shows "handleTagStart cfg gen s pos acc =
    (case List.find (\<lambda>k. prefix (lang_prefix (language_of (supported_tags gen)) k) s) kinds of
       None \<Rightarrow> failure UNCLOSED_TAG (unknown_tag_message cfg gen s)
     | Some k \<Rightarrow> tag_result cfg gen s pos acc k)"
proof -
  have "run_bind (ErrorDetails_UnknownTag cfg (original_str gen) pos (chars (openTagStart (supported_tags gen))))
      (\<lambda>details. failure UNCLOSED_TAG details) =
      (failure UNCLOSED_TAG (unknown_tag_message cfg gen s) :: (string16 \<times> position \<times> string) outcome run)"
    using at_suffix_size [OF assms(2)] assms(2)
    by (simp add: ErrorDetails_UnknownTag_def highlightTextPos_text unknown_tag_message_def at_suffix_def)
  moreover note ok = tags_ok_tag [OF assms(1)]
  ultimately show ?thesis
    using try_tag_eval [OF ok [of Line] assms(2)] try_tag_eval [OF ok [of Block] assms(2)]
      try_tag_eval [OF ok [of Raw] assms(2)] try_tag_eval [OF ok [of As_string] assms(2)]
      try_tag_eval [OF ok [of Include] assms(2)]
    by (simp add: handleTagStart_def kinds_def language_of_def tag_result_def Let_def)
qed

lemma int_length_drop: "n \<le> length xs \<Longrightarrow> int n + int (length (drop n xs)) = int (length xs)"
  by simp

lemma tag_result_eval:
  assumes "tags_ok (supported_tags gen)" "at_suffix gen s pos"
    and "prefix (lang_prefix (language_of (supported_tags gen)) k) s"
  shows "tag_result cfg gen s pos acc k =
    (let lang = language_of (supported_tags gen); tag = tag_of (supported_tags gen) k;
         body = drop (length (lang_prefix lang k)) s
     in case List.find (\<lambda>c. occurs c body) (lang_closers lang k) of
       None \<Rightarrow> failure UNCLOSED_TAG (unclosed_tag_message cfg gen tag body)
     | Some c \<Rightarrow>
         OUTCOME_TRY (callback tag acc (UTF16ToUTF8 (take (the (str_find c body)) body)) kOutVarName)
           (\<lambda>acc. success (drop (the (str_find c body) + length c) body,
              pos\<lparr>index := int (length (original_str gen)) -
                   int (length (drop (the (str_find c body) + length c) body)) - 1\<rparr>, acc)))"
proof -
  let ?tag = "tag_of (supported_tags gen) k" and ?lang = "language_of (supported_tags gen)"
  let ?body = "drop (length (prefix_text ?tag)) s"
  let ?pos = "pos\<lparr>index := index pos + int (length (prefix_text ?tag))\<rparr>"
  note ok = tags_ok_tag [OF assms(1), of k]
  have pre: "length (lang_prefix ?lang k) = length (prefix_text ?tag)" by (simp add: language_of_def)
  then have "length (prefix_text ?tag) \<le> length s" using assms(3) prefix_length_le by fastforce
  then have at: "at_suffix gen ?body ?pos" by (rule at_suffix_drop [OF assms(2)])
  have len: "0 < length (tag_opening (close_tag ?tag))" using ok by (simp add: pair_tag_ok_def)
  have found: "int (the (str_find c ?body) + length c) + int (length (drop (the (str_find c ?body) + length c) ?body)) =
      int (length ?body)" if "List.find (\<lambda>c. occurs c ?body) (lang_closers ?lang k) = Some c" for c
  proof -
    have "occurs c ?body" using find_SomeD [OF that] by simp
    then obtain m where m: "str_find c ?body = Some m" by (auto simp: occurs_def)
    then have "m + length c \<le> length ?body" using str_find_Some by blast
    from int_length_drop [OF this] m show ?thesis by (simp only: option.sel)
  qed
  have idx: "index ?pos = int (length (original_str gen)) - int (length ?body) - 1"
    using at by (simp add: at_suffix_def)
  show ?thesis
  proof (cases "List.find (\<lambda>c. occurs c ?body) (lang_closers ?lang k)")
    case None
    then have "List.find (\<lambda>c. occurs c ?body) (drop 0 (map ASCIIToUTF16 (close_texts ?tag))) = None"
      by (simp add: language_of_def)
    then show ?thesis
      unfolding tag_result_def Let_def handleTag_loop_eval [OF ok at len] pre None unclosed_tag_message_def idx
      by (simp only: option.case)
  next
    case (Some c)
    then have c: "List.find (\<lambda>c. occurs c ?body) (drop 0 (map ASCIIToUTF16 (close_texts ?tag))) = Some c"
      by (simp add: language_of_def)
    have "pos\<lparr>index := index ?pos + int (the (str_find c ?body) + length c)\<rparr> =
        pos\<lparr>index := int (length (original_str gen)) -
                   int (length (drop (the (str_find c ?body) + length c) ?body)) - 1\<rparr>"
      using found [OF Some] idx by (intro position.equality) simp_all
    then show ?thesis
      unfolding tag_result_def Let_def handleTag_loop_eval [OF ok at len] pre Some c
      by simp
  qed
qed

section \<open>The engine refines the specification\<close>

lemma open_text_ok:
  assumes "tags_ok (supported_tags gen)"
  shows "lang_open (language_of (supported_tags gen)) = ASCIIToUTF16 (chars (openTagStart (supported_tags gen)))"
    and "lang_open (language_of (supported_tags gen)) \<noteq> []"
    and "list_all is_ascii8 (chars (openTagStart (supported_tags gen)))"
  using assms by (auto simp: language_of_def tags_ok_def)

text \<open>One iteration of the loop that finds an opening.\<close>

lemma generate_loop_found:
  assumes ok: "tags_ok (supported_tags gen)" and "i < max_iterations" "length s < 2 ^ 64"
    and found: "str_find (lang_open (language_of (supported_tags gen))) s = Some n"
  shows "generate_loop cfg gen i s pos acc =
    (let m = n + length (lang_open (language_of (supported_tags gen)))
     in OUTCOME_TRY (handleTagStart cfg gen (drop m s) (pos\<lparr>index := index pos + int m\<rparr>) (append_raw_text (take n s) acc))
          (\<lambda>(s, pos, acc). generate_loop cfg gen (i + 1) s pos acc))"
  using assms str_find_Some [OF found] open_text_ok [OF ok]
  by (simp add: generate_loop.simps [of cfg gen i s pos acc] run_simps Let_def)

lemma drop_open_shorter:
  assumes "p \<noteq> []" "str_find p s = Some n"
  shows "length (drop (n + length p) s) < length s"
proof -
  have "0 < length p" "n + length p \<le> length s" using assms str_find_Some [OF assms(2)] by auto
  then show ?thesis unfolding length_drop by linarith
qed

lemma generate_loop_emit:
  assumes ok: "tags_ok (supported_tags gen)" and at: "at_suffix gen s pos"
    and i: "i + int (length s) < max_iterations"
  shows "generate_loop cfg gen i s pos acc =
    (case parse (language_of (supported_tags gen)) s of (ps, e) \<Rightarrow> emit cfg gen ps e acc)"
  using at i
proof (induction "length s" arbitrary: i s pos acc rule: less_induct)
  case less
  let ?lang = "language_of (supported_tags gen)"
  note open_ok = open_text_ok [OF ok]
  have iter: "i < max_iterations" using less.prems(2) by simp
  have size: "length s < 2 ^ 64" using at_suffix_size [OF less.prems(1)] by simp
  show ?case
  proof (cases "str_find (lang_open ?lang) s")
    case None
    then show ?thesis
      using iter size open_ok
      by (simp add: generate_loop.simps [of cfg gen i s pos acc] parse.simps [of ?lang s] run_simps)
  next
    case (Some n)
    let ?rest = "drop (n + length (lang_open ?lang)) s"
    let ?pos = "pos\<lparr>index := index pos + int (n + length (lang_open ?lang))\<rparr>"
    have at': "at_suffix gen ?rest ?pos"
      using str_find_Some [OF Some] by (intro at_suffix_drop [OF less.prems(1)]) simp
    note unfolded = generate_loop_found [OF ok iter size Some, unfolded Let_def]
    show ?thesis
    proof (cases "List.find (\<lambda>k. prefix (lang_prefix ?lang k) ?rest) kinds")
      case None
      show ?thesis
        unfolding unfolded handleTagStart_find [OF ok at'] None option.case
          parse_unknown [OF open_ok(2) Some refl None] by simp
    next
      case k: (Some k)
      let ?tag = "tag_of (supported_tags gen) k" and ?body = "drop (length (lang_prefix ?lang k)) ?rest"
      note k_prefix = find_SomeD [OF k, THEN conjunct1]
      note res = tag_result_eval [OF ok at' k_prefix, of cfg, unfolded Let_def]
      show ?thesis
      proof (cases "List.find (\<lambda>c. occurs c ?body) (lang_closers ?lang k)")
        case None
        show ?thesis
          unfolding unfolded handleTagStart_find [OF ok at'] k option.case res None
            parse_unclosed [OF open_ok(2) Some refl k refl None] by simp
      next
        case c: (Some c)
        let ?m = "the (str_find c ?body)"
        let ?next = "drop (?m + length c) ?body"
        let ?pos' = "?pos\<lparr>index := int (length (original_str gen)) - int (length ?next) - 1\<rparr>"
        have shorter: "length ?next < length s"
          using drop_open_shorter [OF open_ok(2) Some] by simp
        have "at_suffix gen ?next ?pos'"
          using less.prems(1) shorter by (simp add: at_suffix_def)
        moreover have "i + 1 + int (length ?next) < max_iterations" using less.prems(2) shorter by simp
        ultimately have IH: "generate_loop cfg gen (i + 1) ?next ?pos' acc' =
            (case parse ?lang ?next of (ps, e) \<Rightarrow> emit cfg gen ps e acc')" for acc'
          by (rule less.hyps [OF shorter])
        obtain ps e where pe: "parse ?lang ?next = (ps, e)" by fastforce
        show ?thesis
          unfolding unfolded handleTagStart_find [OF ok at'] k option.case res c
            parse_piece [OF open_ok(2) Some refl k refl c refl pe] OUTCOME_TRY_assoc
          by (simp only: OUTCOME_TRY_success prod.case IH pe emit.simps piece.simps)
      qed
    qed
  qed
qed

lemma generateFromString_emit:
  assumes "tags_ok (supported_tags gen)" "original_str gen \<noteq> []" "length (original_str gen) < 2 ^ 63"
  shows "generateFromString cfg gen =
    (case parse (language_of (supported_tags gen)) (original_str gen) of (ps, e) \<Rightarrow> emit cfg gen ps e [])"
proof -
  have "at_suffix gen (original_str gen) \<lparr>index = -1\<rparr>" using assms(3) by (simp add: at_suffix_def)
  moreover have "0 + int (length (original_str gen)) < max_iterations"
    using assms(3) by (simp add: max_iterations_def)
  ultimately show ?thesis
    using generate_loop_emit [OF assms(1)] assms(2)
    by (simp add: generateFromString_def performDebugChecks_ok [OF assms(1)] OUTCOME_TRY_def)
qed

section \<open>Which templates a source can be\<close>

lemma str_find_cut: "str_find p (a @ p @ b) = Some (length a) \<longleftrightarrow> str_find p (a @ p) = Some (length a)"
proof -
  have "take (length p) (drop m (a @ p @ b)) = take (length p) (drop m (a @ p))" if "m < length a" for m
    using that by simp
  then show ?thesis unfolding str_find_Some_iff by auto
qed

lemma find_takeWhile:
  "List.find P xs = Some x \<longleftrightarrow> x \<in> set xs \<and> P x \<and> list_all (\<lambda>y. \<not> P y) (takeWhile (\<lambda>y. y \<noteq> x) xs)"
  by (induction xs) auto

text \<open>
  A canonical template: no text hides an earlier opening, no tag could be taken for one that is tried
  before it, and every piece of code ends at the first closing tag that the engine looks for.
\<close>

fun canonical :: "language \<Rightarrow> piece list \<Rightarrow> string16 \<Rightarrow> bool" where
  "canonical lang [] t \<longleftrightarrow> str_find (lang_open lang) t = None"
| "canonical lang (p # ps) t \<longleftrightarrow>
     (let body = piece_code p @ piece_closer p @ print_template lang ps (Tail t);
          k = piece_kind p; c = piece_closer p
      in str_find (lang_open lang) (piece_text p @ lang_open lang) = Some (length (piece_text p)) \<and>
         list_all (\<lambda>j. \<not> prefix (lang_prefix lang j) (lang_prefix lang k @ body)) (takeWhile (\<lambda>j. j \<noteq> k) kinds) \<and>
         c \<in> set (lang_closers lang k) \<and>
         list_all (\<lambda>d. \<not> occurs d body) (takeWhile (\<lambda>d. d \<noteq> c) (lang_closers lang k)) \<and>
         str_find c (piece_code p @ c) = Some (length (piece_code p)) \<and>
         canonical lang ps t)"

lemma kinds_all [simp]: "k \<in> set kinds"
  by (cases k) (simp_all add: kinds_def)

lemma parse_print:
  assumes "lang_open lang \<noteq> []"
  shows "canonical lang ps t \<Longrightarrow> parse lang (print_template lang ps (Tail t)) = (ps, Tail t)"
proof (induction ps)
  case Nil
  with assms show ?case by (simp add: print_template_def parse_tail)
next
  case (Cons p ps)
  let ?k = "piece_kind p" and ?c = "piece_closer p" and ?next = "print_template lang ps (Tail t)"
  let ?body = "piece_code p @ ?c @ ?next"
  let ?rest = "lang_prefix lang ?k @ ?body"
  let ?s = "print_template lang (p # ps) (Tail t)"
  from Cons.prems have can: "str_find (lang_open lang) (piece_text p @ lang_open lang) = Some (length (piece_text p))"
    "list_all (\<lambda>j. \<not> prefix (lang_prefix lang j) ?rest) (takeWhile (\<lambda>j. j \<noteq> ?k) kinds)"
    "?c \<in> set (lang_closers lang ?k)"
    "list_all (\<lambda>d. \<not> occurs d ?body) (takeWhile (\<lambda>d. d \<noteq> ?c) (lang_closers lang ?k))"
    "str_find ?c (piece_code p @ ?c) = Some (length (piece_code p))" "canonical lang ps t"
    by (simp_all add: Let_def)
  have s: "?s = piece_text p @ lang_open lang @ ?rest" by (simp add: print_template_def print_piece_def)
  have n: "str_find (lang_open lang) ?s = Some (length (piece_text p))"
    using can(1) unfolding s str_find_cut .
  have k: "List.find (\<lambda>k. prefix (lang_prefix lang k) ?rest) kinds = Some ?k"
    unfolding find_takeWhile using can(2) by simp
  have m: "str_find ?c ?body = Some (length (piece_code p))"
    using can(5) unfolding str_find_cut .
  then have c: "List.find (\<lambda>c. occurs c ?body) (lang_closers lang ?k) = Some ?c"
    unfolding find_takeWhile using can(3,4) by (simp add: occurs_def)
  have next_: "drop (length (piece_code p) + length ?c) ?body = ?next" by simp
  have "parse lang ?s = (\<lparr>piece_text = take (length (piece_text p)) ?s, piece_kind = ?k,
      piece_code = take (length (piece_code p)) ?body, piece_closer = ?c\<rparr> # ps, Tail t)"
    by (rule parse_piece [OF assms n _ k _ c]) (simp_all add: s m next_ Cons.IH [OF can(6)])
  then show ?case by (simp add: s)
qed

lemma parse_canonical:
  assumes "lang_open lang \<noteq> []"
  shows "parse lang s = (ps, Tail t) \<Longrightarrow> canonical lang ps t"
  using assms
proof (induction lang s arbitrary: ps rule: parse.induct)
  case (1 lang s)
  note ne = "1.prems"(2)
  show ?case
  proof (cases "str_find (lang_open lang) s")
    case None
    with parse_tail [OF ne None] "1.prems" show ?thesis by simp
  next
    case (Some n)
    define rest where "rest = drop (n + length (lang_open lang)) s"
    show ?thesis
    proof (cases "List.find (\<lambda>k. prefix (lang_prefix lang k) rest) kinds")
      case None
      with parse_unknown [OF ne Some rest_def None] "1.prems" show ?thesis by simp
    next
      case k: (Some k)
      define body where "body = drop (length (lang_prefix lang k)) rest"
      have rest: "rest = lang_prefix lang k @ body"
        using find_SomeD [OF k] by (auto simp: body_def prefix_def)
      show ?thesis
      proof (cases "List.find (\<lambda>c. occurs c body) (lang_closers lang k)")
        case None
        with parse_unclosed [OF ne Some rest_def k body_def None] "1.prems" show ?thesis by simp
      next
        case c: (Some c)
        then obtain m where m: "str_find c body = Some m" using find_SomeD by (fastforce simp: occurs_def)
        obtain ps' e' where p: "parse lang (drop (m + length c) body) = (ps', e')" by fastforce
        have "parse lang s = (\<lparr>piece_text = take n s, piece_kind = k, piece_code = take m body, piece_closer = c\<rparr> # ps', e')"
          by (rule parse_piece [OF ne Some rest_def k body_def c]) (simp_all add: m p)
        with "1.prems" have ps: "ps = \<lparr>piece_text = take n s, piece_kind = k, piece_code = take m body, piece_closer = c\<rparr> # ps'"
          and e: "e' = Tail t" by auto
        have can: "canonical lang ps' t"
          using "1.IH" [OF ne Some rest_def k body_def c] m p ne e by simp
        have next_: "print_template lang ps' (Tail t) = drop (m + length c) body"
          using parse_lossless [OF p] e by simp
        have b: "body = take m body @ c @ drop (m + length c) body" and lb: "length (take m body) = m"
          using str_find_Some_split [OF m] str_find_Some [OF m] by auto
        have sp: "s = take n s @ lang_open lang @ rest" and ls: "length (take n s) = n"
          using str_find_Some_split [OF Some] str_find_Some [OF Some] by (auto simp: rest_def)
        have "str_find (lang_open lang) (take n s @ lang_open lang) = Some (length (take n s))"
          using Some str_find_cut [of "lang_open lang" "take n s" rest] sp ls by simp
        moreover have "str_find c (take m body @ c) = Some (length (take m body))"
          using m str_find_cut [of c "take m body" "drop (m + length c) body"] b lb by simp
        moreover have "list_all (\<lambda>j. \<not> prefix (lang_prefix lang j) (lang_prefix lang k @ body)) (takeWhile (\<lambda>j. j \<noteq> k) kinds)"
          using k unfolding find_takeWhile rest by blast
        moreover have "c \<in> set (lang_closers lang k)" "list_all (\<lambda>d. \<not> occurs d body) (takeWhile (\<lambda>d. d \<noteq> c) (lang_closers lang k))"
          using c unfolding find_takeWhile by blast+
        ultimately show ?thesis
          using can unfolding ps by (simp add: next_ b [symmetric] Let_def)
      qed
    qed
  qed
qed

lemma parse_iff:
  assumes "lang_open lang \<noteq> []"
  shows "parse lang s = (ps, Tail t) \<longleftrightarrow> canonical lang ps t \<and> s = print_template lang ps (Tail t)"
  using parse_print [OF assms] parse_canonical [OF assms] parse_lossless by blast

section \<open>Callbacks that append\<close>

text \<open>
  The generated text of a piece, when the callback of a tag only appends to the result what it renders
  from the code between the tags.
\<close>

abbreviation raw_code :: "string16 \<Rightarrow> string" where
  "raw_code t \<equiv> append_raw_text t []"

lemma append_raw_text_append: "append_raw_text t acc = acc @ raw_code t"
  by (simp add: append_raw_text_def)

fun render_all :: "(kind \<Rightarrow> string \<Rightarrow> string outcome run) \<Rightarrow> piece list \<Rightarrow> string outcome run" where
  "render_all render [] = success []"
| "render_all render (p # ps) =
     OUTCOME_TRY (render (piece_kind p) (UTF16ToUTF8 (piece_code p))) (\<lambda>s.
     OUTCOME_TRY (render_all render ps) (\<lambda>s'. success (raw_code (piece_text p) @ s @ s')))"

locale appending_tags =
  fixes tags :: GeneratorTags and render :: "kind \<Rightarrow> string \<Rightarrow> string outcome run"
  assumes tags_ok: "tags_ok tags"
    and callback_append: "callback (tag_of tags k) acc code kOutVarName =
      OUTCOME_TRY (render k code) (\<lambda>s. success (acc @ s))"
begin

lemma open_nonempty: "lang_open (language_of tags) \<noteq> []"
  using tags_ok by (simp add: tags_ok_def language_of_def)

lemma emit_append:
  "supported_tags gen = tags \<Longrightarrow>
     emit cfg gen ps e acc = OUTCOME_TRY (emit cfg gen ps e []) (\<lambda>out. success (acc @ out))"
proof (induction ps arbitrary: acc)
  case Nil
  then show ?case by (cases e) (simp_all add: append_raw_text_append [of _ acc])
next
  case (Cons p ps)
  have "emit cfg gen ps e (a @ b) = OUTCOME_TRY (emit cfg gen ps e b) (\<lambda>out. success (a @ out))" for a b
    using Cons.IH [OF Cons.prems, of "a @ b"] Cons.IH [OF Cons.prems, of b]
    by (simp add: OUTCOME_TRY_assoc)
  then show ?case
    using Cons.prems
    by (simp add: callback_append OUTCOME_TRY_assoc append_raw_text_append [of _ acc])
qed

lemma emit_render:
  "supported_tags gen = tags \<Longrightarrow>
     emit cfg gen ps (Tail t) acc = OUTCOME_TRY (render_all render ps) (\<lambda>s. success (acc @ s @ raw_code t))"
proof (induction ps arbitrary: acc)
  case Nil
  then show ?case by (simp add: append_raw_text_append [of _ acc])
next
  case (Cons p ps)
  then show ?case
    by (simp add: callback_append OUTCOME_TRY_assoc append_raw_text_append [of _ acc])
qed

lemma emit_success_tail:
  "emit cfg gen ps e acc = success out \<Longrightarrow> \<exists>t. e = Tail t"
  by (induction ps arbitrary: acc) (cases e; auto simp: run_simps)+

text \<open>The engine succeeds exactly on the canonical templates whose callbacks all succeed.\<close>

lemma generate_success_iff:
  assumes "supported_tags gen = tags" "original_str gen \<noteq> []" "length (original_str gen) < 2 ^ 63"
  shows "generateFromString cfg gen = success out \<longleftrightarrow>
    (\<exists>ps t body. canonical (language_of tags) ps t \<and>
       original_str gen = print_template (language_of tags) ps (Tail t) \<and>
       render_all render ps = success body \<and> out = body @ raw_code t)"
proof -
  obtain ps e where pe: "parse (language_of tags) (original_str gen) = (ps, e)" by fastforce
  have gen: "generateFromString cfg gen = emit cfg gen ps e []"
    using generateFromString_emit [of gen cfg] assms tags_ok pe by simp
  show ?thesis
  proof
    assume "generateFromString cfg gen = success out"
    with gen obtain t where e: "e = Tail t" using emit_success_tail by metis
    with pe parse_iff [OF open_nonempty] have "canonical (language_of tags) ps t"
      "original_str gen = print_template (language_of tags) ps (Tail t)" by auto
    moreover have "OUTCOME_TRY (render_all render ps) (\<lambda>s. success ([] @ s @ raw_code t)) = success out"
      using gen e \<open>generateFromString cfg gen = success out\<close> emit_render [OF assms(1), of cfg ps t "[]"] by simp
    then obtain body where "render_all render ps = success body" "out = body @ raw_code t"
      unfolding OUTCOME_TRY_eq_success by auto
    ultimately show "\<exists>ps t body. canonical (language_of tags) ps t \<and>
       original_str gen = print_template (language_of tags) ps (Tail t) \<and>
       render_all render ps = success body \<and> out = body @ raw_code t" by blast
  next
    assume "\<exists>ps t body. canonical (language_of tags) ps t \<and>
       original_str gen = print_template (language_of tags) ps (Tail t) \<and>
       render_all render ps = success body \<and> out = body @ raw_code t"
    then obtain ps' t body where h: "canonical (language_of tags) ps' t"
      "original_str gen = print_template (language_of tags) ps' (Tail t)"
      "render_all render ps' = success body" "out = body @ raw_code t" by blast
    with parse_iff [OF open_nonempty] have "parse (language_of tags) (original_str gen) = (ps', Tail t)" by blast
    with pe have "ps' = ps" "e = Tail t" by auto
    with h gen show "generateFromString cfg gen = success out"
      by (simp add: emit_render [OF assms(1)])
  qed
qed

text \<open>A source that is not canonical is rejected with an error, never with an exception.\<close>

lemma generate_total:
  assumes "supported_tags gen = tags" "length (original_str gen) < 2 ^ 63"
    and render: "\<And>p. p \<in> set (fst (parse (language_of tags) (original_str gen))) \<Longrightarrow>
      \<exists>r. render (piece_kind p) (UTF16ToUTF8 (piece_code p)) = Ret r"
  shows "\<exists>r. generateFromString cfg gen = Ret r"
proof (cases "original_str gen = []")
  case True
  then show ?thesis
    using performDebugChecks_ok [OF tags_ok, of cfg] assms(1) by (simp add: generateFromString_def)
next
  case False
  have emit: "(\<And>p. p \<in> set ps \<Longrightarrow> \<exists>r. render (piece_kind p) (UTF16ToUTF8 (piece_code p)) = Ret r) \<Longrightarrow>
      \<exists>r. emit cfg gen ps e acc = Ret r" for ps e acc
  proof (induction ps arbitrary: acc)
    case Nil
    then show ?case by (cases e) auto
  next
    case (Cons p ps)
    then obtain r where "render (piece_kind p) (UTF16ToUTF8 (piece_code p)) = Ret r" by fastforce
    then show ?case using Cons assms(1) by (cases r) (auto simp: callback_append)
  qed
  obtain ps e where "parse (language_of tags) (original_str gen) = (ps, e)" by fastforce
  with emit [of ps e "[]"] render show ?thesis
    using generateFromString_emit [of gen cfg] assms(1,2) tags_ok False by simp
qed

end

section \<open>Properties of the engine\<close>

text \<open>
  C1: for every set of well-formed tags and every callbacks, the engine (string searches, mutable rest,
  position, loop counter, attempts at several closing tags) computes exactly the specification: parse
  the source into pieces, then run the callbacks in order. Errors included: the texts of the errors name
  the position at which the source was given up.
\<close>

theorem engine_refines_specification:
  assumes "tags_ok (supported_tags gen)" "original_str gen \<noteq> []" "length (original_str gen) < 2 ^ 63"
  shows "generateFromString cfg gen =
    (let (ps, e) = parse (language_of (supported_tags gen)) (original_str gen) in emit cfg gen ps e [])"
  using generateFromString_emit [OF assms] by simp

definition echo_tag :: "string \<Rightarrow> string \<Rightarrow> pair_tag" where
  "echo_tag a c =
     \<lparr>open_tag = \<lparr>tag_opening = [CStr 1 ''<<''], tag_attrs = a, tag_closing = [[]]\<rparr>,
      close_tag = \<lparr>tag_opening = [CStr 2 c], tag_attrs = [], tag_closing = [''>>'']\<rparr>,
      callback = (\<lambda>acc code v. success (acc @ v @ ''='' @ code))\<rparr>"

definition echo_tags :: GeneratorTags where
  "echo_tags = \<lparr>openTagStart = CStr 1 ''<<'', code_block = echo_tag ''b'' ''B'', code_line = echo_tag ''l'' ''L'',
     code_append_raw = echo_tag ''r'' ''R'', code_append_as_string = echo_tag ''s'' ''S'',
     code_include = echo_tag ''i'' ''I''\<rparr>"

lemma echo_tags_ok: "tags_ok echo_tags"
  by (simp add: echo_tags_def echo_tag_def tags_ok_def kinds_def pair_tag_ok_def prefix_text_def close_texts_def)

theorem engine_refines_specification_witness:
  "generateFromString \<lparr>debug = True, FILE = ''f''\<rparr>
     \<lparr>generator_tags = echo_tags, original_str = ASCIIToUTF16 ''<<b1B>>''\<rparr> =
   success ([CHR 0x0A] @ ''cxtpl_output=1'' @ [CHR 0x0A])"
proof -
  let ?gen = "\<lparr>generator_tags = echo_tags, original_str = ASCIIToUTF16 ''<<b1B>>''\<rparr>"
  have "tags_ok (supported_tags ?gen)" by (simp add: supported_tags_def echo_tags_ok)
  from engine_refines_specification [OF this, of "\<lparr>debug = True, FILE = ''f''\<rparr>"]
  have "generateFromString \<lparr>debug = True, FILE = ''f''\<rparr> ?gen =
    (let (ps, e) = parse (language_of echo_tags) (ASCIIToUTF16 ''<<b1B>>'')
     in emit \<lparr>debug = True, FILE = ''f''\<rparr> ?gen ps e [])"
    by (simp add: supported_tags_def)
  also have "parse (language_of echo_tags) (ASCIIToUTF16 ''<<b1B>>'') =
      ([\<lparr>piece_text = [], piece_kind = Block, piece_code = ASCIIToUTF16 ''1'', piece_closer = ASCIIToUTF16 ''B>>''\<rparr>], Tail [])"
    by code_simp
  finally show ?thesis
    by (simp add: append_raw_text_def supported_tags_def echo_tags_def echo_tag_def UTF16ToUTF8_ASCII kOutVarName_def)
qed

text \<open>
  C3: parsing and printing are inverse on the sources of the engine: a source parses completely into given
  pieces and tail exactly when these form a canonical template and the source is their print, and then the engine
  runs exactly these pieces. So no character of a template is lost or invented, and the pieces are unique.
\<close>

theorem template_parse_print:
  assumes "tags_ok (supported_tags gen)" "original_str gen \<noteq> []" "length (original_str gen) < 2 ^ 63"
  shows "(parse (language_of (supported_tags gen)) (original_str gen) = (ps, Tail t) \<longleftrightarrow>
      canonical (language_of (supported_tags gen)) ps t \<and>
      original_str gen = print_template (language_of (supported_tags gen)) ps (Tail t)) \<and>
    (canonical (language_of (supported_tags gen)) ps t \<longrightarrow>
     original_str gen = print_template (language_of (supported_tags gen)) ps (Tail t) \<longrightarrow>
     generateFromString cfg gen = emit cfg gen ps (Tail t) [])"
proof -
  have "lang_open (language_of (supported_tags gen)) \<noteq> []"
    using assms(1) by (simp add: language_of_def tags_ok_def)
  then have iff: "parse (language_of (supported_tags gen)) (original_str gen) = (ps, Tail t) \<longleftrightarrow>
      canonical (language_of (supported_tags gen)) ps t \<and>
      original_str gen = print_template (language_of (supported_tags gen)) ps (Tail t)"
    by (rule parse_iff)
  moreover have "generateFromString cfg gen = emit cfg gen ps (Tail t) []"
    if "parse (language_of (supported_tags gen)) (original_str gen) = (ps, Tail t)"
    using generateFromString_emit [OF assms] that by simp
  ultimately show ?thesis by blast
qed

theorem template_parse_print_witness:
  "generateFromString \<lparr>debug = True, FILE = ''f''\<rparr>
     \<lparr>generator_tags = echo_tags, original_str = ASCIIToUTF16 ''x<<r1R>>y''\<rparr> =
   success (raw_code (ASCIIToUTF16 ''x'') @ ''cxtpl_output=1'' @ raw_code (ASCIIToUTF16 ''y''))"
proof -
  let ?gen = "\<lparr>generator_tags = echo_tags, original_str = ASCIIToUTF16 ''x<<r1R>>y''\<rparr>"
  let ?ps = "[\<lparr>piece_text = ASCIIToUTF16 ''x'', piece_kind = Raw, piece_code = ASCIIToUTF16 ''1'',
      piece_closer = ASCIIToUTF16 ''R>>''\<rparr>]"
  have tags: "supported_tags ?gen = echo_tags" by (simp add: supported_tags_def)
  have "canonical (language_of echo_tags) ?ps (ASCIIToUTF16 ''y'')" by code_simp
  moreover have "original_str ?gen = print_template (language_of echo_tags) ?ps (Tail (ASCIIToUTF16 ''y''))"
    by (simp only: Generator.simps) code_simp
  moreover have "original_str ?gen \<noteq> []" "length (original_str ?gen) < 2 ^ 63" by simp_all
  moreover have "tags_ok (supported_tags ?gen)" using echo_tags_ok by (simp only: tags)
  ultimately have "generateFromString \<lparr>debug = True, FILE = ''f''\<rparr> ?gen =
      emit \<lparr>debug = True, FILE = ''f''\<rparr> ?gen ?ps (Tail (ASCIIToUTF16 ''y'')) []"
    using template_parse_print [of ?gen ?ps "ASCIIToUTF16 ''y''"] by (simp only: tags simp_thms)
  moreover have "callback (code_append_raw echo_tags) = (\<lambda>acc code v. success (acc @ v @ ''='' @ code))"
    by (simp add: echo_tags_def echo_tag_def)
  ultimately show ?thesis by (simp add: append_raw_text_def tags UTF16ToUTF8_ASCII kOutVarName_def)
qed

text \<open>
  C34: the debug checks end the process unless every opening tag has one spelling, and then demand that
  these spellings are at the address of \<open>openTagStart\<close>; an equal text at another address is an error.
\<close>

theorem debug_checks_exact:
  "performDebugChecks cfg tags =
     (if \<exists>k \<in> set kinds. length (tag_opening (open_tag (tag_of tags k))) \<noteq> 1 then Terminated
      else if \<exists>k \<in> set kinds. map address (tag_opening (open_tag (tag_of tags k))) \<noteq> [address (openTagStart tags)]
      then failure UNKNOWN_TAG (''all opening tags must start with '' @ chars (openTagStart tags) @ '' ('' @ FILE cfg @ '')'')
      else success ())"
proof (cases "\<exists>k \<in> set kinds. length (tag_opening (open_tag (tag_of tags k))) \<noteq> 1")
  case True
  then show ?thesis by (auto simp: performDebugChecks_def kinds_def CHECK_def)
next
  case False
  then have one: "length (tag_opening (open_tag (tag_of tags k))) = 1" for k by (cases k) (auto simp: kinds_def)
  obtain a b c d e where "tag_opening (open_tag (code_line tags)) = [a]" "tag_opening (open_tag (code_block tags)) = [b]"
    "tag_opening (open_tag (code_append_raw tags)) = [c]" "tag_opening (open_tag (code_append_as_string tags)) = [d]"
    "tag_opening (open_tag (code_include tags)) = [e]"
    using one [of Line] one [of Block] one [of Raw] one [of As_string] one [of Include]
    by (auto simp: length_Suc_conv)
  then show ?thesis
    by (simp add: performDebugChecks_def kinds_def opening_is_start_def run_and_def)
qed

end
