(* ===== verification/Cxtpl_Charset.thy ===== *)
theory Cxtpl_Charset
  imports Base_Utf_Conversions Cxtpl_Errors
begin

text \<open>
  From the bytes of a file to UTF-16: the charset guess by byte order mark of
  \<open>ConvertResponseToUTF16\<close> (\<open>src/core/defaults/defaults.cpp\<close>) over \<open>CodepageToUTF16\<close>
  (\<open>third_party/chromium/base/i18n/icu_string_conversions.cc\<close>). The converters themselves are ICU's:
  opening one by name and running it are parameters.
\<close>

section \<open>The converters\<close>

datatype on_error = FAIL | SKIP | SUBSTITUTE

text \<open>
  \<open>ucnv_open\<close> says whether a converter of that name exists; \<open>ucnv_toUChars\<close> takes the name, the error
  handler, the room in the destination, the source and its length, and gives the units written and
  whether the status is a success.
\<close>

record icu =
  ucnv_open :: "string \<Rightarrow> bool"
  ucnv_toUChars :: "string \<Rightarrow> on_error \<Rightarrow> int \<Rightarrow> string \<Rightarrow> int \<Rightarrow> string16 \<times> bool"

text \<open>\<open>CodepageToUTF16\<close>: the return value and \<open>*utf16\<close>.\<close>

definition CodepageToUTF16 :: "icu \<Rightarrow> string \<Rightarrow> string \<Rightarrow> on_error \<Rightarrow> bool \<times> string16" where
  "CodepageToUTF16 conv encoded codepage_name on_error =
     (if \<not> ucnv_open conv codepage_name then (False, [])
      else
        let uchar_max_length = length encoded + 1;
            (units, ok) = ucnv_toUChars conv codepage_name on_error (int32_of_size uchar_max_length)
                            encoded (int32_of_size (length encoded))
        in if \<not> ok then (False, []) else (True, units))"

definition ConvertToUTF16WithSubstitutions :: "icu \<Rightarrow> string \<Rightarrow> string \<Rightarrow> bool \<times> string16" where
  "ConvertToUTF16WithSubstitutions conv txt charset = CodepageToUTF16 conv txt charset SUBSTITUTE"

section \<open>Guessing the charset\<close>

definition kCodepageLatin1 :: string where
  "kCodepageLatin1 = ''ISO-8859-1''"

definition kBomMappings :: "(string \<times> string) list" where
  "kBomMappings =
     [([CHR 0xFE, CHR 0xFF], ''utf-16be''),
      ([CHR 0xFF, CHR 0xFE], ''utf-16le''),
      ([CHR 0xEF, CHR 0xBB, CHR 0xBF], ''utf-8'')]"

lemma kBomMappings_charset: "(p, c) \<in> set kBomMappings \<Longrightarrow> c \<noteq> []"
  by (auto simp: kBomMappings_def)

text \<open>
  \<open>ConvertResponseToUTF16\<close>: what is written to the standard output, and \<open>*utf16\<close>. An empty charset is
  guessed by the first mapping whose mark starts the bytes; the mark is stripped.
\<close>

function ConvertResponseToUTF16 :: "icu \<Rightarrow> string \<Rightarrow> string \<Rightarrow> string \<times> string16" where
  "ConvertResponseToUTF16 conv charset bytes =
     (if charset = [] then
        (case List.find (\<lambda>(pref, _). piece_starts_with bytes pref) kBomMappings of
           Some (pref, bom_charset) \<Rightarrow>
             (let (out, utf16) = ConvertResponseToUTF16 conv bom_charset (drop (length pref) bytes)
              in (''detected charset '' @ pref @ '' '' @ bom_charset @ [CHR 0x0A] @ out, utf16))
         | None \<Rightarrow> ConvertResponseToUTF16 conv kCodepageLatin1 bytes)
      else ([], snd (ConvertToUTF16WithSubstitutions conv bytes charset)))"
  by pat_completeness auto
termination
  by (relation "measure (\<lambda>(_, charset, _). if charset = [] then 1 else 0)")
    (auto simp: find_Some_iff kCodepageLatin1_def dest!: nth_mem dest: kBomMappings_charset)

declare ConvertResponseToUTF16.simps [simp del]

section \<open>What the guess decides\<close>

text \<open>The mark that starts the bytes, with the charset it stands for; no mark is a prefix of another.\<close>

definition bom_of :: "string \<Rightarrow> (string \<times> string) option" where
  "bom_of bytes =
     (if prefix [CHR 0xFE, CHR 0xFF] bytes then Some ([CHR 0xFE, CHR 0xFF], ''utf-16be'')
      else if prefix [CHR 0xFF, CHR 0xFE] bytes then Some ([CHR 0xFF, CHR 0xFE], ''utf-16le'')
      else if prefix [CHR 0xEF, CHR 0xBB, CHR 0xBF] bytes then Some ([CHR 0xEF, CHR 0xBB, CHR 0xBF], ''utf-8'')
      else None)"

lemma find_bom: "List.find (\<lambda>(pref, _). piece_starts_with bytes pref) kBomMappings = bom_of bytes"
  by (simp add: kBomMappings_def bom_of_def piece_starts_with_iff)

lemma ConvertResponseToUTF16_charset:
  "charset \<noteq> [] \<Longrightarrow> ConvertResponseToUTF16 conv charset bytes =
     ([], snd (ConvertToUTF16WithSubstitutions conv bytes charset))"
  by (simp add: ConvertResponseToUTF16.simps)

lemma ConvertResponseToUTF16_guess:
  "snd (ConvertResponseToUTF16 conv [] bytes) =
     (case bom_of bytes of
        Some (pref, charset) \<Rightarrow> snd (ConvertToUTF16WithSubstitutions conv (drop (length pref) bytes) charset)
      | None \<Rightarrow> snd (ConvertToUTF16WithSubstitutions conv bytes kCodepageLatin1))"
proof (cases "bom_of bytes")
  case None
  then show ?thesis
    by (simp add: ConvertResponseToUTF16.simps [of conv "[]"] find_bom ConvertResponseToUTF16_charset kCodepageLatin1_def)
next
  case (Some pc)
  obtain pref charset where pc: "pc = (pref, charset)" by fastforce
  from Some have "charset \<noteq> []" unfolding pc by (auto simp: bom_of_def split: if_splits)
  with Some pc show ?thesis
    by (simp add: ConvertResponseToUTF16.simps [of conv "[]"] find_bom ConvertResponseToUTF16_charset case_prod_beta)
qed

section \<open>Documented behaviour of ISO-8859-1 and of UTF-8\<close>

text \<open>
  The converter of ISO-8859-1 maps each byte to the code unit of the same value. This is what the
  properties below suppose of ICU, for a source that fits the destination.
\<close>

definition latin1_decode :: "string \<Rightarrow> string16" where
  "latin1_decode bytes = map (\<lambda>c. ucast (byte c)) bytes"

definition icu_latin1 :: "icu \<Rightarrow> bool" where
  "icu_latin1 conv \<longleftrightarrow> ucnv_open conv kCodepageLatin1 \<and>
     (\<forall>m cap bytes. int (length bytes) < cap \<longrightarrow> cap < 2 ^ 31 \<longrightarrow>
        ucnv_toUChars conv kCodepageLatin1 m cap bytes (int (length bytes)) = (latin1_decode bytes, True))"

text \<open>The converter of UTF-8 that substitutes U+FFFD decodes well-formed input exactly.\<close>

definition icu_utf8 :: "icu \<Rightarrow> bool" where
  "icu_utf8 conv \<longleftrightarrow> ucnv_open conv ''utf-8'' \<and>
     (\<forall>m cap cs. valid_points cs \<longrightarrow> int (length (utf8_encode cs)) < cap \<longrightarrow> cap < 2 ^ 31 \<longrightarrow>
        ucnv_toUChars conv ''utf-8'' m cap (utf8_encode cs) (int (length (utf8_encode cs))) = (utf16_encode cs, True))"

text \<open>A converter with both behaviours, for the examples.\<close>

definition plain_icu :: icu where
  "plain_icu =
     \<lparr>ucnv_open = (\<lambda>name. name = kCodepageLatin1 \<or> name = ''utf-8''),
      ucnv_toUChars = (\<lambda>name m cap src len.
        if name = kCodepageLatin1 then (latin1_decode src, True) else (UTF8ToUTF16 src, True))\<rparr>"

lemma plain_icu_latin1: "icu_latin1 plain_icu"
  by (simp add: icu_latin1_def plain_icu_def)

lemma plain_icu_utf8: "icu_utf8 plain_icu"
  by (simp add: icu_utf8_def plain_icu_def kCodepageLatin1_def UTF8ToUTF16_def UTF8ToUTF16_flag_encode)

lemma latin1_convert:
  assumes "icu_latin1 conv" "length bytes < 2 ^ 31 - 1"
  shows "snd (ConvertToUTF16WithSubstitutions conv bytes kCodepageLatin1) = latin1_decode bytes"
  using assms by (simp add: ConvertToUTF16WithSubstitutions_def CodepageToUTF16_def icu_latin1_def)

lemma utf8_convert:
  assumes "icu_utf8 conv" "valid_points cs" "length (utf8_encode cs) < 2 ^ 31 - 1"
  shows "snd (ConvertToUTF16WithSubstitutions conv (utf8_encode cs) ''utf-8'') = utf16_encode cs"
  using assms by (simp add: ConvertToUTF16WithSubstitutions_def CodepageToUTF16_def icu_utf8_def)



lemma latin1_encode: "latin1_decode bytes = utf16_encode (map (\<lambda>c. ucast (byte c)) bytes)"
proof -
  have "CBU16_APPEND_UNSAFE (ucast (byte c)) = [ucast (byte c)]" for c
  proof -
    have u: "unat (ucast (byte c) :: code_point) = char_code c" by (simp add: unat_ucast8)
    then have "unat (ucast (byte c) :: code_point) = char_code c" .
    moreover have "(ucast (ucast (byte c) :: code_point) :: char16) = ucast (byte c)"
    proof -
      have "unat (ucast (byte c) :: char16) = char_code c"
        by (subst unat_ucast_eq) (simp_all add: char_code_below)
      moreover from this have "unat (ucast (ucast (byte c) :: code_point) :: char16) = char_code c"
        using u by (subst unat_ucast_eq) (simp_all add: char_code_below)
      ultimately show ?thesis by (simp add: word_unat_eq_iff)
    qed
    ultimately show ?thesis using append16_unit [of "ucast (byte c)"] by (simp add: char_code_below)
  qed
  then show ?thesis by (induction bytes) (simp_all add: latin1_decode_def utf16_encode_def)
qed

text \<open>
  Text decoded as ISO-8859-1 and written back as UTF-8 has two bytes for every byte from 128 on, so
  the bytes come back unchanged only when they are ASCII.
\<close>

theorem latin1_not_utf8:
  assumes "length bytes < 2 ^ 31"
  shows "length (UTF16ToUTF8 (latin1_decode bytes)) =
      length bytes + length (filter (\<lambda>c. \<not> is_ascii8 c) bytes) \<and>
    (UTF16ToUTF8 (latin1_decode bytes) = bytes \<longleftrightarrow> list_all is_ascii8 bytes)"
proof -
  let ?cs = "map (\<lambda>c. ucast (byte c)) bytes :: code_point list"
  have u: "unat (ucast (byte c) :: code_point) = char_code c" for c by (simp add: unat_ucast8)
  have "IsValidCodepoint (ucast (byte c))" for c
    unfolding valid_iff u using of_char_less_256 [of c] by linarith
  then have "valid_points ?cs" by (simp add: list_all_iff)
  moreover have "length (utf16_encode ?cs) < 2 ^ 31"
    using assms by (simp add: latin1_encode [symmetric] latin1_decode_def)
  ultimately have enc: "UTF16ToUTF8 (latin1_decode bytes) = utf8_encode ?cs"
    unfolding latin1_encode by (rule UTF16ToUTF8_encode)
  have len: "length (utf8_encode ?cs) = length bytes + length (filter (\<lambda>c. \<not> is_ascii8 c) bytes)"
  proof (induction bytes)
    case (Cons c bs)
    have "length (append8 (ucast (byte c))) = (if is_ascii8 c then 1 else 2)"
      by (simp add: length_append8 u char_code_below)
    with Cons show ?case by (simp add: utf8_encode_def)
  qed (simp add: utf8_encode_def)
  have "utf8_encode ?cs = bytes" if "list_all is_ascii8 bytes"
    using that
  proof (induction bytes)
    case (Cons c bs)
    have "(ucast (ucast (byte c) :: code_point) :: 8 word) = byte c"
      by (simp add: word_unat_eq_iff unat_ucast_eq u char_code_below)
    then have "append8 (ucast (byte c)) = [c]"
      using Cons.prems by (simp add: append8_unit u)
    with Cons show ?case by (simp add: utf8_encode_def)
  qed (simp add: utf8_encode_def)
  moreover have "list_all is_ascii8 bytes" if "utf8_encode ?cs = bytes"
    using len that by (simp add: list_all_iff filter_empty_conv)
  ultimately show ?thesis using enc len by auto
qed

theorem latin1_not_utf8_witness:
  "length (UTF16ToUTF8 (latin1_decode [CHR ''a'', CHR 0xC3, CHR 0xA9])) = 5"
  using latin1_not_utf8 [of "[CHR ''a'', CHR 0xC3, CHR 0xA9]"] by simp

end
