(* ===== verification/Base_String_Trim.thy ===== *)
theory Base_String_Trim
  imports Base_String_Ascii
begin

text \<open>
  Trimming in \<open>third_party/chromium/base/strings/string_util.cc\<close>: \<open>TrimStringT\<close> and
  \<open>TrimStringPieceT\<close> over the two searches of the string piece, for both character widths, with the
  \<open>size_t\<close> arithmetic on \<open>npos\<close> written out; the whitespace tables; \<open>ContainsOnlyChars\<close> and
  \<open>CollapseWhitespace\<close>.
\<close>

unbundle bit_operations_syntax

section \<open>Trimming\<close>

type_synonym trim_positions = nat

definition TRIM_NONE :: trim_positions where "TRIM_NONE = 0"
definition TRIM_LEADING :: trim_positions where "TRIM_LEADING = push_bit 0 1"
definition TRIM_TRAILING :: trim_positions where "TRIM_TRAILING = push_bit 1 1"
definition TRIM_ALL :: trim_positions where "TRIM_ALL = TRIM_LEADING OR TRIM_TRAILING"

type_synonym 'c search = "'c list \<Rightarrow> 'c list \<Rightarrow> nat \<Rightarrow> nat"

text \<open>The result is the return value and \<open>*output\<close>; \<open>std::basic_string::substr\<close> may throw.\<close>

definition TrimStringT ::
  "'c search \<Rightarrow> 'c search \<Rightarrow> 'c list \<Rightarrow> 'c list \<Rightarrow> trim_positions \<Rightarrow> (trim_positions \<times> 'c list) run" where
  "TrimStringT find_first_not_of find_last_not_of input trim_chars positions =
     (let last_char = sz_sub (length input) 1;
          first_good_char =
            (if positions AND TRIM_LEADING \<noteq> 0 then find_first_not_of input trim_chars 0 else 0);
          last_good_char =
            (if positions AND TRIM_TRAILING \<noteq> 0 then find_last_not_of input trim_chars npos else last_char)
      in if input = [] \<or> first_good_char = npos \<or> last_good_char = npos
         then Ret (if input = [] then TRIM_NONE else positions, [])
         else run_bind (str_substr input first_good_char (sz_add (sz_sub last_good_char first_good_char) 1))
           (\<lambda>output. Ret ((if first_good_char = 0 then TRIM_NONE else TRIM_LEADING) OR
                          (if last_good_char = last_char then TRIM_NONE else TRIM_TRAILING), output)))"

definition TrimStringPieceT ::
  "'c search \<Rightarrow> 'c search \<Rightarrow> 'c list \<Rightarrow> 'c list \<Rightarrow> trim_positions \<Rightarrow> 'c list" where
  "TrimStringPieceT find_first_not_of find_last_not_of input trim_chars positions =
     (let start = (if positions AND TRIM_LEADING \<noteq> 0 then find_first_not_of input trim_chars 0 else 0);
          stop = (if positions AND TRIM_TRAILING \<noteq> 0
                  then sz_add (find_last_not_of input trim_chars npos) 1 else length input)
      in substrT input start (sz_sub stop start))"

text \<open>\<open>TrimString(input, trim_chars, &output)\<close>: whether something was trimmed, and the output.\<close>

definition TrimString :: "string \<Rightarrow> string \<Rightarrow> (bool \<times> string) run" where
  "TrimString input trim_chars =
     run_bind (TrimStringT find_first_not_of8 find_last_not_of8 input trim_chars TRIM_ALL)
       (\<lambda>(positions, output). Ret (positions \<noteq> TRIM_NONE, output))"

definition TrimString16 :: "string16 \<Rightarrow> string16 \<Rightarrow> (bool \<times> string16) run" where
  "TrimString16 input trim_chars =
     run_bind (TrimStringT find_first_not_of16 find_last_not_of16 input trim_chars TRIM_ALL)
       (\<lambda>(positions, output). Ret (positions \<noteq> TRIM_NONE, output))"

definition TrimStringPiece :: "string \<Rightarrow> string \<Rightarrow> trim_positions \<Rightarrow> string" where
  "TrimStringPiece = TrimStringPieceT find_first_not_of8 find_last_not_of8"

definition TrimStringPiece16 :: "string16 \<Rightarrow> string16 \<Rightarrow> trim_positions \<Rightarrow> string16" where
  "TrimStringPiece16 = TrimStringPieceT find_first_not_of16 find_last_not_of16"

section \<open>Whitespace\<close>

definition kWhitespaceWide :: "int list" where
  "kWhitespaceWide =
     [0x0009, 0x000A, 0x000B, 0x000C, 0x000D, 0x0020, 0x0085, 0x00A0, 0x1680,
      0x2000, 0x2001, 0x2002, 0x2003, 0x2004, 0x2005, 0x2006, 0x2007, 0x2008, 0x2009, 0x200A,
      0x2028, 0x2029, 0x202F, 0x205F, 0x3000]"

definition kWhitespaceUTF16 :: string16 where
  "kWhitespaceUTF16 = map word_of_int kWhitespaceWide"

definition kWhitespaceASCII :: string where
  "kWhitespaceASCII = [CHR 0x09, CHR 0x0A, CHR 0x0B, CHR 0x0C, CHR 0x0D, CHR 0x20]"

definition kWhitespaceASCIIAs16 :: string16 where
  "kWhitespaceASCIIAs16 = [0x09, 0x0A, 0x0B, 0x0C, 0x0D, 0x20]"

definition TrimWhitespace :: "string16 \<Rightarrow> trim_positions \<Rightarrow> (trim_positions \<times> string16) run" where
  "TrimWhitespace input = TrimStringT find_first_not_of16 find_last_not_of16 input kWhitespaceUTF16"

definition TrimWhitespaceASCII :: "string \<Rightarrow> trim_positions \<Rightarrow> (trim_positions \<times> string) run" where
  "TrimWhitespaceASCII input = TrimStringT find_first_not_of8 find_last_not_of8 input kWhitespaceASCII"

definition TrimWhitespacePiece :: "string16 \<Rightarrow> trim_positions \<Rightarrow> string16" where
  "TrimWhitespacePiece input = TrimStringPiece16 input kWhitespaceUTF16"

definition TrimWhitespaceASCIIPiece :: "string \<Rightarrow> trim_positions \<Rightarrow> string" where
  "TrimWhitespaceASCIIPiece input = TrimStringPiece input kWhitespaceASCII"

definition ContainsOnlyChars :: "string \<Rightarrow> string \<Rightarrow> bool" where
  "ContainsOnlyChars input characters \<longleftrightarrow> find_first_not_of8 input characters 0 = npos"

definition ContainsOnlyChars16 :: "string16 \<Rightarrow> string16 \<Rightarrow> bool" where
  "ContainsOnlyChars16 input characters \<longleftrightarrow> find_first_not_of16 input characters 0 = npos"

text \<open>The loop over the table ends at its NUL; \<open>c\<close> is the character converted to \<open>wchar_t\<close>.\<close>

definition IsUnicodeWhitespace :: "int \<Rightarrow> bool" where
  "IsUnicodeWhitespace c \<longleftrightarrow> list_ex (\<lambda>cur. cur = c) kWhitespaceWide"

text \<open>
  \<open>CollapseWhitespaceT\<close>: the state is the characters written so far (\<open>chars_written\<close> is their number;
  going back by one drops the last) and the two flags.
\<close>

fun CollapseWhitespace_loop ::
  "('c \<Rightarrow> int) \<Rightarrow> 'c \<Rightarrow> bool \<Rightarrow> 'c list \<Rightarrow> 'c list \<Rightarrow> bool \<Rightarrow> bool \<Rightarrow> 'c list \<times> bool \<times> bool" where
  "CollapseWhitespace_loop ord space trim_breaks [] written in_whitespace already_trimmed =
     (written, in_whitespace, already_trimmed)"
| "CollapseWhitespace_loop ord space trim_breaks (c # cs) written in_whitespace already_trimmed =
     (if IsUnicodeWhitespace (ord c) then
        (let (written, in_whitespace) =
               (if \<not> in_whitespace then (written @ [space], True) else (written, in_whitespace));
             (written, already_trimmed) =
               (if trim_breaks \<and> \<not> already_trimmed \<and> (ord c = 0x0A \<or> ord c = 0x0D)
                then (butlast written, True) else (written, already_trimmed))
         in CollapseWhitespace_loop ord space trim_breaks cs written in_whitespace already_trimmed)
      else CollapseWhitespace_loop ord space trim_breaks cs (written @ [c]) False False)"

definition CollapseWhitespaceT :: "('c \<Rightarrow> int) \<Rightarrow> 'c \<Rightarrow> 'c list \<Rightarrow> bool \<Rightarrow> 'c list" where
  "CollapseWhitespaceT ord space txt trim_sequences_with_line_breaks =
     (let (written, in_whitespace, already_trimmed) =
            CollapseWhitespace_loop ord space trim_sequences_with_line_breaks txt [] True True
      in if in_whitespace \<and> \<not> already_trimmed then butlast written else written)"

definition CollapseWhitespace :: "string16 \<Rightarrow> bool \<Rightarrow> string16" where
  "CollapseWhitespace = CollapseWhitespaceT ord16 0x20"

definition CollapseWhitespaceASCII :: "string \<Rightarrow> bool \<Rightarrow> string" where
  "CollapseWhitespaceASCII = CollapseWhitespaceT ord8 (CHR 0x20)"

section \<open>The searches as prefixes and suffixes\<close>

text \<open>The reference: the characters of the set are dropped from the sides asked for.\<close>

definition trim_left :: "'c list \<Rightarrow> 'c list \<Rightarrow> 'c list" where
  "trim_left chars s = dropWhile (\<lambda>c. c \<in> set chars) s"

definition trim_right :: "'c list \<Rightarrow> 'c list \<Rightarrow> 'c list" where
  "trim_right chars s = rev (dropWhile (\<lambda>c. c \<in> set chars) (rev s))"

definition trim_spec :: "'c list \<Rightarrow> trim_positions \<Rightarrow> 'c list \<Rightarrow> 'c list" where
  "trim_spec chars positions s =
     (let s = (if positions AND TRIM_LEADING \<noteq> 0 then trim_left chars s else s)
      in if positions AND TRIM_TRAILING \<noteq> 0 then trim_right chars s else s)"

lemma trim_split:
  assumes "\<not> set s \<subseteq> C"
  obtains a m b where "s = a @ m @ b" "set a \<subseteq> C" "set b \<subseteq> C" "m \<noteq> []" "hd m \<notin> C" "last m \<notin> C"
proof -
  define a where "a = takeWhile (\<lambda>c. c \<in> C) s"
  define r where "r = dropWhile (\<lambda>c. c \<in> C) s"
  have s: "s = a @ r" by (simp add: a_def r_def)
  have ne: "r \<noteq> []" using assms by (auto simp: r_def dropWhile_eq_Nil_conv)
  then have hd: "hd r \<notin> C" unfolding r_def by (metis hd_dropWhile)
  define b where "b = rev (takeWhile (\<lambda>c. c \<in> C) (rev r))"
  define m where "m = rev (dropWhile (\<lambda>c. c \<in> C) (rev r))"
  have r: "r = m @ b" unfolding m_def b_def by (metis rev_append rev_rev_ident takeWhile_dropWhile_id)
  have m: "m \<noteq> []" using ne hd by (auto simp: m_def dropWhile_eq_Nil_conv)
  then have "last m \<notin> C" unfolding m_def by (metis hd_dropWhile last_rev rev_is_Nil_conv)
  moreover have "hd m \<notin> C" using hd m r by simp
  moreover have "set a \<subseteq> C" "set b \<subseteq> C" by (auto simp: a_def b_def dest: set_takeWhileD)
  ultimately show ?thesis using that s r m by simp
qed

lemma trim_left_split:
  "set a \<subseteq> set chars \<Longrightarrow> m \<noteq> [] \<Longrightarrow> hd m \<notin> set chars \<Longrightarrow> trim_left chars (a @ m @ b) = m @ b"
  by (cases m) (auto simp: trim_left_def dropWhile_append2 subset_iff)

lemma trim_right_split:
  "set b \<subseteq> set chars \<Longrightarrow> m \<noteq> [] \<Longrightarrow> last m \<notin> set chars \<Longrightarrow> trim_right chars (a @ m @ b) = a @ m"
proof -
  assume b: "set b \<subseteq> set chars" and m: "m \<noteq> []" "last m \<notin> set chars"
  have "dropWhile (\<lambda>c. c \<in> set chars) (rev b @ rev (a @ m)) = dropWhile (\<lambda>c. c \<in> set chars) (rev (a @ m))"
    by (rule dropWhile_append2) (use b in auto)
  also have "\<dots> = rev (a @ m)" using m by (cases m rule: rev_cases) auto
  finally show ?thesis by (simp add: trim_right_def)
qed

lemma trim_all: "set s \<subseteq> set chars \<Longrightarrow> trim_left chars s = [] \<and> trim_right chars s = []"
  by (auto simp: trim_left_def trim_right_def dropWhile_eq_Nil_conv)

lemma trim_Nil [simp]: "trim_left chars [] = []" "trim_right chars [] = []" "trim_spec chars positions [] = []"
  by (simp_all add: trim_left_def trim_right_def trim_spec_def)

lemma trim_flags:
  "((if p then TRIM_NONE else TRIM_LEADING) OR (if q then TRIM_NONE else TRIM_TRAILING)) \<noteq> TRIM_NONE \<longleftrightarrow> \<not> (p \<and> q)"
  by (simp add: TRIM_NONE_def TRIM_LEADING_def TRIM_TRAILING_def)

lemma TrimStringT_eval:
  assumes "(if positions AND TRIM_LEADING \<noteq> 0 then ffno input chars 0 else 0) = f"
    and "(if positions AND TRIM_TRAILING \<noteq> 0 then flno input chars npos else sz_sub (length input) 1) = l"
    and "f \<noteq> npos" "l \<noteq> npos" "input \<noteq> []" "f \<le> length input" "sz_add (sz_sub l f) 1 = n"
  shows "TrimStringT ffno flno input chars positions =
    Ret ((if f = 0 then TRIM_NONE else TRIM_LEADING) OR
         (if l = sz_sub (length input) 1 then TRIM_NONE else TRIM_TRAILING), take n (drop f input))"
  unfolding TrimStringT_def Let_def assms(1,2) using assms(3-7) by (simp add: str_substr_def)

locale trim_search =
  fixes find_first_not_of find_last_not_of :: "'c search"
  assumes first_scan: "find_first_not_of s chars 0 = scan_up (\<lambda>c. c \<notin> set chars) s 0"
    and last_scan: "find_last_not_of s chars npos =
      (if s = [] then npos else scan_down (\<lambda>c. c \<notin> set chars) s (min npos (length s - 1)))"
begin

lemma first_split:
  assumes "set a \<subseteq> set chars" "m \<noteq> []" "hd m \<notin> set chars"
  shows "find_first_not_of (a @ m @ b) chars 0 = length a"
  unfolding first_scan
proof (rule scan_up_hit)
  show "(a @ m @ b) ! length a \<notin> set chars" using assms(2,3) by (simp add: nth_append hd_conv_nth)
  show "\<not> (a @ m @ b) ! k \<notin> set chars" if "k < length a" for k
    using that assms(1) by (auto simp: nth_append dest: nth_mem)
qed (use assms(2) in auto)

lemma last_split:
  assumes "set b \<subseteq> set chars" "m \<noteq> []" "last m \<notin> set chars" "length (a @ m @ b) < 2 ^ 64"
  shows "find_last_not_of (a @ m @ b) chars npos = length a + length m - 1"
proof -
  let ?s = "a @ m @ b" and ?n = "length a + length m - 1"
  have "scan_down (\<lambda>c. c \<notin> set chars) ?s (length ?s - 1) = ?n"
  proof (rule scan_down_hit)
    have "?s ! ?n = last m" using assms(2) by (cases m rule: rev_cases) (auto simp: nth_append)
    then show "?s ! ?n \<notin> set chars" using assms(3) by simp
    fix k assume k: "?n < k" "k \<le> length ?s - 1"
    then have "length (a @ m) \<le> k" using assms(2) by (cases m) auto
    moreover from k assms(2) have "k < length ?s" by (cases m) auto
    ultimately have "?s ! k = b ! (k - length (a @ m))" "k - length (a @ m) < length b"
      by (auto simp: nth_append)
    then show "\<not> ?s ! k \<notin> set chars" using assms(1) by (auto dest: nth_mem)
  qed (use assms(2) in auto)
  moreover have "min npos (length ?s - 1) = length ?s - 1" using assms(4) by (simp add: npos_def)
  ultimately show ?thesis using assms(2) by (simp add: last_scan)
qed

lemma first_none: "set s \<subseteq> set chars \<Longrightarrow> find_first_not_of s chars 0 = npos"
  unfolding first_scan by (rule scan_up_miss) (auto dest: nth_mem)

lemma last_none: "set s \<subseteq> set chars \<Longrightarrow> length s < 2 ^ 64 \<Longrightarrow> find_last_not_of s chars npos = npos"
proof -
  assume "set s \<subseteq> set chars" "length s < 2 ^ 64"
  then have "min npos (length s - 1) = length s - 1" by (simp add: npos_def)
  moreover have "scan_down (\<lambda>c. c \<notin> set chars) s (length s - 1) = npos" if "s \<noteq> []"
    by (rule scan_down_miss) (use that \<open>set s \<subseteq> set chars\<close> in \<open>auto dest!: nth_mem simp: Suc_le_eq le_diff_conv2\<close>)
  ultimately show ?thesis unfolding last_scan by auto
qed

text \<open>The trimmed piece is the reference, for every combination of sides.\<close>

lemma piece_trim:
  assumes "length input < 2 ^ 64 - 1"
  shows "TrimStringPieceT find_first_not_of find_last_not_of input trim_chars positions
    = trim_spec trim_chars positions input"
proof (cases "set input \<subseteq> set trim_chars")
  case True
  have "sz_add npos 1 = 0" by (simp add: sz_add_def npos_def)
  moreover have "length input < npos" using assms by (simp add: npos_def)
  ultimately show ?thesis
    using first_none [OF True] last_none [OF True] assms trim_all [OF True]
    by (simp add: TrimStringPieceT_def trim_spec_def substrT_eq Let_def)
next
  case False
  obtain a m b where s: "input = a @ m @ b" and abm: "set a \<subseteq> set trim_chars" "set b \<subseteq> set trim_chars" "m \<noteq> []"
    "hd m \<notin> set trim_chars" "last m \<notin> set trim_chars"
    by (rule trim_split [OF False])
  have len: "length (a @ m @ b) < 2 ^ 64" using assms s by simp
  have m: "0 < length m" using abm by simp
  have "sz_add (length a + length m - 1) 1 = length a + length m" using len m by simp
  moreover have "sz_sub (length a + length m) (length a) = length m"
    "sz_sub (length a + length m) 0 = length a + length m"
    "sz_sub (length (a @ m @ b)) (length a) = length m + length b"
    "sz_sub (length (a @ m @ b)) 0 = length (a @ m @ b)"
    using len by simp_all
  ultimately show ?thesis
    using first_split [OF abm(1,3,4), of b] last_split [OF abm(2,3,5) len]
      trim_left_split [OF abm(1,3,4)] trim_right_split [OF abm(2,3,5), of a] trim_right_split [OF abm(2,3,5), of "[]"]
    unfolding s TrimStringPieceT_def trim_spec_def Let_def substrT_eq
    by simp
qed

text \<open>
  The owned version never throws, computes the same string, and its result is nonzero exactly when
  something was removed.
\<close>

lemma owned_trim_all:
  assumes len: "length input < 2 ^ 64 - 1" and True: "set input \<subseteq> set trim_chars"
  shows "\<exists>r. TrimStringT find_first_not_of find_last_not_of input trim_chars positions =
      Ret (r, trim_spec trim_chars positions input) \<and>
      (r \<noteq> TRIM_NONE \<longleftrightarrow> trim_spec trim_chars positions input \<noteq> input)"
proof (cases "input = []")
  case ne: False
  then have l: "1 \<le> length input" by (cases input) auto
  then have "sz_sub (length input) 1 = length input - 1" using len by (intro sz_sub_le) auto
  moreover have "length input - 1 \<noteq> npos" "0 \<noteq> npos" using len by (auto simp: npos_def)
  moreover have "sz_add (sz_sub (length input - 1) 0) 1 = length input"
    using l len by simp
  moreover have "positions AND TRIM_LEADING \<noteq> 0 \<Longrightarrow> positions \<noteq> 0"
    "positions AND TRIM_TRAILING \<noteq> 0 \<Longrightarrow> positions \<noteq> 0"
    by (cases "positions = 0"; simp)+
  ultimately show ?thesis
    using ne first_none [OF True] last_none [OF True] len trim_all [OF True]
    by (cases "positions AND TRIM_LEADING = 0"; cases "positions AND TRIM_TRAILING = 0")
      (simp_all add: TrimStringT_def trim_spec_def Let_def TRIM_NONE_def str_substr_def)
qed (simp add: TrimStringT_def)

lemma owned_trim:
  assumes len: "length input < 2 ^ 64 - 1"
  shows "\<exists>r. TrimStringT find_first_not_of find_last_not_of input trim_chars positions =
      Ret (r, trim_spec trim_chars positions input) \<and>
      (r \<noteq> TRIM_NONE \<longleftrightarrow> trim_spec trim_chars positions input \<noteq> input)"
proof (cases "set input \<subseteq> set trim_chars")
  case True
  then show ?thesis by (rule owned_trim_all [OF len])
next
  case False
  obtain a m b where s: "input = a @ m @ b" and abm: "set a \<subseteq> set trim_chars" "set b \<subseteq> set trim_chars" "m \<noteq> []"
    "hd m \<notin> set trim_chars" "last m \<notin> set trim_chars"
    by (rule trim_split [OF False])
  define a0 where "a0 = (if positions AND TRIM_LEADING \<noteq> 0 then a else [])"
  define b0 where "b0 = (if positions AND TRIM_TRAILING \<noteq> 0 then b else [])"
  define M where "M = (if positions AND TRIM_LEADING \<noteq> 0 then [] else a) @ m @
    (if positions AND TRIM_TRAILING \<noteq> 0 then [] else b)"
  have input: "input = a0 @ M @ b0" by (simp add: s a0_def b0_def M_def)
  have M: "0 < length M" using abm(3) by (simp add: M_def)
  have spec: "trim_spec trim_chars positions input = M"
    using trim_left_split [OF abm(1,3,4), of b] trim_right_split [OF abm(2,3,5), of a]
      trim_right_split [OF abm(2,3,5), of "[]"]
    by (simp add: s trim_spec_def M_def)
  have size: "length a0 + length M + length b0 < 2 ^ 64 - 1" using len by (simp add: input)
  have last: "sz_sub (length input) 1 = length a0 + length M + length b0 - 1"
  proof (subst sz_sub_le)
    show "1 \<le> length input" "length input < 2 ^ 64" using M size unfolding input length_append by linarith+
  qed (simp add: input)
  have first_eq: "(if positions AND TRIM_LEADING \<noteq> 0 then find_first_not_of input trim_chars 0 else 0) = length a0"
    using first_split [OF abm(1,3,4), of b] by (simp add: s a0_def)
  have last_eq: "(if positions AND TRIM_TRAILING \<noteq> 0 then find_last_not_of input trim_chars npos
      else sz_sub (length input) 1) = length a0 + length M - 1"
  proof (cases "positions AND TRIM_TRAILING = 0")
    case True
    then show ?thesis using last by (simp add: b0_def)
  next
    case False
    then have "length a + length m = length a0 + length M" by (simp add: a0_def M_def)
    moreover have "length (a @ m @ b) < 2 ^ 64" using len s by simp
    ultimately show ?thesis using False last_split [OF abm(2,3,5), of a] by (simp add: s)
  qed
  have "sz_sub (length a0 + length M - 1) (length a0) = length M - 1"
    using M size by (subst sz_sub_le) linarith+
  moreover have "sz_add (length M - 1) 1 = length M" using M size by (subst sz_add_small) linarith+
  ultimately have n: "sz_add (sz_sub (length a0 + length M - 1) (length a0)) 1 = length M" by simp
  have "length a0 \<noteq> npos" "length a0 + length M - 1 \<noteq> npos" "input \<noteq> []" "length a0 \<le> length input"
    using size M by (auto simp: npos_def input)
  note eval = TrimStringT_eval [of positions find_first_not_of input trim_chars "length a0" find_last_not_of
      "length a0 + length M - 1" "length M", OF first_eq last_eq this n]
  have flags: "length a0 = 0 \<longleftrightarrow> a0 = []" "length a0 + length M - 1 = sz_sub (length input) 1 \<longleftrightarrow> b0 = []"
    unfolding last using M by (cases M; auto)+
  have "M = input \<longleftrightarrow> a0 = [] \<and> b0 = []"
  proof
    assume "M = input"
    then have "length M = length a0 + length M + length b0" by (metis add.assoc input length_append)
    then show "a0 = [] \<and> b0 = []" by simp
  qed (simp add: input)
  with eval trim_flags [of "a0 = []" "b0 = []"] show ?thesis
    unfolding spec flags by (simp add: input)
qed

end

interpretation trim8: trim_search find_first_not_of8 find_last_not_of8
  by unfold_locales (simp_all add: find_first_not_of8_scan find_last_not_of8_scan)

interpretation trim16: trim_search find_first_not_of16 find_last_not_of16
  by unfold_locales (simp_all add: find_first_not_of16_scan find_last_not_of16_scan)

section \<open>Properties of trimming\<close>

lemma TRIM_ALL_bits [simp]: "TRIM_ALL AND TRIM_LEADING \<noteq> 0" "TRIM_ALL AND TRIM_TRAILING \<noteq> 0"
  by (simp_all add: TRIM_ALL_def TRIM_LEADING_def TRIM_TRAILING_def)

lemma trim_spec_all: "trim_spec chars TRIM_ALL s = trim_right chars (trim_left chars s)"
  by (simp add: trim_spec_def)

lemma TrimString_spec:
  "length input < 2 ^ 64 - 1 \<Longrightarrow>
     TrimString input trim_chars =
       Ret (trim_spec trim_chars TRIM_ALL input \<noteq> input, trim_spec trim_chars TRIM_ALL input)"
  using trim8.owned_trim [of input trim_chars TRIM_ALL] by (auto simp: TrimString_def)

lemma TrimString16_spec:
  "length input < 2 ^ 64 - 1 \<Longrightarrow>
     TrimString16 input trim_chars =
       Ret (trim_spec trim_chars TRIM_ALL input \<noteq> input, trim_spec trim_chars TRIM_ALL input)"
  using trim16.owned_trim [of input trim_chars TRIM_ALL] by (auto simp: TrimString16_def)

text \<open>The trimmed string has no character of the set at either end, and only such were removed.\<close>

lemma trim_spec_all_split:
  obtains a b where "s = a @ trim_spec chars TRIM_ALL s @ b" "set a \<subseteq> set chars" "set b \<subseteq> set chars"
    "trim_spec chars TRIM_ALL s \<noteq> [] \<longrightarrow>
       hd (trim_spec chars TRIM_ALL s) \<notin> set chars \<and> last (trim_spec chars TRIM_ALL s) \<notin> set chars"
proof (cases "set s \<subseteq> set chars")
  case True
  with that [of s "[]"] show ?thesis by (simp add: trim_spec_all trim_all)
next
  case False
  obtain a m b where s: "s = a @ m @ b" and abm: "set a \<subseteq> set chars" "set b \<subseteq> set chars" "m \<noteq> []"
    "hd m \<notin> set chars" "last m \<notin> set chars"
    by (rule trim_split [OF False])
  have "trim_spec chars TRIM_ALL s = m"
    using trim_left_split [OF abm(1,3,4)] trim_right_split [OF abm(2,3,5), of "[]"] s
    by (simp add: trim_spec_all)
  with that [of a b] s abm show ?thesis by simp
qed

lemma trim_spec_fixed:
  "s = [] \<or> (hd s \<notin> set chars \<and> last s \<notin> set chars) \<Longrightarrow> trim_spec chars TRIM_ALL s = s"
  using trim_left_split [of "[]" chars s "[]"] trim_right_split [of "[]" chars s "[]"]
  by (cases "s = []") (auto simp: trim_spec_all)

text \<open>
  \<open>TrimString\<close> never throws and leaves the longest middle part that neither begins nor ends with
  a character of the set; its result tells whether anything was removed, and trimming again changes
  nothing.
\<close>

theorem TrimString_correct:
  assumes "length input < 2 ^ 64 - 1"
  shows "\<exists>a m b. TrimString input trim_chars = Ret (a @ b \<noteq> [], m) \<and> input = a @ m @ b \<and>
    set a \<subseteq> set trim_chars \<and> set b \<subseteq> set trim_chars \<and>
    (m = [] \<or> hd m \<notin> set trim_chars \<and> last m \<notin> set trim_chars) \<and>
    TrimString m trim_chars = Ret (False, m)"
proof -
  let ?m = "trim_spec trim_chars TRIM_ALL input"
  obtain a b where ab: "input = a @ ?m @ b" "set a \<subseteq> set trim_chars" "set b \<subseteq> set trim_chars"
    "?m \<noteq> [] \<longrightarrow> hd ?m \<notin> set trim_chars \<and> last ?m \<notin> set trim_chars"
    by (rule trim_spec_all_split)
  have ends: "?m = [] \<or> hd ?m \<notin> set trim_chars \<and> last ?m \<notin> set trim_chars" using ab(4) by blast
  have "length (a @ ?m @ b) = length input" using ab(1) by simp
  then have len: "length ?m < 2 ^ 64 - 1" using assms by simp
  have ch: "?m \<noteq> input \<longleftrightarrow> a @ b \<noteq> []"
  proof
    assume "?m \<noteq> input"
    then show "a @ b \<noteq> []" using ab(1) by (metis append_Nil append_Nil2 append_is_Nil_conv)
  next
    assume "a @ b \<noteq> []"
    then have "length ?m < length (a @ ?m @ b)" by auto
    then show "?m \<noteq> input" using ab(1) by (metis less_irrefl)
  qed
  have "TrimString input trim_chars = Ret (a @ b \<noteq> [], ?m)" using TrimString_spec [OF assms] ch by simp
  moreover have "TrimString ?m trim_chars = Ret (False, ?m)"
    using TrimString_spec [OF len, of trim_chars] unfolding trim_spec_fixed [OF ends] by simp
  ultimately show ?thesis using ab ends by blast
qed

theorem TrimString_correct_witness:
  "\<exists>a m b. TrimString '' ab c '' '' '' = Ret (a @ b \<noteq> [], m) \<and> '' ab c '' = a @ m @ b \<and>
    set a \<subseteq> set '' '' \<and> set b \<subseteq> set '' '' \<and> (m = [] \<or> hd m \<notin> set '' '' \<and> last m \<notin> set '' '') \<and>
    TrimString m '' '' = Ret (False, m)"
  by (rule TrimString_correct) simp

end
