(* ===== verification/Cxtpl_Defaults.thy ===== *)
theory Cxtpl_Defaults
  imports Cxtpl_Template Cxtpl_Charset Base_String_Trim
begin

text \<open>
  The default tags of \<open>src/core/defaults/defaults.cpp\<close> and their callbacks: \<open>read_file\<close>, the four
  callbacks that hand their text to the code generator, and \<open>code_include_cb\<close>, which reads a file,
  decodes it and runs a new generator on it. The file system and the ICU converters are parameters.
  Includes nest, so the callback has a nesting depth; a depth that is used up gives \<open>Pending\<close>.
\<close>

section \<open>Reading a file\<close>

text \<open>What \<open>std::filesystem\<close> and \<open>std::ifstream\<close> answer; the first three may throw.\<close>

record filesystem =
  fs_absolute :: "string \<Rightarrow> string run"
  fs_exists :: "string \<Rightarrow> bool run"
  fs_is_regular_file :: "string \<Rightarrow> bool run"
  fs_open :: "string \<Rightarrow> string option"

text \<open>\<open>catch (fs::filesystem_error&)\<close>.\<close>

fun catch_system_error :: "'a run \<Rightarrow> 'a run \<Rightarrow> 'a run" where
  "catch_system_error (Raise System_error) handler = handler"
| "catch_system_error r handler = r"

definition read_file :: "filesystem \<Rightarrow> string \<Rightarrow> string run" where
  "read_file fs file_path =
     run_bind (fs_absolute fs file_path) (\<lambda>in_abs_path.
     run_bind (catch_system_error
         (run_and (fs_exists fs in_abs_path) (fs_is_regular_file fs in_abs_path)) (Ret False))
       (\<lambda>found.
          if \<not> found then Ret []
          else case fs_open fs file_path of None \<Rightarrow> Ret [] | Some contents \<Rightarrow> Ret contents))"

record env =
  files :: filesystem
  converters :: icu

section \<open>The callbacks\<close>

definition code_block_cb :: tag_callback where
  "code_block_cb result codeBetweenTags outVarName =
     success (result @ executeCodeMultiline codeBetweenTags outVarName)"

definition code_line_cb :: tag_callback where
  "code_line_cb result codeBetweenTags outVarName =
     success (result @ executeCodeLine codeBetweenTags outVarName)"

definition code_append_raw_cb :: tag_callback where
  "code_append_raw_cb result codeBetweenTags outVarName =
     success (result @ appendToVariable codeBetweenTags outVarName)"

definition code_append_as_string_cb :: tag_callback where
  "code_append_as_string_cb result codeBetweenTags outVarName =
     success (result @ appendToVariableAsString codeBetweenTags outVarName)"

definition path_blanks :: string where
  "path_blanks = [CHR 0x20, CHR 0x09, CHR 0x0A, CHR 0x0D, CHR 0x0C, CHR 0x0B]"

definition code_include_body :: "build \<Rightarrow> env \<Rightarrow> GeneratorTags \<Rightarrow> tag_callback" where
  "code_include_body cfg env tags result filePathBetweenTags outVarName =
     run_bind (TrimString filePathBetweenTags path_blanks) (\<lambda>(_, cleanPath).
     run_bind (read_file (files env) cleanPath) (\<lambda>file_contents.
       if file_contents = [] then failure EMPTY_INPUT (''(CXTPL) Empty file '' @ cleanPath)
       else
         let clean_contents = snd (ConvertResponseToUTF16 (converters env) [] file_contents);
             template_engine = \<lparr>generator_tags = tags, original_str = []\<rparr>
         in run_bind (generate_from_UTF16 cfg template_engine clean_contents) (\<lambda>(_, genResult).
            OUTCOME_TRY (Ret genResult) (\<lambda>genResultStr.
              if genResultStr = []
              then failure EMPTY_INPUT (''(CXTPL) Empty generator output from file '' @ cleanPath)
              else success (result @ genResultStr)))))"

section \<open>The default tags\<close>

definition DefaultTags_openTagStart :: cstr where
  "DefaultTags_openTagStart = CStr 1 ''[[''"

definition empty_cstr :: cstr where
  "empty_cstr = CStr 2 []"

definition DefaultTags_code_block :: pair_tag where
  "DefaultTags_code_block =
     \<lparr>open_tag = \<lparr>tag_opening = [DefaultTags_openTagStart], tag_attrs = ''~'', tag_closing = [[]]\<rparr>,
      close_tag = \<lparr>tag_opening = [empty_cstr], tag_attrs = ''~'', tag_closing = ['']]'']\<rparr>,
      callback = code_block_cb\<rparr>"

definition DefaultTags_code_line :: pair_tag where
  "DefaultTags_code_line =
     \<lparr>open_tag = \<lparr>tag_opening = [DefaultTags_openTagStart], tag_attrs = ''~'', tag_closing = ['']]'']\<rparr>,
      close_tag = \<lparr>tag_opening = [CStr 3 [CHR 0x0A], CStr 4 [CHR 0x09], CStr 5 [CHR 0x0D],
                                   CStr 6 [CHR 0x0B], CStr 7 [CHR 0x0C]],
                   tag_attrs = [], tag_closing = [[]]\<rparr>,
      callback = code_line_cb\<rparr>"

definition DefaultTags_code_append_raw :: pair_tag where
  "DefaultTags_code_append_raw =
     \<lparr>open_tag = \<lparr>tag_opening = [DefaultTags_openTagStart], tag_attrs = ''+'', tag_closing = [[]]\<rparr>,
      close_tag = \<lparr>tag_opening = [empty_cstr], tag_attrs = ''+'', tag_closing = ['']]'']\<rparr>,
      callback = code_append_raw_cb\<rparr>"

definition DefaultTags_code_append_as_string :: pair_tag where
  "DefaultTags_code_append_as_string =
     \<lparr>open_tag = \<lparr>tag_opening = [DefaultTags_openTagStart], tag_attrs = ''*'', tag_closing = [[]]\<rparr>,
      close_tag = \<lparr>tag_opening = [empty_cstr], tag_attrs = ''*'', tag_closing = ['']]'']\<rparr>,
      callback = code_append_as_string_cb\<rparr>"

definition DefaultTags_code_include :: "tag_callback \<Rightarrow> pair_tag" where
  "DefaultTags_code_include include_cb =
     \<lparr>open_tag = \<lparr>tag_opening = [DefaultTags_openTagStart], tag_attrs = ''include'', tag_closing = [[]]\<rparr>,
      close_tag = \<lparr>tag_opening = [empty_cstr], tag_attrs = ''include'', tag_closing = ['']]'']\<rparr>,
      callback = include_cb\<rparr>"

definition default_tags :: "tag_callback \<Rightarrow> GeneratorTags" where
  "default_tags include_cb =
     \<lparr>openTagStart = DefaultTags_openTagStart,
      code_block = DefaultTags_code_block,
      code_line = DefaultTags_code_line,
      code_append_raw = DefaultTags_code_append_raw,
      code_append_as_string = DefaultTags_code_append_as_string,
      code_include = DefaultTags_code_include include_cb\<rparr>"

lemmas DefaultTags_defs =
  DefaultTags_code_block_def DefaultTags_code_line_def DefaultTags_code_append_raw_def
  DefaultTags_code_append_as_string_def DefaultTags_code_include_def DefaultTags_openTagStart_def empty_cstr_def

primrec code_include_cb :: "nat \<Rightarrow> build \<Rightarrow> env \<Rightarrow> tag_callback" where
  "code_include_cb 0 cfg env = (\<lambda>_ _ _. Pending)"
| "code_include_cb (Suc depth) cfg env =
     code_include_body cfg env (default_tags (code_include_cb depth cfg env))"

text \<open>A generator as it is constructed, and a run of it on a source.\<close>

definition new_generator :: "nat \<Rightarrow> build \<Rightarrow> env \<Rightarrow> Generator" where
  "new_generator depth cfg env =
     \<lparr>generator_tags = default_tags (code_include_cb depth cfg env), original_str = []\<rparr>"

definition generate :: "nat \<Rightarrow> build \<Rightarrow> env \<Rightarrow> string16 \<Rightarrow> string outcome run" where
  "generate depth cfg env src =
     run_bind (generate_from_UTF16 cfg (new_generator depth cfg env) src) (\<lambda>(_, r). Ret r)"

section \<open>The language of the default tags\<close>

lemma default_tags_ok: "tags_ok (default_tags cb)"
  by (simp add: tags_ok_def kinds_def default_tags_def DefaultTags_defs pair_tag_ok_def prefix_text_def close_texts_def)

definition default_language :: language where
  "default_language =
     \<lparr>lang_open = ASCIIToUTF16 ''[['',
      lang_prefix = (\<lambda>k. ASCIIToUTF16 (case k of Line \<Rightarrow> ''~]]'' | Block \<Rightarrow> ''~'' | Raw \<Rightarrow> ''+''
        | As_string \<Rightarrow> ''*'' | Include \<Rightarrow> ''include'')),
      lang_closers = (\<lambda>k. map ASCIIToUTF16 (case k of
          Line \<Rightarrow> [[CHR 0x0A], [CHR 0x09], [CHR 0x0D], [CHR 0x0B], [CHR 0x0C]]
        | Block \<Rightarrow> [''~]]''] | Raw \<Rightarrow> [''+]]''] | As_string \<Rightarrow> [''*]]''] | Include \<Rightarrow> [''include]]'']))\<rparr>"

lemma language_of_default: "language_of (default_tags cb) = default_language"
proof -
  have "lang_prefix (language_of (default_tags cb)) k = lang_prefix default_language k" for k
    by (cases k) (simp_all add: language_of_def default_language_def default_tags_def DefaultTags_defs prefix_text_def)
  moreover have "lang_closers (language_of (default_tags cb)) k = lang_closers default_language k" for k
    by (cases k) (simp_all add: language_of_def default_language_def default_tags_def DefaultTags_defs close_texts_def)
  ultimately show ?thesis
    by (intro language.equality ext)
      (simp_all add: language_of_def default_language_def default_tags_def DefaultTags_defs)
qed

text \<open>The text a tag renders to, by kind.\<close>

definition include_text :: "nat \<Rightarrow> build \<Rightarrow> env \<Rightarrow> string \<Rightarrow> string outcome run" where
  "include_text depth cfg env path = code_include_cb depth cfg env [] path kOutVarName"

definition default_render :: "nat \<Rightarrow> build \<Rightarrow> env \<Rightarrow> kind \<Rightarrow> string \<Rightarrow> string outcome run" where
  "default_render depth cfg env k code =
     (case k of
        Line \<Rightarrow> success (executeCodeLine code kOutVarName)
      | Block \<Rightarrow> success (executeCodeMultiline code kOutVarName)
      | Raw \<Rightarrow> success (appendToVariable code kOutVarName)
      | As_string \<Rightarrow> success (appendToVariableAsString code kOutVarName)
      | Include \<Rightarrow> include_text depth cfg env code)"

lemma code_include_body_append:
  "code_include_body cfg env tags (acc @ acc') path v =
     OUTCOME_TRY (code_include_body cfg env tags acc' path v) (\<lambda>s. success (acc @ s))"
proof (cases "TrimString path path_blanks")
  case (Ret x)
  show ?thesis
  proof (cases "read_file (files env) (snd x)")
    case contents: (Ret c)
    let ?g = "generate_from_UTF16 cfg \<lparr>generator_tags = tags, original_str = []\<rparr>
      (snd (ConvertResponseToUTF16 (converters env) [] c))"
    have "run_bind ?g (\<lambda>(_, r). OUTCOME_TRY (Ret r) (\<lambda>s. if s = []
          then failure EMPTY_INPUT m else success ((acc @ acc') @ s))) =
        OUTCOME_TRY (run_bind ?g (\<lambda>(_, r). OUTCOME_TRY (Ret r) (\<lambda>s. if s = []
          then failure EMPTY_INPUT m else success (acc' @ s)))) (\<lambda>s. success (acc @ s))" for m
      by (cases ?g) (auto simp: OUTCOME_TRY_def split: sum.split)
    then show ?thesis using Ret contents by (simp add: code_include_body_def case_prod_beta Let_def)
  qed (use Ret in \<open>simp_all add: code_include_body_def case_prod_beta\<close>)
qed (simp_all add: code_include_body_def)

lemma code_include_cb_append:
  "code_include_cb depth cfg env acc path kOutVarName =
     OUTCOME_TRY (include_text depth cfg env path) (\<lambda>s. success (acc @ s))"
  using code_include_body_append [of cfg env _ acc "[]"]
  by (cases depth) (simp_all add: include_text_def)

interpretation default_engine: appending_tags "default_tags (code_include_cb depth cfg env)"
  "default_render depth cfg env" for depth cfg env
proof
  show "tags_ok (default_tags (code_include_cb depth cfg env))" by (rule default_tags_ok)
  show "callback (tag_of (default_tags (code_include_cb depth cfg env)) k) acc code kOutVarName =
      OUTCOME_TRY (default_render depth cfg env k code) (\<lambda>s. success (acc @ s))" for k acc code
    by (cases k) (simp_all add: default_tags_def DefaultTags_code_line_def DefaultTags_code_block_def
        DefaultTags_code_append_raw_def DefaultTags_code_append_as_string_def DefaultTags_code_include_def
        default_render_def code_line_cb_def code_block_cb_def code_append_raw_cb_def
        code_append_as_string_cb_def code_include_cb_append)
qed

section \<open>Running the default generator\<close>

lemma generate_eq:
  "generate depth cfg env src =
     noexcept (generateFromString cfg (new_generator depth cfg env\<lparr>original_str := src\<rparr>))"
  by (cases "generateFromString cfg (new_generator depth cfg env\<lparr>original_str := src\<rparr>)")
    (simp_all add: generate_def generate_from_UTF16_def Let_def)

lemma new_generator_tags [simp]:
  "supported_tags (new_generator depth cfg env\<lparr>original_str := src\<rparr>) = default_tags (code_include_cb depth cfg env)"
  by (simp add: new_generator_def supported_tags_def)

lemma default_generate_iff:
  assumes "src \<noteq> []" "length src < 2 ^ 63"
  shows "generate depth cfg env src = success out \<longleftrightarrow>
    (\<exists>ps t body. canonical default_language ps t \<and> src = print_template default_language ps (Tail t) \<and>
       render_all (default_render depth cfg env) ps = success body \<and> out = body @ raw_code t)"
  using default_engine.generate_success_iff [of "new_generator depth cfg env\<lparr>original_str := src\<rparr>" depth cfg env cfg out] assms
  by (simp add: generate_eq language_of_default)

text \<open>The path of an include: the text between the tags without blanks at its ends.\<close>

definition clean_path :: "string \<Rightarrow> string" where
  "clean_path path = trim_spec path_blanks TRIM_ALL path"

lemma include_text_Suc:
  assumes "length path < 2 ^ 64 - 1"
  shows "include_text (Suc depth) cfg env path =
    run_bind (read_file (files env) (clean_path path)) (\<lambda>contents.
      if contents = [] then failure EMPTY_INPUT (''(CXTPL) Empty file '' @ clean_path path)
      else OUTCOME_TRY (generate depth cfg env (snd (ConvertResponseToUTF16 (converters env) [] contents)))
        (\<lambda>s. if s = [] then failure EMPTY_INPUT (''(CXTPL) Empty generator output from file '' @ clean_path path)
             else success s))"
proof -
  have "run_bind (generate_from_UTF16 cfg \<lparr>generator_tags = tags, original_str = []\<rparr> src)
      (\<lambda>(_, r). OUTCOME_TRY (Ret r) f) =
    OUTCOME_TRY (run_bind (generate_from_UTF16 cfg \<lparr>generator_tags = tags, original_str = []\<rparr> src) (\<lambda>(_, r). Ret r)) f"
    for tags src and f :: "string \<Rightarrow> string outcome run"
    by (cases "generate_from_UTF16 cfg \<lparr>generator_tags = tags, original_str = []\<rparr> src") auto
  note eq = this
  have gen: "generate depth cfg env src = run_bind (generate_from_UTF16 cfg
      \<lparr>generator_tags = default_tags (code_include_cb depth cfg env), original_str = []\<rparr> src) (\<lambda>(_, r). Ret r)" for src
    by (simp add: generate_def new_generator_def)
  have trim: "TrimString path path_blanks = Ret (clean_path path \<noteq> path, clean_path path)"
    by (simp add: TrimString_spec [OF assms] clean_path_def)
  show ?thesis
    unfolding include_text_def code_include_cb.simps code_include_body_def trim run_bind.simps prod.case Let_def
      eq gen append_Nil ..
qed

section \<open>Nested includes\<close>

definition decoded :: "env \<Rightarrow> string \<Rightarrow> string16" where
  "decoded env contents = snd (ConvertResponseToUTF16 (converters env) [] contents)"

definition includes_of :: "string16 \<Rightarrow> string list" where
  "includes_of src =
     map (\<lambda>p. clean_path (UTF16ToUTF8 (piece_code p)))
       (filter (\<lambda>p. piece_kind p = Include) (fst (parse default_language src)))"

definition file_includes :: "env \<Rightarrow> string \<Rightarrow> string list" where
  "file_includes env path =
     (case read_file (files env) path of
        Ret contents \<Rightarrow> if contents = [] then [] else includes_of (decoded env contents)
      | _ \<Rightarrow> [])"

text \<open>The environment answers every question, and no file is larger than an address space.\<close>

definition env_ok :: "env \<Rightarrow> bool" where
  "env_ok env \<longleftrightarrow> (\<forall>path. read_file (files env) path \<noteq> Pending \<and>
     (\<forall>contents. read_file (files env) path = Ret contents \<longrightarrow> length (decoded env contents) < 2 ^ 61))"

lemma piece_code_length: "parse lang s = (ps, e) \<Longrightarrow> p \<in> set ps \<Longrightarrow> length (piece_code p) \<le> length s"
proof -
  assume parse: "parse lang s = (ps, e)" and p: "p \<in> set ps"
  have "length (piece_code p) \<le> length (print_piece lang p)" by (simp add: print_piece_def)
  also have "\<dots> \<le> length (concat (map (print_piece lang) ps))"
    using p by (induction ps) auto
  also have "\<dots> \<le> length (print_template lang ps e)" by (simp add: print_template_def)
  also have "print_template lang ps e = s" by (rule parse_lossless [OF parse])
  finally show ?thesis .
qed

lemma include_path_length:
  assumes "parse lang s = (ps, e)" "p \<in> set ps" "length s < 2 ^ 61"
  shows "length (UTF16ToUTF8 (piece_code p)) < 2 ^ 64 - 1"
proof -
  have "length (UTF16ToUTF8 (piece_code p)) \<le> 3 * length (piece_code p)" by (rule length_UTF16ToUTF8)
  also have "\<dots> \<le> 3 * length s" using piece_code_length [OF assms(1,2)] by simp
  finally show ?thesis using assms(3) by simp
qed

text \<open>A run is over at a depth when all the includes it meets are.\<close>

lemma emit_settled:
  assumes "\<And>p. p \<in> set ps \<Longrightarrow> piece_kind p = Include \<Longrightarrow>
      include_text d cfg env (UTF16ToUTF8 (piece_code p)) \<noteq> Pending \<and>
      include_text d' cfg env (UTF16ToUTF8 (piece_code p)) = include_text d cfg env (UTF16ToUTF8 (piece_code p))"
  shows "emit cfg (new_generator d cfg env\<lparr>original_str := src\<rparr>) ps e acc \<noteq> Pending \<and>
    emit cfg (new_generator d' cfg env\<lparr>original_str := src\<rparr>) ps e acc =
    emit cfg (new_generator d cfg env\<lparr>original_str := src\<rparr>) ps e acc"
  using assms
proof (induction ps arbitrary: acc)
  case Nil
  show ?case
  proof (cases e)
    case (Unclosed_tag t k body)
    then show ?thesis
      by (cases k) (simp_all add: unclosed_tag_message_def default_tags_def new_generator_def supported_tags_def
          DefaultTags_code_include_def start_text_def prefix_text_def close_texts_def)
  qed (simp_all add: unknown_tag_message_def default_tags_def new_generator_def supported_tags_def)
next
  case (Cons p ps)
  let ?code = "UTF16ToUTF8 (piece_code p)"
  have r: "default_render d' cfg env (piece_kind p) ?code = default_render d cfg env (piece_kind p) ?code"
    "default_render d cfg env (piece_kind p) ?code \<noteq> Pending"
    using Cons.prems [of p] by (auto simp: default_render_def split: kind.split)
  have IH: "emit cfg (new_generator d cfg env\<lparr>original_str := src\<rparr>) ps e a \<noteq> Pending \<and>
    emit cfg (new_generator d' cfg env\<lparr>original_str := src\<rparr>) ps e a =
    emit cfg (new_generator d cfg env\<lparr>original_str := src\<rparr>) ps e a" for a
    using Cons.IH Cons.prems by simp
  show ?case
    using IH r(2)
    by (cases "default_render d cfg env (piece_kind p) ?code")
      (simp_all add: default_engine.callback_append OUTCOME_TRY_assoc r(1) OUTCOME_TRY_def split: sum.split)
qed

lemma generate_emit:
  assumes "src \<noteq> []" "length src < 2 ^ 63" "parse default_language src = (ps, e)"
  shows "generate depth cfg env src = noexcept (emit cfg (new_generator depth cfg env\<lparr>original_str := src\<rparr>) ps e [])"
  using generateFromString_emit [of "new_generator depth cfg env\<lparr>original_str := src\<rparr>" cfg] assms default_tags_ok
  by (simp add: generate_eq language_of_default)

lemma noexcept_Pending [simp]: "noexcept m = Pending \<longleftrightarrow> m = Pending"
  by (cases m) auto

lemma generate_empty: "generate depth cfg env [] = failure EMPTY_INPUT (''empty string as input'' @ '' ('' @ FILE cfg @ '')'')"
  by (simp add: generate_eq generateFromString_def performDebugChecks_ok default_tags_ok OUTCOME_TRY_def)

lemma generate_settled:
  assumes len: "length src < 2 ^ 61"
    and inc: "\<And>code. length code < 2 ^ 64 - 1 \<Longrightarrow> clean_path code \<in> set (includes_of src) \<Longrightarrow>
      include_text d cfg env code \<noteq> Pending \<and> include_text d' cfg env code = include_text d cfg env code"
  shows "generate d cfg env src \<noteq> Pending \<and> generate d' cfg env src = generate d cfg env src"
proof (cases "src = []")
  case False
  obtain ps e where p: "parse default_language src = (ps, e)" by fastforce
  have "include_text d cfg env (UTF16ToUTF8 (piece_code q)) \<noteq> Pending \<and>
      include_text d' cfg env (UTF16ToUTF8 (piece_code q)) = include_text d cfg env (UTF16ToUTF8 (piece_code q))"
    if "q \<in> set ps" "piece_kind q = Include" for q
    using that inc [OF include_path_length [OF p _ len]] by (force simp: includes_of_def p)
  from emit_settled [of ps d cfg env d' src e, OF this] show ?thesis
    using False len by (simp add: generate_emit [OF _ _ p])
qed (simp add: generate_empty)

lemma include_settled:
  assumes env: "env_ok env"
    and rank: "\<And>path q. q \<in> set (file_includes env path) \<Longrightarrow> rank q < rank path"
    and "length code < 2 ^ 64 - 1" "rank (clean_path code) < d" "d \<le> d'"
  shows "include_text d cfg env code \<noteq> Pending \<and> include_text d' cfg env code = include_text d cfg env code"
  using assms(3-)
proof (induction d arbitrary: code d')
  case (Suc d)
  then obtain d0 where d': "d' = Suc d0" "d \<le> d0" by (metis Suc_le_D Suc_le_mono)
  show ?case
  proof (cases "read_file (files env) (clean_path code)")
    case (Ret contents)
    show ?thesis
    proof (cases "contents = []")
      case False
      let ?src = "decoded env contents"
      have "length ?src < 2 ^ 61" using env Ret by (auto simp: env_ok_def)
      moreover have "include_text d cfg env c \<noteq> Pending \<and> include_text d0 cfg env c = include_text d cfg env c"
        if c: "length c < 2 ^ 64 - 1" "clean_path c \<in> set (includes_of ?src)" for c
      proof (rule Suc.IH [OF c(1) _ d'(2)])
        have "clean_path c \<in> set (file_includes env (clean_path code))"
          using c(2) Ret False by (simp add: file_includes_def)
        from rank [OF this] Suc.prems(2) show "rank (clean_path c) < d" by simp
      qed
      ultimately have g: "generate d cfg env ?src \<noteq> Pending \<and> generate d0 cfg env ?src = generate d cfg env ?src"
        by (rule generate_settled)
      then show ?thesis
        using Ret False
        by (cases "generate d cfg env ?src")
          (simp_all add: d'(1) include_text_Suc [OF Suc.prems(1)] decoded_def [symmetric] OUTCOME_TRY_def split: sum.split)
    qed (simp add: d'(1) include_text_Suc [OF Suc.prems(1)] Ret)
  qed (use env in \<open>simp_all add: d'(1) include_text_Suc [OF Suc.prems(1)] env_ok_def\<close>)
qed simp

lemma generate_returns:
  assumes len: "length src < 2 ^ 61"
    and inc: "\<And>code. length code < 2 ^ 64 - 1 \<Longrightarrow> clean_path code \<in> set (includes_of src) \<Longrightarrow>
      \<exists>r. include_text d cfg env code = Ret r"
  shows "\<exists>r. generate d cfg env src = Ret r"
proof -
  let ?gen = "new_generator d cfg env\<lparr>original_str := src\<rparr>"
  obtain ps e where p: "parse default_language src = (ps, e)" by fastforce
  have "\<exists>r. default_render d cfg env (piece_kind q) (UTF16ToUTF8 (piece_code q)) = Ret r" if "q \<in> set ps" for q
  proof (cases "piece_kind q = Include")
    case True
    with that inc [OF include_path_length [OF p that len]] show ?thesis
      by (force simp: includes_of_def p default_render_def)
  next
    case False
    then show ?thesis by (cases "piece_kind q") (simp_all add: default_render_def)
  qed
  then have "\<exists>r. generateFromString cfg ?gen = Ret r"
    using len p by (intro default_engine.generate_total [where depth = d and cfg = cfg and env = env])
      (simp_all add: language_of_default)
  then show ?thesis by (auto simp: generate_eq)
qed

text \<open>Every file can be looked at: the file system does not throw.\<close>

definition env_total :: "env \<Rightarrow> bool" where
  "env_total env \<longleftrightarrow> (\<forall>path. \<exists>contents. read_file (files env) path = Ret contents \<and>
     length (decoded env contents) < 2 ^ 61)"

lemma env_total_ok: "env_total env \<Longrightarrow> env_ok env"
  unfolding env_total_def env_ok_def by (metis run.distinct(5) run.inject(1))

lemma include_returns:
  assumes env: "env_total env"
    and rank: "\<And>path q. q \<in> set (file_includes env path) \<Longrightarrow> rank q < rank path"
    and "length code < 2 ^ 64 - 1" "rank (clean_path code) < d"
  shows "\<exists>r. include_text d cfg env code = Ret r"
  using assms(3-)
proof (induction d arbitrary: code)
  case (Suc d)
  from env obtain contents where c: "read_file (files env) (clean_path code) = Ret contents"
    "length (decoded env contents) < 2 ^ 61" unfolding env_total_def by blast
  show ?case
  proof (cases "contents = []")
    case False
    have "\<exists>r. include_text d cfg env c = Ret r"
      if "length c < 2 ^ 64 - 1" "clean_path c \<in> set (includes_of (decoded env contents))" for c
    proof (rule Suc.IH [OF that(1)])
      have "clean_path c \<in> set (file_includes env (clean_path code))"
        using that(2) c False by (simp add: file_includes_def)
      from rank [OF this] Suc.prems(2) show "rank (clean_path c) < d" by simp
    qed
    from generate_returns [OF c(2) this] obtain r where "generate d cfg env (decoded env contents) = Ret r" by blast
    then show ?thesis using c(1) False
      by (cases r) (simp_all add: include_text_Suc [OF Suc.prems(1)] decoded_def [symmetric])
  qed (simp add: include_text_Suc [OF Suc.prems(1)] c(1))
qed simp

section \<open>Examples to evaluate\<close>

definition debug_build :: build where
  "debug_build = \<lparr>debug = True, FILE = ''src/core/CXTPL.cpp''\<rparr>"

text \<open>A file system with the regular files of a list, relative paths only.\<close>

definition list_files :: "(string \<times> string) list \<Rightarrow> filesystem" where
  "list_files fs =
     \<lparr>fs_absolute = (\<lambda>p. Ret (CHR ''/'' # p)),
      fs_exists = (\<lambda>p. Ret (list_ex (\<lambda>(q, _). CHR ''/'' # q = p) fs)),
      fs_is_regular_file = (\<lambda>p. Ret True),
      fs_open = (\<lambda>p. map_of fs p)\<rparr>"

definition list_env :: "(string \<times> string) list \<Rightarrow> env" where
  "list_env fs = \<lparr>files = list_files fs, converters = plain_icu\<rparr>"

lemma read_list_files: "read_file (list_files fs) p = Ret (case map_of fs p of None \<Rightarrow> [] | Some c \<Rightarrow> c)"
proof -
  have "list_ex (\<lambda>(q, _). CHR ''/'' # q = CHR ''/'' # p) fs \<longleftrightarrow> map_of fs p \<noteq> None"
    by (induction fs) auto
  then show ?thesis
    by (cases "map_of fs p") (simp_all add: read_file_def list_files_def run_and_def)
qed

section \<open>Properties\<close>

text \<open>
  C2: with the default tags, \<open>generate_from_UTF16\<close> succeeds on a nonempty source exactly when the source
  is the print of a canonical template whose includes all succeed, and then the generated code is, piece
  by piece and in order, the raw text before the tag, what the tag renders to, and the raw text at the end.
\<close>

theorem default_generate_correct:
  assumes "src \<noteq> []" "length src < 2 ^ 63"
  shows "generate depth cfg env src = success out \<longleftrightarrow>
    (\<exists>ps t body. canonical default_language ps t \<and> src = print_template default_language ps (Tail t) \<and>
       render_all (default_render depth cfg env) ps = success body \<and> out = body @ raw_code t)"
  using assms by (rule default_generate_iff)

theorem default_generate_correct_witness:
  "generate 0 debug_build (list_env []) (ASCIIToUTF16 ''a[[~ f(); ~]][[+ x +]]b'') =
     success (raw_code (ASCIIToUTF16 ''a'') @ '' f(); '' @ [CHR 0x0A] @ appendToVariable '' x '' ''cxtpl_output''
       @ raw_code (ASCIIToUTF16 ''b''))"
proof -
  let ?ps = "[\<lparr>piece_text = ASCIIToUTF16 ''a'', piece_kind = Block, piece_code = ASCIIToUTF16 '' f(); '',
      piece_closer = ASCIIToUTF16 ''~]]''\<rparr>,
    \<lparr>piece_text = [], piece_kind = Raw, piece_code = ASCIIToUTF16 '' x '', piece_closer = ASCIIToUTF16 ''+]]''\<rparr>]"
  have can: "canonical default_language ?ps (ASCIIToUTF16 ''b'')" by code_simp
  have src: "ASCIIToUTF16 ''a[[~ f(); ~]][[+ x +]]b'' =
      print_template default_language ?ps (Tail (ASCIIToUTF16 ''b''))" by code_simp
  have ren: "render_all (default_render 0 debug_build (list_env [])) ?ps =
      success (raw_code (ASCIIToUTF16 ''a'') @ '' f(); '' @ raw_code [] @ appendToVariable '' x '' kOutVarName)"
    by (simp add: default_render_def executeCodeMultiline_def UTF16ToUTF8_ASCII)
  have nl: "raw_code [] = [CHR 0x0A]" by (simp add: append_raw_text_def)
  have ne: "ASCIIToUTF16 ''a[[~ f(); ~]][[+ x +]]b'' \<noteq> []"
    "length (ASCIIToUTF16 ''a[[~ f(); ~]][[+ x +]]b'') < 2 ^ 63"
    by simp_all
  have "generate 0 debug_build (list_env []) (ASCIIToUTF16 ''a[[~ f(); ~]][[+ x +]]b'') =
      success ((raw_code (ASCIIToUTF16 ''a'') @ '' f(); '' @ raw_code [] @ appendToVariable '' x '' kOutVarName)
        @ raw_code (ASCIIToUTF16 ''b''))"
    unfolding default_generate_correct [OF ne] using can src ren by blast
  then show ?thesis by (simp add: nl kOutVarName_def)
qed

text \<open>
  C5: when no file includes itself, directly or through others (a rank decreases along every include),
  a depth above the ranks is enough: the run returns, it returns a value (an error value on a malformed
  template, never an exception and never the end of the process), and more depth changes nothing.
\<close>

theorem includes_terminate:
  assumes "env_total env" "length src < 2 ^ 61"
    and rank: "\<And>path q. q \<in> set (file_includes env path) \<Longrightarrow> rank q < rank path"
    and depth: "\<And>q. q \<in> set (includes_of src) \<Longrightarrow> rank q < depth"
  shows "\<exists>r. \<forall>d \<ge> depth. generate d cfg env src = Ret r"
proof -
  have "\<exists>r. generate depth cfg env src = Ret r"
    by (rule generate_returns [OF assms(2)], rule include_returns [where rank = rank, OF assms(1) rank])
      (use depth in auto)
  moreover have "generate d cfg env src = generate depth cfg env src" if "depth \<le> d" for d
  proof -
    have "generate depth cfg env src \<noteq> Pending \<and> generate d cfg env src = generate depth cfg env src"
      by (rule generate_settled [OF assms(2)],
          rule include_settled [where rank = rank, OF env_total_ok [OF assms(1)] rank _ _ that])
        (use depth in auto)
    then show ?thesis by blast
  qed
  ultimately show ?thesis by metis
qed

lemma list_env_total:
  assumes "\<And>p c. map_of fs p = Some c \<Longrightarrow> length (decoded (list_env fs) c) < 2 ^ 61"
    and "length (decoded (list_env fs) []) < 2 ^ 61"
  shows "env_total (list_env fs)"
  unfolding env_total_def
proof
  fix path
  show "\<exists>c. read_file (files (list_env fs)) path = Ret c \<and> length (decoded (list_env fs) c) < 2 ^ 61"
    using assms by (cases "map_of fs path") (simp_all add: list_env_def read_list_files)
qed

theorem includes_terminate_witness:
  "\<exists>r. \<forall>d \<ge> 1. generate d debug_build (list_env [(''b'', ''x'')]) (ASCIIToUTF16 ''[[include b include]]'') = Ret r"
proof (rule includes_terminate [where rank = "\<lambda>_. 0"])
  let ?env = "list_env [(''b'', ''x'')]"
  have d: "decoded ?env ''x'' = ASCIIToUTF16 ''x''" "decoded ?env [] = []" by code_simp+
  show "env_total ?env"
    by (rule list_env_total) (auto simp: d split: if_splits)
  have "includes_of (decoded ?env ''x'') = []" by code_simp
  then have "file_includes ?env path = []" for path
    by (cases "map_of [(''b'', ''x'')] path")
      (auto simp: file_includes_def list_env_def read_list_files split: if_splits)
  then show "q \<in> set (file_includes ?env path) \<Longrightarrow> (0::nat) < 0" for path q by simp
qed simp_all

text \<open>
  C6: files whose first tag includes another of them never come to an end: for such a set of files an
  include of any of them, and so every template that begins with one, is still running at every depth.
\<close>

theorem include_cycle_never_returns:
  assumes cycle: "\<And>path. path \<in> P \<Longrightarrow> \<exists>contents q ps e.
      read_file (files env) path = Ret contents \<and> contents \<noteq> [] \<and> length (decoded env contents) < 2 ^ 61 \<and>
      parse default_language (decoded env contents) = (q # ps, e) \<and> piece_kind q = Include \<and>
      clean_path (UTF16ToUTF8 (piece_code q)) \<in> P"
    and "length code < 2 ^ 64 - 1" "clean_path code \<in> P"
  shows "include_text depth cfg env code = Pending"
  using assms(2,3)
proof (induction depth arbitrary: code)
  case 0
  then show ?case by (simp add: include_text_def)
next
  case (Suc depth)
  from cycle [OF Suc.prems(2)] obtain contents q ps e where c:
    "read_file (files env) (clean_path code) = Ret contents" "contents \<noteq> []"
    "length (decoded env contents) < 2 ^ 61" "parse default_language (decoded env contents) = (q # ps, e)"
    "piece_kind q = Include" "clean_path (UTF16ToUTF8 (piece_code q)) \<in> P" by blast
  let ?src = "decoded env contents"
  have "?src \<noteq> []"
  proof
    assume "?src = []"
    with c(4) show False by (simp add: parse.simps default_language_def)
  qed
  moreover have "include_text depth cfg env (UTF16ToUTF8 (piece_code q)) = Pending"
    using include_path_length [OF c(4) _ c(3)] c(6) by (intro Suc.IH) simp_all
  ultimately have "generate depth cfg env ?src = Pending"
    using c(3,5)
    by (simp add: generate_emit [OF _ _ c(4)] default_render_def
        default_engine.callback_append [where k = Include, unfolded tag_of.simps])
  then show ?case
    using c(1,2) by (simp add: include_text_Suc [OF Suc.prems(1)] decoded_def [symmetric])
qed

theorem include_cycle_never_returns_witness:
  "include_text 1000 debug_build (list_env [(''a'', ''[[include a include]]'')]) '' a '' = Pending"
proof (rule include_cycle_never_returns [where P = "{''a''}"])
  let ?env = "list_env [(''a'', ''[[include a include]]'')]"
  let ?q = "\<lparr>piece_text = [], piece_kind = Include, piece_code = ASCIIToUTF16 '' a '', piece_closer = ASCIIToUTF16 ''include]]''\<rparr>"
  have d: "decoded ?env ''[[include a include]]'' = ASCIIToUTF16 ''[[include a include]]''" by code_simp
  have p: "parse default_language (ASCIIToUTF16 ''[[include a include]]'') = ([?q], Tail [])" by code_simp
  have clean: "clean_path '' a '' = ''a''" by code_simp
  show "clean_path '' a '' \<in> {''a''}" by (simp add: clean)
  show "length '' a '' < 2 ^ 64 - 1" by simp
  fix path assume "path \<in> {''a''}"
  then show "\<exists>contents q ps e. read_file (files ?env) path = Ret contents \<and> contents \<noteq> [] \<and>
      length (decoded ?env contents) < 2 ^ 61 \<and> parse default_language (decoded ?env contents) = (q # ps, e) \<and>
      piece_kind q = Include \<and> clean_path (UTF16ToUTF8 (piece_code q)) \<in> {''a''}"
    using p clean d
    by (intro exI [of _ "''[[include a include]]''"] exI [of _ ?q] exI [of _ "[]"] exI [of _ "Tail []"])
      (simp add: list_env_def read_list_files UTF16ToUTF8_ASCII)
qed

text \<open>
  C7: the statement generated for a nonempty text is the head, a raw string literal and the tail. The
  compiler reads the literal back as exactly that text when, and only when, the text does not contain
  the closing mark of the literal; otherwise the literal ends early and the rest of the text is code.
\<close>

theorem raw_text_verbatim:
  assumes "t \<noteq> []"
  shows "\<exists>lit. raw_code t = raw_text_head kOutVarName @ lit \<and>
    (lex_raw_string lit = Some (UTF16ToUTF8 t, raw_text_tail) \<longleftrightarrow> \<not> sublist raw_close (UTF16ToUTF8 t)) \<and>
    (sublist raw_close (UTF16ToUTF8 t) \<longrightarrow>
       (\<exists>n < length (UTF16ToUTF8 t). lex_raw_string lit = Some (take n (UTF16ToUTF8 t),
          drop (n + 5) (UTF16ToUTF8 t @ raw_close @ raw_text_tail))))"
proof -
  let ?s = "UTF16ToUTF8 t" and ?lit = "raw_open @ UTF16ToUTF8 t @ raw_close @ raw_text_tail"
  have "raw_code t = raw_text_head kOutVarName @ ?lit"
    using assms by (simp add: append_raw_text_def appendToVariableAsRawText_split)
  moreover have "lex_raw_string ?lit \<noteq> Some (?s, raw_text_tail)" if "sublist raw_close ?s"
  proof -
    from raw_literal_cut [OF that, of raw_text_tail] obtain n where "n < length ?s"
      "lex_raw_string ?lit = Some (take n ?s, drop (n + 5) (?s @ raw_close @ raw_text_tail))" by blast
    then have "lex_raw_string ?lit = Some (?s, raw_text_tail) \<Longrightarrow> length (take n ?s) = length ?s" by auto
    with \<open>n < length ?s\<close> show ?thesis by auto
  qed
  ultimately show ?thesis
    using raw_literal_exact [of ?s raw_text_tail] raw_literal_cut [of ?s raw_text_tail]
    by (intro exI [of _ ?lit]) blast
qed

theorem raw_text_verbatim_witness:
  "\<exists>lit. raw_code (ASCIIToUTF16 '')raw'') = raw_text_head kOutVarName @ lit \<and>
     lex_raw_string lit = Some ('')raw'', raw_text_tail)"
proof -
  have "\<not> sublist raw_close '')raw''" by (auto simp: raw_close_def dest!: sublist_length_le)
  then show ?thesis
    using raw_text_verbatim [of "ASCIIToUTF16 '')raw''"] by (auto simp: UTF16ToUTF8_ASCII)
qed

text \<open>
  C8: an include whose file cannot be found or opened, is no regular file, is empty, or makes the file
  system throw while it is looked at, is the error \<open>EMPTY_INPUT\<close>, with the path in its text, and not
  one of the two file errors.
\<close>

theorem include_missing_file:
  assumes "length path < 2 ^ 64 - 1" and "fs_absolute (files env) (clean_path path) = Ret p"
    and "fs_exists (files env) p \<in> {Ret False, Raise System_error} \<or>
      fs_exists (files env) p = Ret True \<and>
        (fs_is_regular_file (files env) p \<in> {Ret False, Raise System_error} \<or>
         fs_is_regular_file (files env) p = Ret True \<and> fs_open (files env) (clean_path path) \<in> {None, Some []})"
  shows "code_include_cb (Suc depth) cfg env acc path kOutVarName =
    failure EMPTY_INPUT (''(CXTPL) Empty file '' @ clean_path path)"
proof -
  have "read_file (files env) (clean_path path) = Ret []"
    using assms(2,3) by (auto simp: read_file_def run_and_def)
  then show ?thesis
    unfolding code_include_cb_append include_text_Suc [OF assms(1)] by simp
qed

theorem include_missing_file_witness:
  "code_include_cb 1 debug_build (list_env []) [] '' b '' kOutVarName = failure EMPTY_INPUT ''(CXTPL) Empty file b''"
proof -
  have c: "clean_path '' b '' = ''b''" by code_simp
  show ?thesis
    using include_missing_file [of "'' b ''" "list_env []" "''/b''" 0 debug_build "[]"]
    by (simp add: c list_env_def list_files_def)
qed

end
