(* ===== verification/Cxtpl_System.thy ===== *)
theory Cxtpl_System
  imports Cxtpl_Prelude
begin

text \<open>
  What the command line tool asks of its surroundings: the paths of \<open>std::filesystem\<close>, the file
  operations of \<open>folly\<close> and the operating system, and the random numbers of \<open>folly::Random\<close>. The
  operations are parameters, fields of a record over any type of system states. What they promise
  is the locale \<open>posix\<close>, in which every operation may also fail; a disk whose operations fail on
  schedule interprets it.
\<close>

section \<open>Stateful runs\<close>

text \<open>A stateful C++ function: a run together with the state it leaves behind, however it ends.\<close>

type_synonym ('s, 'a) io = "'s \<Rightarrow> 'a run \<times> 's"

definition io_return :: "'a \<Rightarrow> ('s, 'a) io" where
  "io_return x = (\<lambda>s. (Ret x, s))"

definition io_terminate :: "('s, 'a) io" where
  "io_terminate = (\<lambda>s. (Terminated, s))"

definition io_run :: "'a run \<Rightarrow> ('s, 'a) io" where
  "io_run r = (\<lambda>s. (r, s))"

definition io_bind :: "('s, 'a) io \<Rightarrow> ('a \<Rightarrow> ('s, 'b) io) \<Rightarrow> ('s, 'b) io" where
  "io_bind m f = (\<lambda>s. case m s of
     (Ret x, t) \<Rightarrow> f x t | (Raise e, t) \<Rightarrow> (Raise e, t) | (Terminated, t) \<Rightarrow> (Terminated, t) | (Pending, t) \<Rightarrow> (Pending, t))"

text \<open>\<open>catch (const std::system_error&)\<close>, and the one for the \<open>fs::filesystem_error\<close> derived from it.\<close>

definition io_catch :: "('s, 'a) io \<Rightarrow> ('s, 'a) io \<Rightarrow> ('s, 'a) io" where
  "io_catch m handler = (\<lambda>s. case m s of (Raise System_error, t) \<Rightarrow> handler t | rt \<Rightarrow> rt)"

text \<open>
  A scope guard (\<open>gsl::finally\<close>, \<open>folly::makeGuard\<close>, a destructor): runs on return and on an exception,
  ends the process when it throws itself, and does not run when the process ends inside the scope.
\<close>

definition io_finally :: "('s, 'a) io \<Rightarrow> ('s, unit) io \<Rightarrow> ('s, 'a) io" where
  "io_finally m cleanup = (\<lambda>s. case m s of
     (Ret x, t) \<Rightarrow> (case cleanup t of (Ret _, u) \<Rightarrow> (Ret x, u) | (Pending, u) \<Rightarrow> (Pending, u) | (_, u) \<Rightarrow> (Terminated, u))
   | (Raise e, t) \<Rightarrow> (case cleanup t of (Ret _, u) \<Rightarrow> (Raise e, u) | (Pending, u) \<Rightarrow> (Pending, u) | (_, u) \<Rightarrow> (Terminated, u))
   | (Terminated, t) \<Rightarrow> (Terminated, t) | (Pending, t) \<Rightarrow> (Pending, t))"

text \<open>\<open>ensures m s Q\<close>: the run of \<open>m\<close> from \<open>s\<close> ends with a result and a state that satisfy \<open>Q\<close>.\<close>

definition ensures :: "('s, 'a) io \<Rightarrow> 's \<Rightarrow> ('a run \<Rightarrow> 's \<Rightarrow> bool) \<Rightarrow> bool" where
  "ensures m s Q \<longleftrightarrow> (case m s of (r, t) \<Rightarrow> Q r t)"

named_theorems ensures_simps \<open>what a composed run ensures, in terms of its parts\<close>

lemma ensures_return [ensures_simps]: "ensures (io_return x) s Q \<longleftrightarrow> Q (Ret x) s"
  and ensures_terminate [ensures_simps]: "ensures io_terminate s Q \<longleftrightarrow> Q Terminated s"
  and ensures_run [ensures_simps]: "ensures (io_run r) s Q \<longleftrightarrow> Q r s"
  by (simp_all add: ensures_def io_return_def io_terminate_def io_run_def)

lemma ensures_bind [ensures_simps]:
  "ensures (io_bind m f) s Q \<longleftrightarrow> ensures m s (\<lambda>r t. case r of
     Ret x \<Rightarrow> ensures (f x) t Q | Raise e \<Rightarrow> Q (Raise e) t | Terminated \<Rightarrow> Q Terminated t | Pending \<Rightarrow> Q Pending t)"
  by (auto simp: ensures_def io_bind_def split: prod.split run.split)

lemma ensures_catch [ensures_simps]:
  "ensures (io_catch m h) s Q \<longleftrightarrow>
     ensures m s (\<lambda>r t. if r = Raise System_error then ensures h t Q else Q r t)"
  by (auto simp: ensures_def io_catch_def split: prod.split run.split cpp_exception.split)

lemma ensures_finally [ensures_simps]:
  "ensures (io_finally m c) s Q \<longleftrightarrow>
     ensures m s (\<lambda>r t. if r = Terminated \<or> r = Pending then Q r t
       else ensures c t (\<lambda>r' u. case r' of Ret _ \<Rightarrow> Q r u | Pending \<Rightarrow> Q Pending u | _ \<Rightarrow> Q Terminated u))"
  by (auto simp: ensures_def io_finally_def split: prod.split run.split)

lemma ensures_if [ensures_simps]:
  "ensures (if b then m else m') s Q \<longleftrightarrow> (if b then ensures m s Q else ensures m' s Q)"
  by simp

lemma ensures_mono: "ensures m s P \<Longrightarrow> (\<And>r t. P r t \<Longrightarrow> Q r t) \<Longrightarrow> ensures m s Q"
  by (auto simp: ensures_def split: prod.splits)

lemma ensuresD: "ensures m s Q \<Longrightarrow> m s = (r, t) \<Longrightarrow> Q r t"
  by (simp add: ensures_def)

lemma ensures_conj: "ensures m s P \<Longrightarrow> ensures m s Q \<Longrightarrow> ensures m s (\<lambda>r t. P r t \<and> Q r t)"
  by (auto simp: ensures_def split: prod.splits)

section \<open>Paths\<close>

text \<open>
  \<open>std::filesystem::path\<close> on POSIX: \<open>filename\<close> is what follows the last slash, \<open>parent_path\<close> drops it and
  the slashes before it unless they are the root, and \<open>operator/\<close> joins unless the right side is absolute.
\<close>

definition is_absolute :: "string \<Rightarrow> bool" where
  "is_absolute p \<longleftrightarrow> take 1 p = ''/''"

definition filename :: "string \<Rightarrow> string" where
  "filename p = rev (takeWhile (\<lambda>c. c \<noteq> CHR ''/'') (rev p))"

definition parent_path :: "string \<Rightarrow> string" where
  "parent_path p =
     (let dir = rev (dropWhile (\<lambda>c. c \<noteq> CHR ''/'') (rev p));
          stem = rev (dropWhile (\<lambda>c. c = CHR ''/'') (rev dir))
      in if stem = [] then dir else stem)"

definition path_join :: "string \<Rightarrow> string \<Rightarrow> string" where
  "path_join p q =
     (if is_absolute q then q
      else if p = [] \<or> last p = CHR ''/'' then p @ q
      else p @ ''/'' @ q)"

lemma filename_no_slash [simp]: "CHR ''/'' \<notin> set (filename p)"
  by (auto simp: filename_def dest: set_takeWhileD)

lemma filename_after_slash: "CHR ''/'' \<notin> set q \<Longrightarrow> filename (p @ ''/'' @ q) = q"
  by (simp add: filename_def takeWhile_append)

lemma filename_join:
  assumes "CHR ''/'' \<notin> set q" "p \<noteq> []" "q \<noteq> []"
  shows "filename (path_join p q) = q"
proof (cases "last p = CHR ''/''")
  case True
  have "p = butlast p @ ''/''" using True assms(2) by (metis append_butlast_last_id)
  then have "p @ q = butlast p @ ''/'' @ q" by (metis append.assoc)
  moreover have "path_join p q = p @ q"
    using assms True by (cases q) (auto simp: path_join_def is_absolute_def)
  ultimately show ?thesis using filename_after_slash [OF assms(1)] by metis
next
  case False
  then show ?thesis using assms filename_after_slash [of q p]
    by (cases q) (auto simp: path_join_def is_absolute_def)
qed

section \<open>The operations of the system\<close>

datatype open_flag = O_RDONLY | O_WRONLY | O_CREAT | O_TRUNC | O_APPEND

record 's os =
  os_current_path :: "('s, string) io"
  os_set_current_path :: "string \<Rightarrow> ('s, unit) io"
  os_is_directory :: "string \<Rightarrow> ('s, bool) io"
  os_create_directories :: "string \<Rightarrow> ('s, bool) io"
  os_remove :: "string \<Rightarrow> ('s, bool) io"
  os_rename :: "string \<Rightarrow> string \<Rightarrow> ('s, unit) io"
  openNoInt :: "string \<Rightarrow> open_flag list \<Rightarrow> nat \<Rightarrow> ('s, int) io"
  readNoInt :: "int \<Rightarrow> nat \<Rightarrow> ('s, int \<times> string) io"
  writeFull :: "int \<Rightarrow> string \<Rightarrow> ('s, int) io"
  closeNoInt :: "int \<Rightarrow> ('s, int) io"
  folly_File :: "string \<Rightarrow> ('s, int) io"
  rand32 :: "nat \<Rightarrow> nat \<Rightarrow> ('s, nat) io"

text \<open>\<open>std::filesystem::absolute\<close> puts the current directory before a relative path.\<close>

definition absolute_path :: "'s os \<Rightarrow> string \<Rightarrow> ('s, string) io" where
  "absolute_path os p =
     (if is_absolute p then io_return p
      else io_bind (os_current_path os) (\<lambda>cwd. io_return (path_join cwd p)))"

text \<open>
  What the operations promise, as their manual pages document it. \<open>content\<close> is the content of the file a
  path names, \<open>cwd\<close> the current directory, \<open>writing\<close> the file that a descriptor writes at the end
  of, \<open>unread\<close> what a descriptor has still to read. Every operation may fail: those of \<open>std::filesystem\<close> with an
  exception, the others with \<open>-1\<close> or \<open>False\<close>; a failed operation leaves every file as it is, except a
  write, which may have written a part. Two paths that name one file (links, mounts) are excluded.
\<close>

locale posix =
  fixes os :: "'s os"
    and content :: "'s \<Rightarrow> string \<Rightarrow> string option"
    and cwd :: "'s \<Rightarrow> string"
    and writing :: "'s \<Rightarrow> int \<Rightarrow> string option"
    and unread :: "'s \<Rightarrow> int \<Rightarrow> string"
  assumes current_path_law: "ensures (os_current_path os) s (\<lambda>r t. content t = content s \<and> cwd t = cwd s \<and>
      (r = Ret (cwd s) \<or> r = Raise System_error))"
    and chdir_law: "ensures (os_set_current_path os p) s (\<lambda>r t. content t = content s \<and>
      (r = Ret () \<and> cwd t = (if is_absolute p then p else path_join (cwd s) p) \<or> r = Raise System_error \<and> cwd t = cwd s))"
    and is_directory_law: "ensures (os_is_directory os p) s (\<lambda>r t. content t = content s \<and> cwd t = cwd s \<and>
      ((\<exists>b. r = Ret b) \<or> r = Raise System_error))"
    and create_directories_law: "ensures (os_create_directories os p) s (\<lambda>r t. content t = content s \<and> cwd t = cwd s \<and>
      ((\<exists>b. r = Ret b) \<or> r = Raise System_error))"
    and remove_law: "ensures (os_remove os p) s (\<lambda>r t. cwd t = cwd s \<and>
      (r = Ret True \<and> content t = (content s)(p := None) \<or> r = Ret False \<and> content t = content s))"
    and rename_law: "ensures (os_rename os p q) s (\<lambda>r t. cwd t = cwd s \<and>
      (r = Ret () \<and> content s p \<noteq> None \<and> content t = ((content s)(p := None))(q := content s p) \<or>
       r = Raise System_error \<and> content t = content s))"
    and create_law: "O_CREAT \<in> set flags \<Longrightarrow> O_WRONLY \<in> set flags \<Longrightarrow> O_TRUNC \<in> set flags \<or> O_APPEND \<in> set flags \<Longrightarrow>
      ensures (openNoInt os p flags mode) s (\<lambda>r t. cwd t = cwd s \<and>
      (\<exists>fd. r = Ret fd \<and>
        (fd = -1 \<and> content t = content s \<or>
         fd \<noteq> -1 \<and> writing t fd = Some p \<and>
           content t = (content s)(p \<mapsto> if O_TRUNC \<in> set flags then [] else case content s p of Some c \<Rightarrow> c | None \<Rightarrow> []))))"
    and write_law: "writing s fd = Some p \<Longrightarrow> content s p = Some c \<Longrightarrow>
      ensures (writeFull os fd data) s (\<lambda>r t. cwd t = cwd s \<and>
      (\<exists>n k. r = Ret n \<and> k \<le> length data \<and> (n = -1 \<or> n = int k) \<and> content t = (content s)(p \<mapsto> c @ take k data)))"
    and close_law: "ensures (closeNoInt os fd) s (\<lambda>r t. content t = content s \<and> cwd t = cwd s \<and> (r = Ret 0 \<or> r = Ret (-1)))"
    and file_law: "ensures (folly_File os p) s (\<lambda>r t. content t = content s \<and> cwd t = cwd s \<and>
      (r = Raise System_error \<or> (\<exists>fd c. r = Ret fd \<and> content s p = Some c \<and> unread t fd = c)))"
    and read_law: "0 < n \<Longrightarrow> ensures (readNoInt os fd n) s (\<lambda>r t. content t = content s \<and> cwd t = cwd s \<and>
      (\<exists>rc chunk. r = Ret (rc, chunk) \<and>
        (rc < 0 \<or> rc = int (length chunk) \<and> length chunk \<le> n \<and> unread s fd = chunk @ unread t fd \<and>
           (chunk = [] \<longrightarrow> unread s fd = []))))"
    and rand32_law: "lo < hi \<Longrightarrow> ensures (rand32 os lo hi) s (\<lambda>r t. content t = content s \<and> cwd t = cwd s \<and>
      (\<exists>n. r = Ret n \<and> lo \<le> n \<and> n < hi))"
begin

lemma set_current_path_law:
  "is_absolute p \<Longrightarrow> ensures (os_set_current_path os p) s (\<lambda>r t. content t = content s \<and>
     (r = Ret () \<and> cwd t = p \<or> r = Raise System_error \<and> cwd t = cwd s))"
  by (rule ensures_mono [OF chdir_law]) auto

lemma absolute_path_law:
  "ensures (absolute_path os p) s (\<lambda>r t. content t = content s \<and> cwd t = cwd s \<and>
     (r = Raise System_error \<or> r = Ret (if is_absolute p then p else path_join (cwd s) p)))"
  by (auto simp: absolute_path_def ensures_simps intro!: ensures_mono [OF current_path_law])

end
end
