(* ===== verification/Cxtpl_Disk.thy ===== *)
theory Cxtpl_Disk
  imports Cxtpl_System
begin

text \<open>
  A disk with the operations of the record \<open>os\<close>. Its operations follow a schedule of faults: each takes
  the next entry and works, fails, or (for reads and writes) transfers a part. A schedule whose entries
  are all \<open>Fails\<close> from some point on leaves the disk as it is at that point, so what holds for
  every schedule holds for a crash at every point.
\<close>

datatype fault = Works | Fails | Short nat

record disk =
  disk_files :: "string \<Rightarrow> string option"
  disk_dirs :: "string list"
  disk_cwd :: string
  disk_writers :: "int \<Rightarrow> string option"
  disk_readers :: "int \<Rightarrow> string"
  disk_next_fd :: nat
  disk_random :: "nat list"
  disk_faults :: "fault list"

fun disk_op :: "(disk \<Rightarrow> 'a run \<times> disk) \<Rightarrow> (nat \<Rightarrow> disk \<Rightarrow> 'a run \<times> disk) \<Rightarrow> 'a run \<Rightarrow> (disk, 'a) io" where
  "disk_op works short failed d =
     (case disk_faults d of
        [] \<Rightarrow> works d
      | Works # fs \<Rightarrow> works (d\<lparr>disk_faults := fs\<rparr>)
      | Fails # fs \<Rightarrow> (failed, d\<lparr>disk_faults := fs\<rparr>)
      | Short n # fs \<Rightarrow> short n (d\<lparr>disk_faults := fs\<rparr>))"

definition disk_simple :: "(disk \<Rightarrow> 'a run \<times> disk) \<Rightarrow> 'a run \<Rightarrow> (disk, 'a) io" where
  "disk_simple works failed = disk_op works (\<lambda>_. works) failed"

lemma ensures_disk_op [ensures_simps]:
  "ensures (disk_op works short failed) d Q \<longleftrightarrow>
     (case disk_faults d of
        [] \<Rightarrow> ensures works d Q
      | Works # fs \<Rightarrow> ensures works (d\<lparr>disk_faults := fs\<rparr>) Q
      | Fails # fs \<Rightarrow> Q failed (d\<lparr>disk_faults := fs\<rparr>)
      | Short n # fs \<Rightarrow> ensures (short n) (d\<lparr>disk_faults := fs\<rparr>) Q)"
  by (auto simp: ensures_def split: list.split fault.split)

definition ancestors :: "string \<Rightarrow> string list" where
  "ancestors p = p # map (\<lambda>i. take i p) (filter (\<lambda>i. p ! i = CHR ''/'') [1..<length p])"

definition disk_create :: "string \<Rightarrow> open_flag list \<Rightarrow> disk \<Rightarrow> int run \<times> disk" where
  "disk_create p flags d =
     (if O_CREAT \<in> set flags \<and> parent_path p \<in> set (disk_dirs d) then
        let fd = int (3 + disk_next_fd d) in
        (Ret fd, d\<lparr>disk_next_fd := Suc (disk_next_fd d), disk_writers := (disk_writers d)(fd \<mapsto> p),
           disk_files := (disk_files d)(p \<mapsto> if O_TRUNC \<in> set flags then []
             else case disk_files d p of Some c \<Rightarrow> c | None \<Rightarrow> [])\<rparr>)
      else (Ret (-1), d))"

definition disk_append :: "nat \<Rightarrow> int run \<Rightarrow> int \<Rightarrow> string \<Rightarrow> disk \<Rightarrow> int run \<times> disk" where
  "disk_append n r fd data d =
     (case disk_writers d fd of
        None \<Rightarrow> (Ret (-1), d)
      | Some p \<Rightarrow> (case disk_files d p of
           None \<Rightarrow> (Ret (-1), d)
         | Some c \<Rightarrow> (r, d\<lparr>disk_files := (disk_files d)(p \<mapsto> c @ take n data)\<rparr>)))"

definition disk_read :: "nat \<Rightarrow> int \<Rightarrow> disk \<Rightarrow> (int \<times> string) run \<times> disk" where
  "disk_read n fd d =
     (let chunk = take n (disk_readers d fd) in
      (Ret (int (length chunk), chunk),
       d\<lparr>disk_readers := (disk_readers d)(fd := drop n (disk_readers d fd))\<rparr>))"

definition disk_open_file :: "string \<Rightarrow> disk \<Rightarrow> int run \<times> disk" where
  "disk_open_file p d =
     (case disk_files d p of
        None \<Rightarrow> (Raise System_error, d)
      | Some c \<Rightarrow> (let fd = int (3 + disk_next_fd d) in
          (Ret fd, d\<lparr>disk_next_fd := Suc (disk_next_fd d), disk_readers := (disk_readers d)(fd := c)\<rparr>)))"

definition disk_os :: "disk os" where
  "disk_os =
     \<lparr>os_current_path = disk_simple (\<lambda>d. (Ret (disk_cwd d), d)) (Raise System_error),
      os_set_current_path = (\<lambda>p. disk_simple
         (\<lambda>d. (Ret (), d\<lparr>disk_cwd := (if is_absolute p then p else path_join (disk_cwd d) p)\<rparr>)) (Raise System_error)),
      os_is_directory = (\<lambda>p. disk_simple (\<lambda>d. (Ret (p \<in> set (disk_dirs d)), d)) (Raise System_error)),
      os_create_directories = (\<lambda>p. disk_simple
         (\<lambda>d. (Ret (p \<notin> set (disk_dirs d)), d\<lparr>disk_dirs := ancestors p @ disk_dirs d\<rparr>)) (Raise System_error)),
      os_remove = (\<lambda>p. disk_simple
         (\<lambda>d. case disk_files d p of
            None \<Rightarrow> (Ret False, d)
          | Some _ \<Rightarrow> (Ret True, d\<lparr>disk_files := (disk_files d)(p := None)\<rparr>)) (Ret False)),
      os_rename = (\<lambda>p q. disk_simple
         (\<lambda>d. case disk_files d p of
            None \<Rightarrow> (Raise System_error, d)
          | Some c \<Rightarrow> (Ret (), d\<lparr>disk_files := ((disk_files d)(p := None))(q := Some c)\<rparr>)) (Raise System_error)),
      openNoInt = (\<lambda>p flags mode. disk_simple (disk_create p flags) (Ret (-1))),
      readNoInt = (\<lambda>fd n. disk_op (disk_read n fd) (\<lambda>k. disk_read (min n (Suc k)) fd) (Ret (-1, []))),
      writeFull = (\<lambda>fd data. disk_op (disk_append (length data) (Ret (int (length data))) fd data)
         (\<lambda>k. disk_append k (Ret (-1)) fd data) (Ret (-1))),
      closeNoInt = (\<lambda>fd. disk_simple (\<lambda>d. (Ret 0, d)) (Ret (-1))),
      folly_File = (\<lambda>p. disk_simple (disk_open_file p) (Raise System_error)),
      rand32 = (\<lambda>lo hi d. case disk_random d of
          [] \<Rightarrow> (Ret lo, d)
        | n # ns \<Rightarrow> (Ret (if lo < hi then lo + n mod (hi - lo) else lo), d\<lparr>disk_random := ns\<rparr>))\<rparr>"

text \<open>The disk keeps the promises of \<open>posix\<close>.\<close>

lemma disk_min_take: "length (take k (xs :: 'a list)) \<le> length xs"
  by simp

lemma short_write: "\<exists>k \<le> length data. m(p \<mapsto> c @ take n data) = m(p \<mapsto> c @ take k data)"
  by (rule exI [of _ "min n (length data)"]) (simp add: min_def)

lemma rand_bound: "lo < hi \<Longrightarrow> lo + n mod (hi - lo) < hi" for n :: nat
  using mod_less_divisor [of "hi - lo" n] by linarith

interpretation disk: posix disk_os disk_files disk_cwd disk_writers disk_readers
proof
  fix fd :: int and n :: nat and s :: disk
  assume "0 < n"
  then show "ensures (readNoInt disk_os fd n) s (\<lambda>r t. disk_files t = disk_files s \<and> disk_cwd t = disk_cwd s \<and>
      (\<exists>rc chunk. r = Ret (rc, chunk) \<and>
        (rc < 0 \<or> rc = int (length chunk) \<and> length chunk \<le> n \<and> disk_readers s fd = chunk @ disk_readers t fd \<and>
           (chunk = [] \<longrightarrow> disk_readers s fd = []))))"
    by (auto simp: disk_os_def ensures_simps disk_read_def ensures_def Let_def split: list.split fault.split)
next
  fix fd :: int and p c data :: string and s :: disk
  assume "disk_writers s fd = Some p" "disk_files s p = Some c"
  then show "ensures (writeFull disk_os fd data) s (\<lambda>r t. disk_cwd t = disk_cwd s \<and>
      (\<exists>n k. r = Ret n \<and> k \<le> length data \<and> (n = -1 \<or> n = int k) \<and> disk_files t = (disk_files s)(p \<mapsto> c @ take k data)))"
    by (auto simp: disk_os_def ensures_simps disk_append_def ensures_def fun_upd_idem split: list.split fault.split
        intro: exI [where x = 0] exI [where x = "length data"] short_write)
qed (auto simp: disk_os_def disk_simple_def ensures_simps ensures_def disk_create_def disk_open_file_def Let_def fun_upd_idem rand_bound
    split: list.split fault.split option.split)

end
