(* ===== verification/Cxtpl_Tool_Files.thy ===== *)
theory Cxtpl_Tool_Files
  imports Cxtpl_Disk
begin

text \<open>
  The file operations of the command line tool (\<open>tool/src/main_native.cpp\<close>): writing and appending,
  the atomic replacement of a file through a temporary one, and reading a template relative to the
  source directory. The lemmas are proved in the locale \<open>posix\<close>, so they hold whatever operation fails.
\<close>

section \<open>Writing\<close>

definition writeToFile :: "'s os \<Rightarrow> string \<Rightarrow> string \<Rightarrow> open_flag list \<Rightarrow> ('s, bool) io" where
  "writeToFile os contents path flags =
     io_bind (openNoInt os path flags 436) (\<lambda>fd.
       if fd = -1 then io_return False
       else io_bind (writeFull os fd contents) (\<lambda>written.
            io_bind (closeNoInt os fd) (\<lambda>rc.
              if rc \<noteq> 0 then io_return False
              else io_return (0 \<le> written \<and> nat written = length contents))))"

definition writeStringToFile :: "'s os \<Rightarrow> string \<Rightarrow> string \<Rightarrow> ('s, bool) io" where
  "writeStringToFile os contents path = writeToFile os contents path [O_CREAT, O_WRONLY, O_TRUNC]"

definition appendStringToFile :: "'s os \<Rightarrow> string \<Rightarrow> string \<Rightarrow> ('s, bool) io" where
  "appendStringToFile os contents path = writeToFile os contents path [O_CREAT, O_WRONLY, O_APPEND]"

text \<open>The loop of \<open>randomString\<close> assigns the characters from left to right.\<close>

primrec random_chars :: "'s os \<Rightarrow> string \<Rightarrow> nat \<Rightarrow> ('s, string) io" where
  "random_chars os chars 0 = io_return []"
| "random_chars os chars (Suc n) =
     io_bind (rand32 os 0 (length chars)) (\<lambda>i.
     io_bind (random_chars os chars n) (\<lambda>cs. io_return (chars ! i # cs)))"

definition randomString :: "'s os \<Rightarrow> nat \<Rightarrow> nat \<Rightarrow> string \<Rightarrow> ('s, string) io" where
  "randomString os minLen maxLen chars =
     io_bind (rand32 os minLen (maxLen + 1)) (\<lambda>n. random_chars os chars n)"

definition random_range :: string where
  "random_range = ''abcdefghijklmnopqrstuvwxyz'' @ ''ABCDEFGHIJKLMNOPQRSTUVWXYZ0123456789''"

text \<open>What happens inside the scope of \<open>tempFileGuard\<close> once the temporary path is set, and the guard.\<close>

definition replace_through :: "'s os \<Rightarrow> string \<Rightarrow> string \<Rightarrow> string \<Rightarrow> ('s, bool) io" where
  "replace_through os contents filePath tempFilePath =
     io_bind (os_create_directories os (parent_path filePath)) (\<lambda>_.
     io_bind (writeStringToFile os contents tempFilePath) (\<lambda>ok.
       if \<not> ok then io_return False
       else io_bind (os_rename os tempFilePath filePath) (\<lambda>_. io_return True)))"

definition remove_temporary :: "'s os \<Rightarrow> string \<Rightarrow> ('s, unit) io" where
  "remove_temporary os tempFilePath =
     (if tempFilePath \<noteq> [] then io_bind (os_remove os tempFilePath) (\<lambda>_. io_return ()) else io_return ())"

definition temporary_path :: "string \<Rightarrow> string \<Rightarrow> string" where
  "temporary_path filePath rnd = path_join (parent_path filePath) (filename filePath @ ''.temp-'' @ rnd)"

definition atomicallyWriteFileToDisk :: "'s os \<Rightarrow> string \<Rightarrow> string \<Rightarrow> ('s, bool) io" where
  "atomicallyWriteFileToDisk os contents absFilename =
     (if parent_path absFilename = [] then io_return False
      else io_catch
        (io_bind (randomString os 10 10 random_range) (\<lambda>rnd.
           io_finally
             (io_catch (replace_through os contents absFilename (temporary_path absFilename rnd)) (io_return False))
             (remove_temporary os (temporary_path absFilename rnd))))
        (io_return False))"

section \<open>Reading\<close>

text \<open>
  The loop of \<open>readFile\<close>: chunks of at most 4000 bytes until the end of the file. An input that never
  ends keeps it going, so the loop is a partial function.
\<close>

partial_function (option) read_loop :: "'s os \<Rightarrow> int \<Rightarrow> string \<Rightarrow> 's \<Rightarrow> (string run \<times> 's) option" where
  "read_loop os fd buf s =
     (case readNoInt os fd 4000 s of
        (Ret (rc, data), t) \<Rightarrow>
          if rc < 0 then Some (Terminated, t)
          else if rc = 0 then Some (Ret buf, t)
          else read_loop os fd (buf @ take (nat rc) data) t
      | (Raise e, t) \<Rightarrow> Some (Raise e, t)
      | (Terminated, t) \<Rightarrow> Some (Terminated, t)
      | (Pending, t) \<Rightarrow> Some (Pending, t))"

declare read_loop.simps [code]

definition read_all :: "'s os \<Rightarrow> int \<Rightarrow> ('s, string) io" where
  "read_all os fd = (\<lambda>s. case read_loop os fd [] s of Some rt \<Rightarrow> rt | None \<Rightarrow> (Pending, s))"

text \<open>What \<open>readFile\<close> does with an open file, and what it does inside the scope of its \<open>cleanup\<close>.\<close>

definition read_opened :: "'s os \<Rightarrow> int \<Rightarrow> ('s, string) io" where
  "read_opened os fd = io_bind (read_all os fd) (\<lambda>buf. io_bind (closeNoInt os fd) (\<lambda>_. io_return buf))"

definition read_relative :: "'s os \<Rightarrow> string \<Rightarrow> string \<Rightarrow> ('s, string) io" where
  "read_relative os srcdir in_path =
     io_bind (absolute_path os srcdir) (\<lambda>dir.
     io_bind (os_set_current_path os dir) (\<lambda>_.
     io_bind (absolute_path os in_path) (\<lambda>in_abs_path.
     io_bind (folly_File os in_abs_path) (read_opened os))))"

definition readFile :: "'s os \<Rightarrow> string \<Rightarrow> string \<Rightarrow> ('s, string) io" where
  "readFile os srcdir in_path =
     io_bind
       (io_catch
          (io_bind (os_current_path os) (\<lambda>prevPath.
             io_finally (read_relative os srcdir in_path) (os_set_current_path os prevPath)))
          io_terminate)
       (\<lambda>buf. if buf = [] then io_return [] else io_return buf)"

text \<open>The path a file name has in a directory.\<close>

definition in_dir :: "string \<Rightarrow> string \<Rightarrow> string" where
  "in_dir dir p = (if is_absolute p then p else path_join dir p)"

section \<open>What they promise whatever fails\<close>

lemma temporary_path_other:
  assumes "parent_path p \<noteq> []" "CHR ''/'' \<notin> set rnd"
  shows "temporary_path p rnd \<noteq> p"
proof
  assume "temporary_path p rnd = p"
  moreover have "filename (temporary_path p rnd) = filename p @ ''.temp-'' @ rnd"
    unfolding temporary_path_def using assms by (intro filename_join) auto
  ultimately show False by simp
qed

lemma random_range_no_slash: "CHR ''/'' \<notin> set random_range"
  by (simp add: random_range_def)

context posix
begin

lemma write_and_close_law:
  assumes "writing s fd = Some p" "content s p = Some old"
  shows "ensures (io_bind (writeFull os fd contents) (\<lambda>written.
            io_bind (closeNoInt os fd) (\<lambda>rc.
              if rc \<noteq> 0 then io_return False
              else io_return (0 \<le> written \<and> nat written = length contents)))) s (\<lambda>r t. cwd t = cwd s \<and>
    (r = Ret True \<and> content t = (content s)(p \<mapsto> old @ contents) \<or>
     r = Ret False \<and> (\<exists>k. content t = (content s)(p \<mapsto> old @ take k contents))))"
  unfolding ensures_simps
  by (rule ensures_mono [OF write_law [OF assms, of contents]])
    (auto intro!: ensures_mono [OF close_law] split: if_splits, blast+)

lemma writeToFile_law:
  assumes flags: "O_CREAT \<in> set flags" "O_WRONLY \<in> set flags" "O_TRUNC \<in> set flags \<or> O_APPEND \<in> set flags"
    and old: "old = (if O_TRUNC \<in> set flags then [] else case content s p of Some c \<Rightarrow> c | None \<Rightarrow> [])"
  shows "ensures (writeToFile os contents p flags) s (\<lambda>r t. cwd t = cwd s \<and>
    (r = Ret True \<and> content t = (content s)(p \<mapsto> old @ contents) \<or>
     r = Ret False \<and> (content t = content s \<or> (\<exists>k. content t = (content s)(p \<mapsto> old @ take k contents)))))"
proof -
  have close: "ensures (io_bind (writeFull os fd contents) (\<lambda>written.
            io_bind (closeNoInt os fd) (\<lambda>rc.
              if rc \<noteq> 0 then io_return False
              else io_return (0 \<le> written \<and> nat written = length contents)))) u (\<lambda>r t. cwd t = cwd s \<and>
    (r = Ret True \<and> content t = (content s)(p \<mapsto> old @ contents) \<or>
     r = Ret False \<and> (content t = content s \<or> (\<exists>k. content t = (content s)(p \<mapsto> old @ take k contents)))))"
    if "cwd u = cwd s" "writing u fd = Some p" "content u = (content s)(p \<mapsto> old)" for u fd
    using that by (intro ensures_mono [OF write_and_close_law [where p = p and old = old]]) auto
  show ?thesis
    unfolding writeToFile_def ensures_bind [of "openNoInt os p flags 436"]
    by (rule ensures_mono [OF create_law [OF flags]])
      (use close old in \<open>auto simp: ensures_return\<close>)
qed

lemma random_chars_law:
  assumes "chars \<noteq> []"
  shows "ensures (random_chars os chars n) s (\<lambda>r t. content t = content s \<and> cwd t = cwd s \<and>
    (\<exists>cs. r = Ret cs \<and> length cs = n \<and> set cs \<subseteq> set chars))"
proof (induction n arbitrary: s)
  case 0
  then show ?case by (simp add: ensures_simps)
next
  case (Suc n)
  have "0 < length chars" using assms by simp
  then show ?case unfolding random_chars.simps ensures_bind [of "rand32 os 0 (length chars)"]
    by (rule ensures_mono [OF rand32_law]) (auto simp: ensures_simps intro!: ensures_mono [OF Suc.IH])
qed

lemma randomString_law:
  assumes "chars \<noteq> []" "lo \<le> hi"
  shows "ensures (randomString os lo hi chars) s (\<lambda>r t. content t = content s \<and> cwd t = cwd s \<and>
    (\<exists>cs. r = Ret cs \<and> lo \<le> length cs \<and> length cs \<le> hi \<and> set cs \<subseteq> set chars))"
proof -
  have "lo < hi + 1" using assms(2) by simp
  then show ?thesis unfolding randomString_def ensures_bind
    by (rule ensures_mono [OF rand32_law]) (auto intro!: ensures_mono [OF random_chars_law [OF assms(1)]])
qed

text \<open>
  The temporary file is written, then moved over the target; on the way out the guard removes it. Whatever
  fails, the target has either its old content or the new one, and other files are as they were.
\<close>

lemma replace_through_law:
  assumes "tmp \<noteq> p"
  shows "ensures (io_catch (replace_through os contents p tmp) (io_return False)) s (\<lambda>r t. cwd t = cwd s \<and>
    (r = Ret True \<and> content t = (content s)(tmp := None, p \<mapsto> contents) \<or>
     r = Ret False \<and> (\<exists>c. content t = (content s)(tmp := c))))"
proof -
  have unchanged: "\<exists>c. content u = (content u)(tmp := c)" for u
    by (rule exI [of _ "content u tmp"]) simp
  let ?Q = "\<lambda>r t. cwd t = cwd s \<and>
    (r = Ret True \<and> content t = (content s)(tmp := None, p \<mapsto> contents) \<or>
     (r = Ret False \<or> r = Raise System_error) \<and> (\<exists>c. content t = (content s)(tmp := c)))"
  have rename: "ensures (io_bind (os_rename os tmp p) (\<lambda>_. io_return True)) u ?Q"
    if "cwd u = cwd s" "content u = (content s)(tmp \<mapsto> contents)" for u
    unfolding ensures_simps
    by (rule ensures_mono [OF rename_law]) (use that assms in auto)
  have written: "ensures (io_bind (writeStringToFile os contents tmp)
      (\<lambda>ok. if \<not> ok then io_return False else io_bind (os_rename os tmp p) (\<lambda>_. io_return True))) u ?Q"
    if "cwd u = cwd s" "content u = content s" for u
    unfolding writeStringToFile_def ensures_bind [of "writeToFile os contents tmp _"]
    by (rule ensures_mono [OF writeToFile_law [where old = "[]"]])
      (use that unchanged [of u] in \<open>auto simp: ensures_return intro!: rename\<close>)
  have "ensures (replace_through os contents p tmp) s ?Q"
    unfolding replace_through_def ensures_bind [of "os_create_directories os _"]
    by (rule ensures_mono [OF create_directories_law]) (use unchanged [of s] in \<open>auto intro!: written\<close>)
  then show ?thesis
    unfolding ensures_catch by (rule ensures_mono) (auto simp: ensures_return)
qed

lemma remove_temporary_law:
  "ensures (remove_temporary os tmp) s (\<lambda>r t. cwd t = cwd s \<and> r = Ret () \<and>
     (content t = content s \<or> content t = (content s)(tmp := None)))"
  unfolding remove_temporary_def
  by (auto simp: ensures_simps intro!: ensures_mono [OF remove_law])

lemma atomicallyWriteFileToDisk_law:
  "ensures (atomicallyWriteFileToDisk os contents p) s (\<lambda>r t. cwd t = cwd s \<and>
     (parent_path p = [] \<and> r = Ret False \<and> content t = content s \<or>
      (\<exists>rnd. length rnd = 10 \<and> set rnd \<subseteq> set random_range \<and> temporary_path p rnd \<noteq> p \<and>
        (r = Ret True \<and> content t = (content s)(temporary_path p rnd := None, p \<mapsto> contents) \<or>
         r = Ret False \<and> (\<exists>c. content t = (content s)(temporary_path p rnd := c))))))"
proof (cases "parent_path p = []")
  case False
  have guarded: "ensures (io_finally (io_catch (replace_through os contents p tmp) (io_return False)) (remove_temporary os tmp)) u
      (\<lambda>r t. cwd t = cwd s \<and> (r = Ret True \<and> content t = (content s)(tmp := None, p \<mapsto> contents) \<or>
         r = Ret False \<and> (\<exists>c. content t = (content s)(tmp := c))))"
    if "cwd u = cwd s" "content u = content s" "tmp \<noteq> p" for u tmp
    unfolding ensures_finally
    by (rule ensures_mono [OF replace_through_law [OF that(3)]])
      (use that in \<open>auto intro!: ensures_mono [OF remove_temporary_law]\<close>)
  have other: "temporary_path p rnd \<noteq> p" if "set rnd \<subseteq> set random_range" for rnd
    by (rule temporary_path_other [OF False]) (use that random_range_no_slash in blast)
  have "random_range \<noteq> []" by (simp add: random_range_def)
  then have random: "ensures (randomString os 10 10 random_range) s (\<lambda>r t. content t = content s \<and> cwd t = cwd s \<and>
      (\<exists>cs. r = Ret cs \<and> 10 \<le> length cs \<and> length cs \<le> 10 \<and> set cs \<subseteq> set random_range))"
    by (rule randomString_law) simp
  define Q where "Q = (\<lambda>r t. cwd t = cwd s \<and>
     (parent_path p = [] \<and> r = Ret False \<and> content t = content s \<or>
      (\<exists>rnd. length rnd = 10 \<and> set rnd \<subseteq> set random_range \<and> temporary_path p rnd \<noteq> p \<and>
        (r = Ret True \<and> content t = (content s)(temporary_path p rnd := None, p \<mapsto> contents) \<or>
         r = Ret False \<and> (\<exists>c. content t = (content s)(temporary_path p rnd := c))))))"
  have final: "ensures (io_finally (io_catch (replace_through os contents p (temporary_path p rnd)) (io_return False))
      (remove_temporary os (temporary_path p rnd))) u (\<lambda>r t. r \<noteq> Raise System_error \<and> Q r t)"
    if "cwd u = cwd s" "content u = content s" "length rnd = 10" "set rnd \<subseteq> set random_range" for u rnd
    unfolding Q_def by (rule ensures_mono [OF guarded [OF that(1,2) other [OF that(4)]]])
      (use that other [OF that(4)] in blast)
  have "ensures (atomicallyWriteFileToDisk os contents p) s Q"
    unfolding atomicallyWriteFileToDisk_def ensures_catch ensures_bind if_not_P [OF False]
    by (rule ensures_mono [OF random]) (auto intro!: ensures_mono [OF final])
  then show ?thesis unfolding Q_def .
qed (simp add: atomicallyWriteFileToDisk_def ensures_return)

lemma read_loop_law:
  "\<exists>r t. read_loop os fd buf s = Some (r, t) \<and> content t = content s \<and> cwd t = cwd s \<and>
     (r = Ret (buf @ unread s fd) \<or> r = Terminated)"
proof (induction "length (unread s fd)" arbitrary: s buf rule: less_induct)
  case less
  obtain rc chunk t where read: "readNoInt os fd 4000 s = (Ret (rc, chunk), t)" and t: "content t = content s" "cwd t = cwd s"
    and rc: "rc < 0 \<or> rc = int (length chunk) \<and> unread s fd = chunk @ unread t fd \<and> (chunk = [] \<longrightarrow> unread s fd = [])"
    using read_law [of 4000 fd s] by (auto simp: ensures_def split: prod.splits)
  show ?case
  proof (cases "0 < rc")
    case True
    then have "length (unread t fd) < length (unread s fd)" using rc by auto
    from less.hyps [OF this, of "buf @ chunk"] show ?thesis
      using True rc t by (subst read_loop.simps) (auto simp: read)
  next
    case False
    then show ?thesis using rc t by (subst read_loop.simps) (auto simp: read)
  qed
qed

lemma read_all_law:
  "ensures (read_all os fd) s (\<lambda>r t. content t = content s \<and> cwd t = cwd s \<and> (r = Ret (unread s fd) \<or> r = Terminated))"
  using read_loop_law [of fd "[]" s] by (auto simp: read_all_def ensures_def)

text \<open>
  A template is read from the source directory, whole, and the current directory is as before; or the
  process ends.
\<close>

lemma read_relative_law:
  assumes "is_absolute srcdir"
  shows "ensures (read_relative os srcdir p) s (\<lambda>r t. content t = content s \<and>
    (r = Terminated \<or> r = Raise System_error \<or> (\<exists>c. r = Ret c \<and> content s (in_dir srcdir p) = Some c)))"
proof -
  define Q where "Q = (\<lambda>r t. content t = content s \<and>
    (r = Terminated \<or> r = Raise System_error \<or> (\<exists>c. r = Ret c \<and> content s (in_dir srcdir p) = Some c)))"
  have Q_other: "content u = content s \<Longrightarrow> Q (Raise System_error) u" for u by (simp add: Q_def)
  have "ensures (read_opened os fd) u Q"
    if "content u = content s" "content s (in_dir srcdir p) = Some (unread u fd)" for u fd
    unfolding read_opened_def Q_def ensures_simps
    by (rule ensures_mono [OF read_all_law]) (use that in \<open>auto intro!: ensures_mono [OF close_law]\<close>)
  then have opened: "ensures (io_bind (folly_File os (in_dir srcdir p)) (read_opened os)) u Q"
    if "content u = content s" for u
    unfolding ensures_bind by (intro ensures_mono [OF file_law]) (use that Q_other in auto)
  have resolved: "ensures (io_bind (absolute_path os p) (\<lambda>q. io_bind (folly_File os q) (read_opened os))) u Q"
    if "content u = content s" "cwd u = srcdir" for u
    unfolding ensures_bind [of "absolute_path os _"]
    by (rule ensures_mono [OF absolute_path_law]) (use that Q_other opened in \<open>auto simp: in_dir_def\<close>)
  have "ensures (read_relative os srcdir p) s Q"
    unfolding read_relative_def absolute_path_def [of os srcdir] if_P [OF assms] ensures_bind [of "io_return _"]
      ensures_return run.case ensures_bind [of "os_set_current_path os _"]
    by (rule ensures_mono [OF set_current_path_law [OF assms]]) (use Q_other in \<open>auto intro!: resolved\<close>)
  then show ?thesis unfolding Q_def .
qed

lemma readFile_law:
  assumes "is_absolute srcdir" "is_absolute (cwd s)"
  shows "ensures (readFile os srcdir p) s (\<lambda>r t. content t = content s \<and>
    (r = Terminated \<or> cwd t = cwd s \<and> (\<exists>c. r = Ret c \<and> content s (in_dir srcdir p) = Some c)))"
proof -
  have restored: "ensures (io_finally (read_relative os srcdir p) (os_set_current_path os (cwd s))) u
      (\<lambda>r t. content t = content s \<and> (r = Terminated \<or> r = Raise System_error \<or>
         cwd t = cwd s \<and> (\<exists>c. r = Ret c \<and> content s (in_dir srcdir p) = Some c)))" if "content u = content s" for u
    unfolding ensures_finally
    by (rule ensures_mono [OF read_relative_law [OF assms(1)]])
      (use that in \<open>auto intro!: ensures_mono [OF set_current_path_law [OF assms(2)]]\<close>)
  have "ensures (io_bind (os_current_path os) (\<lambda>prevPath. io_finally (read_relative os srcdir p)
      (os_set_current_path os prevPath))) s (\<lambda>r t. content t = content s \<and> (r = Terminated \<or> r = Raise System_error \<or>
         cwd t = cwd s \<and> (\<exists>c. r = Ret c \<and> content s (in_dir srcdir p) = Some c)))"
    unfolding ensures_bind [of "os_current_path os"]
    by (rule ensures_mono [OF current_path_law]) (auto intro!: ensures_mono [OF restored])
  then show ?thesis
    unfolding readFile_def ensures_bind [of "io_catch _ _"] ensures_catch
    by (rule ensures_mono) (auto simp: ensures_simps)
qed

end

section \<open>A disk without faults\<close>

lemma parent_path_last: "parent_path p = [] \<or> last (parent_path p) \<noteq> CHR ''/'' \<or> set (parent_path p) \<subseteq> {CHR ''/''}"
proof -
  define dir where "dir = rev (dropWhile (\<lambda>c. c \<noteq> CHR ''/'') (rev p))"
  define stem where "stem = rev (dropWhile (\<lambda>c. c = CHR ''/'') (rev dir))"
  have eq: "parent_path p = (if stem = [] then dir else stem)"
    unfolding parent_path_def Let_def dir_def stem_def ..
  show ?thesis
  proof (cases "stem = []")
    case True
    then have "\<forall>c\<in>set dir. c = CHR ''/''" by (simp add: stem_def dropWhile_eq_Nil_conv)
    then have "set dir \<subseteq> {CHR ''/''}" by blast
    then show ?thesis using True by (simp add: eq)
  next
    case False
    then have "hd (dropWhile (\<lambda>c. c = CHR ''/'') (rev dir)) \<noteq> CHR ''/''"
      using hd_dropWhile [of "\<lambda>c. c = CHR ''/''" "rev dir"] by (simp add: stem_def)
    then have "last stem \<noteq> CHR ''/''" unfolding stem_def by (simp add: last_rev)
    then show ?thesis using False by (simp add: eq)
  qed
qed

lemma parent_path_join:
  assumes "p \<noteq> []" "last p \<noteq> CHR ''/'' \<or> set p \<subseteq> {CHR ''/''}" "CHR ''/'' \<notin> set q" "q \<noteq> []"
  shows "parent_path (path_join p q) = p"
proof (cases "last p = CHR ''/''")
  case True
  have all: "set p \<subseteq> {CHR ''/''}" using assms(2) True by blast
  have "dropWhile (\<lambda>c. c \<noteq> CHR ''/'') (rev p) = rev p" using True assms(1) by (cases p rule: rev_cases) auto
  moreover have "dropWhile (\<lambda>c. c \<noteq> CHR ''/'') (rev q @ rev p) = dropWhile (\<lambda>c. c \<noteq> CHR ''/'') (rev p)"
    using assms(3) by (intro dropWhile_append2) auto
  moreover have "path_join p q = p @ q" using True assms by (cases q) (auto simp: path_join_def is_absolute_def)
  moreover have "\<forall>c\<in>set p. c = CHR ''/''" using all by blast
  ultimately show ?thesis by (simp add: parent_path_def Let_def)
next
  case False
  have "dropWhile (\<lambda>c. c = CHR ''/'') (rev p) = rev p" using False assms(1) by (cases p rule: rev_cases) auto
  moreover have "dropWhile (\<lambda>c. c \<noteq> CHR ''/'') (rev q @ CHR ''/'' # rev p) = CHR ''/'' # rev p"
    using assms(3) by (subst dropWhile_append2) auto
  moreover have "path_join p q = p @ ''/'' @ q" using False assms by (cases q) (auto simp: path_join_def is_absolute_def)
  moreover have "\<exists>c\<in>set p. c \<noteq> CHR ''/''" using False last_in_set [OF assms(1)] by blast
  ultimately show ?thesis using assms(1) by (simp add: parent_path_def Let_def)
qed

lemma parent_temporary_path:
  assumes "parent_path p \<noteq> []" "CHR ''/'' \<notin> set rnd"
  shows "parent_path (temporary_path p rnd) = parent_path p"
  unfolding temporary_path_def using parent_path_last [of p] assms by (intro parent_path_join) auto

lemma io_bind_Ret: "m s = (Ret x, t) \<Longrightarrow> io_bind m f s = f x t"
  by (simp add: io_bind_def)

lemma random_chars_disk:
  "\<exists>cs t. random_chars disk_os chars n d = (Ret cs, t) \<and> disk_faults t = disk_faults d \<and> disk_files t = disk_files d"
proof (induction n arbitrary: d)
  case (Suc n)
  obtain i u where i: "rand32 disk_os 0 (length chars) d = (Ret i, u)"
      "disk_faults u = disk_faults d" "disk_files u = disk_files d"
    by (cases "disk_random d") (auto simp: disk_os_def)
  with Suc [of u] show ?case by (auto simp: io_bind_def io_return_def)
qed (simp add: io_return_def)

lemma randomString_disk:
  "\<exists>cs t. randomString disk_os lo hi chars d = (Ret cs, t) \<and> disk_faults t = disk_faults d \<and> disk_files t = disk_files d"
proof -
  obtain n u where n: "rand32 disk_os lo (hi + 1) d = (Ret n, u)"
      "disk_faults u = disk_faults d" "disk_files u = disk_files d"
    by (cases "disk_random d") (auto simp: disk_os_def)
  with random_chars_disk [of chars n u] show ?thesis by (auto simp: randomString_def io_bind_def)
qed

lemma replace_through_disk:
  assumes "disk_faults d = []" "parent_path tmp = parent_path p"
  shows "\<exists>t. replace_through disk_os contents p tmp d = (Ret True, t) \<and> disk_faults t = []"
  using assms
  by (simp add: replace_through_def writeStringToFile_def writeToFile_def io_bind_def io_return_def disk_os_def
      disk_simple_def disk_create_def disk_append_def ancestors_def Let_def)

lemma atomicallyWrite_disk:
  assumes "disk_faults d = []" "parent_path p \<noteq> []"
  shows "\<exists>t. atomicallyWriteFileToDisk disk_os contents p d = (Ret True, t) \<and> disk_faults t = []"
proof -
  from randomString_disk obtain rnd u where u: "randomString disk_os 10 10 random_range d = (Ret rnd, u)"
    "disk_faults u = []" using assms(1) by metis
  have "random_range \<noteq> []" by (simp add: random_range_def)
  from disk.randomString_law [OF this, of 10 10 d] u(1) have "set rnd \<subseteq> set random_range"
    by (simp add: ensures_def)
  then have "parent_path (temporary_path p rnd) = parent_path p"
    using random_range_no_slash by (intro parent_temporary_path [OF assms(2)]) auto
  from replace_through_disk [OF u(2) this, of contents] obtain v where
    "replace_through disk_os contents p (temporary_path p rnd) u = (Ret True, v)" "disk_faults v = []" by blast
  then show ?thesis using assms u
    by (cases "disk_files v (temporary_path p rnd)")
      (auto simp: atomicallyWriteFileToDisk_def io_bind_def io_catch_def io_finally_def remove_temporary_def
        disk_os_def disk_simple_def io_return_def)
qed

lemma read_loop_disk:
  "disk_faults d = [] \<Longrightarrow>
    \<exists>t. read_loop disk_os fd buf d = Some (Ret (buf @ disk_readers d fd), t) \<and> disk_faults t = []"
proof (induction "length (disk_readers d fd)" arbitrary: d buf rule: less_induct)
  case less
  let ?chunk = "take 4000 (disk_readers d fd)"
  let ?t = "d\<lparr>disk_readers := (disk_readers d)(fd := drop 4000 (disk_readers d fd))\<rparr>"
  have read: "readNoInt disk_os fd 4000 d = (Ret (int (length ?chunk), ?chunk), ?t)"
    using less.prems by (simp add: disk_os_def disk_read_def Let_def)
  show ?case
  proof (cases "disk_readers d fd = []")
    case True
    then show ?thesis using less.prems by (subst read_loop.simps) (simp add: read)
  next
    case False
    then have "length (disk_readers ?t fd) < length (disk_readers d fd)" by simp
    moreover have "take (min (length xs) 4000) xs = take 4000 xs" for xs :: string
      by (simp add: min_def)
    moreover note less.hyps [of ?t "buf @ ?chunk"]
    ultimately show ?thesis
      using False less.prems by (subst read_loop.simps) (simp add: read)
  qed
qed

lemma readFile_disk:
  assumes "disk_faults d = []" "is_absolute srcdir" "disk_files d (in_dir srcdir p) = Some c"
  shows "\<exists>t. readFile disk_os srcdir p d = (Ret c, t) \<and> disk_faults t = []"
proof -
  have all: "\<exists>t. read_opened disk_os fd u = (Ret (disk_readers u fd), t) \<and> disk_faults t = []"
    if "disk_faults u = []" for u fd
    using read_loop_disk [OF that, of fd "[]"]
    by (auto simp: read_opened_def read_all_def io_bind_def io_return_def disk_os_def disk_simple_def)
  have "\<exists>t. read_relative disk_os srcdir p d = (Ret c, t) \<and> disk_faults t = []"
    using assms all
      [of "d\<lparr>disk_cwd := srcdir, disk_next_fd := Suc (disk_next_fd d),
         disk_readers := (disk_readers d)(int (3 + disk_next_fd d) := c)\<rparr>" "int (3 + disk_next_fd d)"]
    by (auto simp: read_relative_def absolute_path_def io_bind_def io_return_def disk_os_def disk_simple_def
        disk_open_file_def in_dir_def Let_def split: if_splits)
  then obtain t where "read_relative disk_os srcdir p d = (Ret c, t)" "disk_faults t = []" by blast
  then show ?thesis using assms(1)
    by (auto simp: readFile_def io_bind_def io_catch_def io_finally_def io_return_def disk_os_def disk_simple_def)
qed

section \<open>Properties\<close>

definition empty_disk :: disk where
  "empty_disk = \<lparr>disk_files = Map.empty, disk_dirs = [''/'', ''/out'', ''/src''], disk_cwd = ''/'', disk_writers = Map.empty,
     disk_readers = (\<lambda>_. []), disk_next_fd = 0, disk_random = [], disk_faults = []\<rparr>"

text \<open>
  C12: \<open>atomicallyWriteFileToDisk\<close> replaces a file as a whole or not at all, whichever operation fails: it
  returns true and the file has exactly the new contents, or it returns false and the file is as it was.
  Besides its own temporary file, no other file changes; after a success the temporary file is gone.
\<close>

theorem atomic_write_all_or_nothing:
  assumes "posix os content cwd writing unread"
    and "atomicallyWriteFileToDisk os contents p s = (r, t)"
  shows "(r = Ret True \<and> content t p = Some contents \<or> r = Ret False \<and> content t p = content s p) \<and>
    (\<exists>rnd. length rnd = 10 \<and> (\<forall>q. q \<noteq> p \<and> q \<noteq> temporary_path p rnd \<longrightarrow> content t q = content s q) \<and>
       (r = Ret True \<longrightarrow> content t (temporary_path p rnd) = None))"
  using ensuresD [OF posix.atomicallyWriteFileToDisk_law [OF assms(1)] assms(2)]
proof (elim conjE disjE exE)
  assume "r = Ret False" "content t = content s"
  then show ?thesis by (auto intro!: exI [where x = "replicate 10 (CHR ''a'')"])
next
  fix rnd
  assume "length rnd = 10" "temporary_path p rnd \<noteq> p" "r = Ret True"
    "content t = (content s)(temporary_path p rnd := None, p \<mapsto> contents)"
  then show ?thesis by (auto intro!: exI [where x = rnd])
next
  fix rnd c
  assume "length rnd = 10" "temporary_path p rnd \<noteq> p" "r = Ret False"
    "content t = (content s)(temporary_path p rnd := c)"
  then show ?thesis by (auto intro!: exI [where x = rnd])
qed

text \<open>A disk that fails for good in the middle of the write of the temporary file.\<close>

definition crashing_disk :: disk where
  "crashing_disk = empty_disk\<lparr>disk_files := [''/out/a.cpp'' \<mapsto> ''old''], disk_faults := [Works, Works, Short 2, Fails, Fails, Fails]\<rparr>"

theorem atomic_write_all_or_nothing_witness:
  "fst (atomicallyWriteFileToDisk disk_os ''new'' ''/out/a.cpp'' crashing_disk) = Ret False \<and>
   disk_files (snd (atomicallyWriteFileToDisk disk_os ''new'' ''/out/a.cpp'' crashing_disk)) ''/out/a.cpp'' = Some ''old''"
proof -
  have fst: "fst (atomicallyWriteFileToDisk disk_os ''new'' ''/out/a.cpp'' crashing_disk) = Ret False" by code_simp
  have old: "disk_files crashing_disk ''/out/a.cpp'' = Some ''old''" by (simp add: crashing_disk_def)
  show ?thesis
    using atomic_write_all_or_nothing [OF disk.posix_axioms surjective_pairing, of "''new''" "''/out/a.cpp''" crashing_disk]
      fst old by simp
qed



text \<open>
  C16: \<open>readFile\<close> ends the process or returns the whole content of the file that the given name has in the
  source directory, however the reads are cut into chunks; it changes no file and restores the current
  directory. On a disk whose operations work it returns.
\<close>

theorem readFile_whole:
  assumes "posix os content cwd writing unread" "is_absolute srcdir" "is_absolute (cwd s)"
    and "readFile os srcdir p s = (r, t)"
  shows "content t = content s \<and>
    (r = Terminated \<or> cwd t = cwd s \<and> (\<exists>c. r = Ret c \<and> content s (in_dir srcdir p) = Some c)) \<and>
    (\<forall>d c. disk_faults d = [] \<and> disk_files d (in_dir srcdir p) = Some c \<longrightarrow> fst (readFile disk_os srcdir p d) = Ret c)"
  using ensuresD [OF posix.readFile_law [OF assms(1-3)] assms(4)] readFile_disk [OF _ assms(2)]
  by (metis fst_conv)

definition chunked_disk :: disk where
  "chunked_disk = empty_disk\<lparr>disk_files := [''/src/a.cxtpl'' \<mapsto> ''text''],
     disk_faults := [Works, Works, Works, Short 1, Short 0, Works]\<rparr>"

theorem readFile_whole_witness:
  "fst (readFile disk_os ''/src'' ''a.cxtpl'' chunked_disk) = Ret ''text''"
proof -
  have in_dir: "disk_files chunked_disk (in_dir ''/src'' ''a.cxtpl'') = Some ''text''" by code_simp
  have abs: "is_absolute ''/src''" "is_absolute (disk_cwd chunked_disk)" by code_simp+
  have "fst (readFile disk_os ''/src'' ''a.cxtpl'' chunked_disk) \<noteq> Terminated" by code_simp
  moreover note conjunct1 [OF conjunct2 [OF readFile_whole [OF disk.posix_axioms abs surjective_pairing, of "''a.cxtpl''"]]]
  ultimately obtain c where "fst (readFile disk_os ''/src'' ''a.cxtpl'' chunked_disk) = Ret c"
    "disk_files chunked_disk (in_dir ''/src'' ''a.cxtpl'') = Some c" by blast
  with in_dir show ?thesis by (metis option.inject)
qed

end
