(* ===== verification/Cxtpl_Cling.thy ===== *)
theory Cxtpl_Cling
  imports Cxtpl_Disk
begin

text \<open>
  The Cling interpreter module (\<open>src/ClingInterpreterModule.cpp\<close>) and the custom generator of the
  examples that it runs (\<open>examples/text_generator/text_generator.cpp\<close>). The interpreter itself is a
  parameter: a record of the operations that the module calls.
\<close>

section \<open>The interpreter module\<close>

record 's cling =
  cling_new :: "string list \<Rightarrow> ('s, unit) io"
  cling_AddIncludePath :: "string \<Rightarrow> ('s, unit) io"
  cling_enableDynamicLookup :: "bool \<Rightarrow> ('s, unit) io"
  cling_process :: "string \<Rightarrow> ('s, int) io"

text \<open>\<open>cling::Interpreter::kSuccess\<close>\<close>

definition kSuccess :: int where
  "kSuccess = 0"

definition processCode :: "'s cling \<Rightarrow> string \<Rightarrow> ('s, unit) io" where
  "processCode cling code =
     io_bind (cling_process cling code) (\<lambda>interpRes.
       if interpRes \<noteq> kSuccess then io_terminate else io_return ())"

definition add_default_cling_args :: "string list \<Rightarrow> string list \<Rightarrow> string list" where
  "add_default_cling_args extra_args args =
     args @ [''EmbedCling'', ''-I.'', ''-I../'', ''--std=c++17'',
       ''-I../cling-build/build/lib/clang/5.0.0/include'',
       ''-I../cling-build/src/include/'',
       ''-I../cling-build/build/include/'',
       ''-I../cling-build/src/tools/clang/include/'',
       ''-I../cling-build/build/tools/clang/include/'',
       ''-I../cling-build/src/tools/cling/include/'',
       ''-DBOOST_SYSTEM_NO_DEPRECATED'',
       ''-DBOOST_ERROR_CODE_HEADER_ONLY''] @ extra_args"

text \<open>The result of the last \<open>process\<close> is not looked at.\<close>

definition createInterpreter :: "'s cling \<Rightarrow> string list \<Rightarrow> ('s, unit) io" where
  "createInterpreter cling extra_args =
     (let interp_args = add_default_cling_args extra_args [] in
      io_bind (cling_new cling interp_args) (\<lambda>_.
      io_bind (cling_AddIncludePath cling ''.'') (\<lambda>_.
      io_bind (cling_AddIncludePath cling ''../'') (\<lambda>_.
      io_bind (cling_enableDynamicLookup cling True) (\<lambda>_.
      io_bind (cling_process cling ''#define CLING_IS_ON 1'') (\<lambda>_. io_return ()))))))"

section \<open>The text generator\<close>

text \<open>The variable of the generator beside the state of the system.\<close>

record 's generator_state =
  system :: 's
  cxtpl_output :: string

definition in_system :: "('s, 'a) io \<Rightarrow> ('s generator_state, 'a) io" where
  "in_system m = (\<lambda>g. case m (system g) of (r, t) \<Rightarrow> (r, g\<lparr>system := t\<rparr>))"

lemma ensures_in_system [ensures_simps]:
  "ensures (in_system m) g Q \<longleftrightarrow> ensures m (system g) (\<lambda>r t. Q r (g\<lparr>system := t\<rparr>))"
  by (simp add: ensures_def in_system_def split: prod.split)

text \<open>
  \<open>writeToFile\<close> of the generator. An \<open>std::ofstream\<close> opens with \<open>O_CREAT | O_WRONLY | O_TRUNC\<close>; a failed
  write or a failed \<open>close\<close> leaves it in a failed state. The value is what is printed.
\<close>

definition error_open :: "string \<Rightarrow> string" where
  "error_open file_path = ''ERROR: can'' @ [CHR 0x60] @ ''t write to file '' @ file_path @ [CHR 0x0A]"

definition error_write :: "string \<Rightarrow> string" where
  "error_write file_path = ''ERROR: writing to file failed '' @ file_path @ [CHR 0x0A]"

definition generator_writeToFile :: "'s os \<Rightarrow> string \<Rightarrow> string \<Rightarrow> ('s, string) io" where
  "generator_writeToFile os str file_path =
     io_bind (os_create_directories os (parent_path file_path)) (\<lambda>_.
     io_bind (openNoInt os file_path [O_CREAT, O_WRONLY, O_TRUNC] 438) (\<lambda>fd.
       if fd = -1 then io_return (error_open file_path)
       else io_bind (writeFull os fd str) (\<lambda>written.
            io_bind (closeNoInt os fd) (\<lambda>rc.
              if written \<noteq> int (length str) \<or> rc \<noteq> 0 then io_return (error_write file_path)
              else io_return []))))"

definition onBeforeTemplateGeneration :: "string \<Rightarrow> string \<Rightarrow> ('s generator_state, unit) io" where
  "onBeforeTemplateGeneration original_code out_file = (\<lambda>g. (Ret (), g\<lparr>cxtpl_output := []\<rparr>))"

definition onAfterTemplateGeneration :: "'s os \<Rightarrow> string \<Rightarrow> string \<Rightarrow> ('s generator_state, string) io" where
  "onAfterTemplateGeneration os original_code out_file =
     (\<lambda>g. in_system (generator_writeToFile os (cxtpl_output g) out_file) g)"

text \<open>
  One template under a custom generator: the callback before, the generated code, the callback after.
  The code is C++ that appends to \<open>cxtpl_output\<close>; what it appends is a parameter.
\<close>

definition run_custom_generator :: "'s os \<Rightarrow> string \<Rightarrow> string \<Rightarrow> string \<Rightarrow> ('s generator_state, string) io" where
  "run_custom_generator os appended original_code out_file =
     io_bind (onBeforeTemplateGeneration original_code out_file) (\<lambda>_.
     io_bind (\<lambda>g. (Ret (), g\<lparr>cxtpl_output := cxtpl_output g @ appended\<rparr>)) (\<lambda>_.
     onAfterTemplateGeneration os original_code out_file))"

context posix
begin

lemma generator_writeToFile_law:
  "ensures (generator_writeToFile os str p) s (\<lambda>r t. cwd t = cwd s \<and>
     (r = Ret [] \<and> content t = (content s)(p \<mapsto> str) \<or>
      (r = Raise System_error \<or> r = Ret (error_open p)) \<and> content t = content s \<or>
      r = Ret (error_write p) \<and> (\<exists>k. content t = (content s)(p \<mapsto> take k str))))"
proof -
  define Q where "Q = (\<lambda>r t. cwd t = cwd s \<and>
     (r = Ret [] \<and> content t = (content s)(p \<mapsto> str) \<or>
      (r = Raise System_error \<or> r = Ret (error_open p)) \<and> content t = content s \<or>
      r = Ret (error_write p) \<and> (\<exists>k. content t = (content s)(p \<mapsto> take k str))))"
  have Q_part: "Q (Ret (error_write p)) v" if "cwd v = cwd s" "content v = (content s)(p \<mapsto> take k str)" for v k
    unfolding Q_def using that by blast
  have Q_all: "Q (Ret []) v" if "cwd v = cwd s" "content v = (content s)(p \<mapsto> str)" for v
    unfolding Q_def using that by blast
  have closed: "ensures (io_bind (closeNoInt os fd) (\<lambda>rc. if written \<noteq> int (length str) \<or> rc \<noteq> 0
      then io_return (error_write p) else io_return [])) v Q"
    if "cwd v = cwd s" "content v = (content s)(p \<mapsto> take k str)" "written = int (length str) \<longrightarrow> k = length str" for fd written v k
    unfolding ensures_simps by (rule ensures_mono [OF close_law])
      (use that Q_all Q_part [where k = k] in \<open>auto simp del: fun_upd_apply\<close>)
  have written: "ensures (io_bind (writeFull os fd str) (\<lambda>written. io_bind (closeNoInt os fd) (\<lambda>rc.
      if written \<noteq> int (length str) \<or> rc \<noteq> 0 then io_return (error_write p) else io_return []))) u Q"
    if "cwd u = cwd s" "content u = (content s)(p \<mapsto> [])" "writing u fd = Some p" for fd u
  proof -
    have "content u p = Some []" using that(2) by simp
    from write_law [OF that(3) this, of str]
    have w: "ensures (writeFull os fd str) u (\<lambda>r t. \<exists>n k. r = Ret n \<and> cwd t = cwd s \<and>
        content t = (content s)(p \<mapsto> take k str) \<and> (n = int (length str) \<longrightarrow> k = length str))"
      by (rule ensures_mono) (use that in fastforce)
    show ?thesis
      unfolding ensures_bind [of "writeFull os fd str"]
      by (rule ensures_mono [OF w]) (elim conjE exE, simp only: run.case, rule closed)
  qed
  have "ensures (generator_writeToFile os str p) s Q"
    unfolding generator_writeToFile_def ensures_bind [of "os_create_directories os _"]
  proof (rule ensures_mono [OF create_directories_law])
    show "case r of Ret x \<Rightarrow> ensures (io_bind (openNoInt os p [O_CREAT, O_WRONLY, O_TRUNC] 438) (\<lambda>fd.
        if fd = -1 then io_return (error_open p)
        else io_bind (writeFull os fd str) (\<lambda>written. io_bind (closeNoInt os fd) (\<lambda>rc.
          if written \<noteq> int (length str) \<or> rc \<noteq> 0 then io_return (error_write p) else io_return [])))) t Q
      | Raise e \<Rightarrow> Q (Raise e) t | Terminated \<Rightarrow> Q Terminated t | Pending \<Rightarrow> Q Pending t"
      if t: "content t = content s \<and> cwd t = cwd s \<and> ((\<exists>b. r = Ret b) \<or> r = Raise System_error)" for r t
    proof -
      have "ensures (openNoInt os p [O_CREAT, O_WRONLY, O_TRUNC] 438) t (\<lambda>r u. cwd u = cwd t \<and>
        (\<exists>fd. r = Ret fd \<and> (fd = -1 \<and> content u = content t \<or>
          fd \<noteq> -1 \<and> writing u fd = Some p \<and> content u = (content t)(p \<mapsto> []))))"
        using create_law [of "[O_CREAT, O_WRONLY, O_TRUNC]" p 438 t] by simp
      then have "ensures (io_bind (openNoInt os p [O_CREAT, O_WRONLY, O_TRUNC] 438) (\<lambda>fd.
        if fd = -1 then io_return (error_open p)
        else io_bind (writeFull os fd str) (\<lambda>written. io_bind (closeNoInt os fd) (\<lambda>rc.
          if written \<noteq> int (length str) \<or> rc \<noteq> 0 then io_return (error_write p) else io_return [])))) t Q"
        unfolding ensures_bind [of "openNoInt os _ _ _"]
        by (rule ensures_mono) (use t written in \<open>auto simp: ensures_return Q_def\<close>)
      then show ?thesis using t by (auto simp: Q_def)
    qed
  qed
  then show ?thesis unfolding Q_def .
qed

end
lemma run_custom_generator_eq:
  "run_custom_generator os appended original_code out_file g =
     (case generator_writeToFile os appended out_file (system g) of
        (r, t) \<Rightarrow> (r, \<lparr>system = t, cxtpl_output = appended, \<dots> = generator_state.more g\<rparr>))"
  by (simp add: run_custom_generator_def onBeforeTemplateGeneration_def onAfterTemplateGeneration_def io_bind_def
      in_system_def split: prod.split)

section \<open>Properties\<close>

text \<open>
  C28: with the custom generator, a template whose code appends a text to \<open>cxtpl_output\<close> leaves exactly this
  text there and, when nothing is printed, in the output file, whatever the variable held before; on a
  failure the file is as it was or has a part of the text, and no other file changes.
\<close>

theorem custom_generator_output:
  assumes "posix os content cwd writing unread"
    and "run_custom_generator os appended original_code out_file g = (r, h)"
  shows "cxtpl_output h = appended \<and>
    (\<forall>q. q \<noteq> out_file \<longrightarrow> content (system h) q = content (system g) q) \<and>
    (r = Ret [] \<and> content (system h) out_file = Some appended \<or>
     r = Ret (error_write out_file) \<and> (\<exists>k. content (system h) out_file = Some (take k appended)) \<or>
     (r = Ret (error_open out_file) \<or> r = Raise System_error) \<and> content (system h) out_file = content (system g) out_file)"
proof -
  obtain t where w: "generator_writeToFile os appended out_file (system g) = (r, t)" and h: "system h = t" "cxtpl_output h = appended"
    using assms(2) by (auto simp: run_custom_generator_eq split: prod.splits)
  show ?thesis
    using ensuresD [OF posix.generator_writeToFile_law [OF assms(1)] w] by (auto simp: h)
qed

definition stale_generator :: "disk generator_state" where
  "stale_generator = \<lparr>system = \<lparr>disk_files = [''/out/a.cpp'' \<mapsto> ''old''], disk_dirs = [''/'', ''/out''], disk_cwd = ''/'',
     disk_writers = Map.empty, disk_readers = (\<lambda>_. []), disk_next_fd = 0, disk_random = [], disk_faults = []\<rparr>,
     cxtpl_output = ''left over''\<rparr>"

theorem custom_generator_output_witness:
  "disk_files (system (snd (run_custom_generator disk_os ''new'' ''code'' ''/out/a.cpp'' stale_generator))) ''/out/a.cpp'' = Some ''new''"
proof -
  have "fst (run_custom_generator disk_os ''new'' ''code'' ''/out/a.cpp'' stale_generator) = Ret []" by code_simp
  then show ?thesis
    using custom_generator_output [OF disk.posix_axioms surjective_pairing, of "''new''" "''code''" "''/out/a.cpp''" stale_generator]
    by (auto simp: error_write_def error_open_def)
qed

end
