(* ===== verification/Cxtpl_Init.thy ===== *)
theory Cxtpl_Init
  imports Cxtpl_Disk Cxtpl_Generator
begin

text \<open>
  The class \<open>Init\<close> of the tool (\<open>tool/src/main_native.cpp\<close>): what \<open>main\<close> sets up in \<open>folly\<close> and \<open>glog\<close> before it logs. The
  calls of these libraries are the fields of the record \<open>startup\<close>, with the build flags that choose among them; their
  promise to the tool, that files and the current directory stay as they are, is the locale \<open>quiet_startup\<close>.
\<close>

section \<open>The calls\<close>

record 's startup =
  FOLLY_USE_SYMBOLIZER :: bool
  on_windows :: bool
  on_emscripten :: bool
  installFatalSignalHandler :: "('s, unit) io"
  InstallFailureSignalHandler :: "('s, unit) io"
  registrationComplete :: "('s, unit) io"
  registerHandlerFactory :: "('s, unit) io"
  initLoggingOrDie :: "string \<Rightarrow> ('s, unit) io"
  InitGoogleLogging :: "string \<Rightarrow> ('s, unit) io"
  InstallFailureFunction :: "('s, unit) io"
  installFatalSignalCallbacks :: "('s, unit) io"
  destroyInstances :: "('s, unit) io"
  InitializeICU :: "('s, bool) io option"

definition default_log_config :: string where
  "default_log_config = ''.:=INFO:default:x; default=stream:stream=stderr; x=stream:stream=stderr''"

definition program_name :: "string list \<Rightarrow> string" where
  "program_name argv = (case argv of [] \<Rightarrow> ''unknown'' | name # _ \<Rightarrow> name)"

section \<open>Constructor and destructor\<close>

definition Init_setup :: "'s startup \<Rightarrow> ('s, unit) io" where
  "Init_setup su =
     io_bind (if FOLLY_USE_SYMBOLIZER su then installFatalSignalHandler su
              else if \<not> on_windows su then InstallFailureSignalHandler su else io_return ()) (\<lambda>_.
     io_bind (registrationComplete su) (\<lambda>_.
     registerHandlerFactory su))"

definition Init_logging :: "'s startup \<Rightarrow> string option \<Rightarrow> ('s, unit) io" where
  "Init_logging su log_config =
     (case log_config of
        Some config \<Rightarrow> io_bind (io_run (CHECK (config \<noteq> []))) (\<lambda>_. initLoggingOrDie su config)
      | None \<Rightarrow> initLoggingOrDie su default_log_config)"

definition Init_constructor :: "'s startup \<Rightarrow> string list \<Rightarrow> string option \<Rightarrow> ('s, unit) io" where
  "Init_constructor su argv log_config =
     io_bind (Init_setup su) (\<lambda>_.
     io_bind (Init_logging su log_config) (\<lambda>_.
     io_bind (InitGoogleLogging su (program_name argv)) (\<lambda>_.
       if FOLLY_USE_SYMBOLIZER su
       then io_bind (InstallFailureFunction su) (\<lambda>_. installFatalSignalCallbacks su)
       else io_return ())))"

definition Init_destructor :: "'s startup \<Rightarrow> ('s, unit) io" where
  "Init_destructor su = destroyInstances su"

text \<open>The statement of \<open>main\<close>: it makes a temporary, whose destructor runs at the end of the statement.\<close>

definition init_tool :: "'s startup \<Rightarrow> string list \<Rightarrow> string option \<Rightarrow> ('s, unit) io" where
  "init_tool su argv log_config =
     io_bind (Init_constructor su argv log_config) (\<lambda>_. io_finally (io_return ()) (Init_destructor su))"

text \<open>The data of ICU, where the build has it; its absence is an error on one platform only.\<close>

definition initialize_icu :: "build \<Rightarrow> 's startup \<Rightarrow> ('s, unit) io" where
  "initialize_icu cfg su =
     (case InitializeICU su of
        None \<Rightarrow> io_return ()
      | Some icu_init \<Rightarrow> io_bind icu_init (\<lambda>icu_initialized.
          io_run (if on_emscripten su \<and> \<not> icu_initialized then DCHECK cfg False else Ret ())))"

section \<open>What the tool relies on\<close>

locale quiet_startup =
  fixes su :: "'s startup" and content :: "'s \<Rightarrow> string \<Rightarrow> string option" and cwd :: "'s \<Rightarrow> string"
  assumes unit_calls: "m \<in> {installFatalSignalHandler su, InstallFailureSignalHandler su, registrationComplete su,
        registerHandlerFactory su, initLoggingOrDie su text_arg, InitGoogleLogging su text_arg, InstallFailureFunction su,
        installFatalSignalCallbacks su, destroyInstances su} \<Longrightarrow>
      ensures m s (\<lambda>r t. content t = content s \<and> cwd t = cwd s)"
    and icu_call: "InitializeICU su = Some icu_init \<Longrightarrow> ensures icu_init s (\<lambda>r t. content t = content s \<and> cwd t = cwd s)"
begin

definition quiet :: "('s, 'a) io \<Rightarrow> bool" where
  "quiet m \<longleftrightarrow> (\<forall>s. ensures m s (\<lambda>r t. content t = content s \<and> cwd t = cwd s))"

lemma quiet_bind: "quiet m \<Longrightarrow> (\<And>x. quiet (f x)) \<Longrightarrow> quiet (io_bind m f)"
  unfolding quiet_def ensures_bind by (fastforce simp: ensures_def split: run.split prod.splits)

lemma quiet_finally: "quiet m \<Longrightarrow> quiet c \<Longrightarrow> quiet (io_finally m c)"
  unfolding quiet_def ensures_finally by (fastforce simp: ensures_def split: run.split prod.splits)

lemma quiet_pure: "quiet (io_return x)" "quiet (io_run r)"
  by (simp_all add: quiet_def ensures_simps)

lemma quiet_if: "quiet m \<Longrightarrow> quiet n \<Longrightarrow> quiet (if b then m else n)"
  by simp

lemma quiet_calls:
  "quiet (installFatalSignalHandler su)" "quiet (InstallFailureSignalHandler su)" "quiet (registrationComplete su)"
  "quiet (registerHandlerFactory su)" "quiet (initLoggingOrDie su p)" "quiet (InitGoogleLogging su p)"
  "quiet (InstallFailureFunction su)" "quiet (installFatalSignalCallbacks su)" "quiet (destroyInstances su)"
  by (simp_all add: quiet_def unit_calls [of _ p])

lemmas quiet_rules = quiet_bind quiet_finally quiet_pure quiet_if quiet_calls

lemma quiet_init: "quiet (init_tool su argv log_config)"
proof -
  have "quiet (Init_logging su log_config)"
    by (cases log_config) (simp_all add: Init_logging_def quiet_rules)
  then show ?thesis
    unfolding init_tool_def Init_constructor_def Init_setup_def Init_destructor_def by (intro quiet_rules)
qed

lemma quiet_icu: "quiet (initialize_icu cfg su)"
proof (cases "InitializeICU su")
  case (Some icu_init)
  then have "quiet icu_init" using icu_call by (simp add: quiet_def)
  then show ?thesis unfolding initialize_icu_def Some option.case by (intro quiet_rules)
qed (simp add: initialize_icu_def quiet_pure)

lemma init_tool_law: "ensures (init_tool su argv log_config) s (\<lambda>r t. content t = content s \<and> cwd t = cwd s)"
  using quiet_init unfolding quiet_def by blast

lemma initialize_icu_law: "ensures (initialize_icu cfg su) s (\<lambda>r t. content t = content s \<and> cwd t = cwd s)"
  using quiet_icu unfolding quiet_def by blast

end

text \<open>Calls that all return; neither messages nor signal handlers are on the disk.\<close>

definition plain_startup :: "'s startup" where
  "plain_startup = \<lparr>FOLLY_USE_SYMBOLIZER = False, on_windows = False, on_emscripten = False,
     installFatalSignalHandler = io_return (), InstallFailureSignalHandler = io_return (), registrationComplete = io_return (),
     registerHandlerFactory = io_return (), initLoggingOrDie = (\<lambda>_. io_return ()), InitGoogleLogging = (\<lambda>_. io_return ()),
     InstallFailureFunction = io_return (), installFatalSignalCallbacks = io_return (), destroyInstances = io_return (),
     InitializeICU = Some (io_return True)\<rparr>"

interpretation plain_startup: quiet_startup plain_startup disk_files disk_cwd
  by unfold_locales (auto simp: plain_startup_def ensures_simps)

lemma plain_startup_simps [simp]:
  "Init_setup plain_startup s = (Ret (), s)" "initialize_icu cfg plain_startup s = (Ret (), s)"
  "log_config \<noteq> Some [] \<Longrightarrow> init_tool plain_startup argv log_config s = (Ret (), s)"
  by (auto simp: init_tool_def Init_constructor_def Init_setup_def Init_logging_def Init_destructor_def initialize_icu_def
      plain_startup_def io_bind_def io_finally_def io_return_def io_run_def CHECK_def split: option.split)

section \<open>When the temporary is gone\<close>

text \<open>
  An empty log configuration ends the process after the setup. When the statement is over, the last thing that happened was
  the destruction of the instances that \<open>folly::Singleton\<close> manages, and \<open>main\<close> has not yet looked at its options.
\<close>

lemma init_tool_empty_log:
  "Init_setup su s = (Ret (), u) \<Longrightarrow> init_tool su argv (Some []) s = (Terminated, u)"
  by (simp add: init_tool_def Init_constructor_def Init_logging_def io_bind_def io_run_def CHECK_def)

lemma init_tool_destroys:
  assumes "init_tool su argv log_config s = (Ret (), t)"
  obtains u where "Init_constructor su argv log_config s = (Ret (), u)" "destroyInstances su u = (Ret (), t)"
  using assms by (auto simp: init_tool_def io_bind_def io_finally_def io_return_def Init_destructor_def split: prod.splits run.splits)

text \<open>A system that only records the calls.\<close>

definition record_call :: "string \<Rightarrow> (string list, unit) io" where
  "record_call name = (\<lambda>calls. (Ret (), calls @ [name]))"

definition recording :: "string list startup" where
  "recording = \<lparr>FOLLY_USE_SYMBOLIZER = True, on_windows = False, on_emscripten = False,
     installFatalSignalHandler = record_call ''installFatalSignalHandler'', InstallFailureSignalHandler = record_call ''InstallFailureSignalHandler'',
     registrationComplete = record_call ''registrationComplete'', registerHandlerFactory = record_call ''registerHandlerFactory'',
     initLoggingOrDie = (\<lambda>config. record_call config), InitGoogleLogging = (\<lambda>name. record_call name),
     InstallFailureFunction = record_call ''InstallFailureFunction'', installFatalSignalCallbacks = record_call ''installFatalSignalCallbacks'',
     destroyInstances = record_call ''destroyInstances'', InitializeICU = None\<rparr>"

lemma init_tool_recorded:
  "init_tool recording [''CXTPL_tool''] (Some ''INFO'') [] =
     (Ret (), [''installFatalSignalHandler'', ''registrationComplete'', ''registerHandlerFactory'', ''INFO'', ''CXTPL_tool'',
        ''InstallFailureFunction'', ''installFatalSignalCallbacks'', ''destroyInstances''])"
  by code_simp

end
