(* ===== verification/Cxtpl_Tool.thy ===== *)
theory Cxtpl_Tool
  imports Cxtpl_Tool_Files Cxtpl_Cling Cxtpl_Defaults Cxtpl_Init
begin

text \<open>
  The work of the command line tool (\<open>tool/src/main_native.cpp\<close>): \<open>processTemplate\<close> for one template,
  the tasks of \<open>run_generation\<close> with their timeouts, the pool that is made for them, and the sequence of the tasks, which is
  what one thread does (\<open>Cxtpl_Generation\<close> has the run on several threads). The global variables of the
  tool are the record \<open>config\<close>; what is outside of the repository (system, interpreter, converters) is the
  record \<open>tool\<close>. Log messages are not modelled; \<open>std::terminate\<close> and a failed \<open>CHECK\<close> are \<open>Terminated\<close>.
\<close>

record 's tool =
  tool_build :: build
  cling_is_on :: bool
  tool_os :: "'s os"
  tool_startup :: "'s startup"
  tool_cling :: "'s cling"
  tool_view :: "'s \<Rightarrow> filesystem"
  tool_icu :: icu
  tool_depth :: nat
  address_of_result :: nat
  address_of_path :: nat

record config =
  in_args :: "string list"
  out_args :: "string list"
  srcdir_abs_path :: string
  resdir_abs_path :: string
  generator_path_arg :: "string option"
  threads_arg :: nat
  single_task_timeout :: "int option"
  global_timeout :: "int option"

definition custom_generator :: "config \<Rightarrow> bool" where
  "custom_generator g \<longleftrightarrow> (case generator_path_arg g of None \<Rightarrow> False | Some path \<Rightarrow> path \<noteq> [])"

section \<open>Code for the interpreter\<close>

text \<open>\<open>std::hex << std::showbase\<close>: no prefix for zero.\<close>

definition hex_digit :: "nat \<Rightarrow> char" where
  "hex_digit n = ''0123456789abcdef'' ! n"

fun hex_digits :: "nat \<Rightarrow> string" where
  "hex_digits n = (if n < 16 then [hex_digit n] else hex_digits (n div 16) @ [hex_digit (n mod 16)])"

declare hex_digits.simps [simp del]

definition show_hex :: "nat \<Rightarrow> string" where
  "show_hex n = (if n = 0 then ''0'' else ''0x'' @ hex_digits n)"

definition callback_code :: "string \<Rightarrow> nat \<Rightarrow> nat \<Rightarrow> string" where
  "callback_code callback_name result_addr path_addr =
     ''[](){'' @
     ''const std::string& cling_genResult = '' @ ''*(const std::string*)('' @ show_hex result_addr @ '');'' @
     ''const std::string& out_abs_path_str = '' @ ''*(const std::string*)('' @ show_hex path_addr @ '');'' @
     ''return '' @ callback_name @ ''('' @ ''cling_genResult, out_abs_path_str'' @ '');'' @ ''}();''"

definition template_code :: "string \<Rightarrow> string" where
  "template_code code = ''[](){'' @ ''{'' @ code @ ''}'' @ ''}();''"

section \<open>One template\<close>

text \<open>A new generator on the decoded contents; included files are looked up in the present state.\<close>

definition template_result :: "'s tool \<Rightarrow> string \<Rightarrow> ('s, string outcome) io" where
  "template_result tool file_contents =
     (\<lambda>s. (generate (tool_depth tool) (tool_build tool) \<lparr>files = tool_view tool s, converters = tool_icu tool\<rparr>
        (snd (ConvertResponseToUTF16 (tool_icu tool) [] file_contents)), s))"

text \<open>The path goes to the interpreter relative to the current directory, not to the output directory.\<close>

definition run_in_cling :: "'s tool \<Rightarrow> string \<Rightarrow> string \<Rightarrow> ('s, unit) io" where
  "run_in_cling tool code out_path =
     io_bind (absolute_path (tool_os tool) out_path) (\<lambda>out_abs_path_str.
     io_bind (processCode (tool_cling tool)
       (callback_code ''onBeforeTemplateGeneration'' (address_of_result tool) (address_of_path tool))) (\<lambda>_.
     io_bind (processCode (tool_cling tool) (template_code code)) (\<lambda>_.
     processCode (tool_cling tool)
       (callback_code ''onAfterTemplateGeneration'' (address_of_result tool) (address_of_path tool)))))"

definition write_relative :: "'s os \<Rightarrow> string \<Rightarrow> string \<Rightarrow> string \<Rightarrow> ('s, unit) io" where
  "write_relative os resdir code out_path =
     io_bind (absolute_path os resdir) (\<lambda>dir.
     io_bind (os_set_current_path os dir) (\<lambda>_.
     io_bind (absolute_path os out_path) (\<lambda>out_abs_path.
     io_bind (atomicallyWriteFileToDisk os code out_abs_path) (\<lambda>ok.
       if \<not> ok then io_terminate else io_return ()))))"

definition write_result :: "'s os \<Rightarrow> string \<Rightarrow> string \<Rightarrow> string \<Rightarrow> ('s, unit) io" where
  "write_result os resdir code out_path =
     io_catch
       (io_bind (os_current_path os) (\<lambda>prevPath.
          io_finally (write_relative os resdir code out_path) (os_set_current_path os prevPath)))
       io_terminate"

definition processTemplate :: "'s tool \<Rightarrow> config \<Rightarrow> string \<Rightarrow> string \<Rightarrow> ('s, unit) io" where
  "processTemplate tool g in_path out_path =
     io_bind (readFile (tool_os tool) (srcdir_abs_path g) in_path) (\<lambda>file_contents.
     io_bind (template_result tool file_contents) (\<lambda>genResult.
       case genResult of
         Inl err \<Rightarrow> io_terminate
       | Inr code \<Rightarrow>
           if code = [] then io_return ()
           else if custom_generator g then
             (if cling_is_on tool then run_in_cling tool code out_path else io_terminate)
           else write_result (tool_os tool) (resdir_abs_path g) code out_path))"

section \<open>The pool and the tasks\<close>

datatype queue_behavior = THROW | BLOCK

record pool =
  pool_max_threads :: nat
  pool_min_threads :: nat
  pool_capacity :: nat
  pool_if_full :: queue_behavior
  pool_name :: string

definition make_pool_executor :: "nat \<Rightarrow> nat \<Rightarrow> bool \<Rightarrow> string \<Rightarrow> pool" where
  "make_pool_executor concurrency queue_size throw_if_full name =
     \<lparr>pool_max_threads = concurrency, pool_min_threads = 1, pool_capacity = queue_size,
      pool_if_full = (if throw_if_full then THROW else BLOCK), pool_name = name\<rparr>"

definition task_timeout :: "config \<Rightarrow> nat \<Rightarrow> int" where
  "task_timeout g in_index =
     (let tout = (case single_task_timeout g of
                    Some t \<Rightarrow> t * int in_index
                  | None \<Rightarrow> 1000 * 60 * 60 * 24 * 7)
      in case global_timeout g of
           Some t \<Rightarrow> (if t < tout then t else tout)
         | None \<Rightarrow> tout)"

record task =
  task_in :: string
  task_out :: string
  task_expiration :: int

text \<open>
  The loop of \<open>run_generation\<close> over the inputs, from index \<open>i\<close> on: the tasks it has added, and how it ends.
  \<open>out_args.at\<close> throws past the end, before the task is added; the checks of the names come after.
\<close>

definition make_task :: "build \<Rightarrow> config \<Rightarrow> nat \<Rightarrow> string \<Rightarrow> task run" where
  "make_task cfg g i in_path =
     run_bind (DCHECK cfg (i < length (in_args g))) (\<lambda>_.
     run_bind (DCHECK cfg (i < length (out_args g))) (\<lambda>_.
     run_bind (vec_at (out_args g) i) (\<lambda>out_path.
       Ret \<lparr>task_in = in_path, task_out = out_path, task_expiration = task_timeout g i\<rparr>)))"

fun make_tasks :: "build \<Rightarrow> config \<Rightarrow> nat \<Rightarrow> string list \<Rightarrow> task list \<times> unit run" where
  "make_tasks cfg g i [] = ([], Ret ())"
| "make_tasks cfg g i (in_path # in_paths) =
     (case make_task cfg g i in_path of
        Ret t \<Rightarrow>
          (case run_bind (DCHECK cfg (task_in t \<noteq> [])) (\<lambda>_. DCHECK cfg (task_out t \<noteq> [])) of
             Ret _ \<Rightarrow> map_prod ((#) t) id (make_tasks cfg g (Suc i) in_paths)
           | r \<Rightarrow> ([t], r))
      | r \<Rightarrow> ([], run_bind r (\<lambda>_. Ret ())))"

text \<open>
  The executor on one thread runs the tasks in the order in which they were added. A task with a
  positive expiration that has waited longer is expired, and its callback ends the process; an exception
  that leaves a task is logged by the executor. The waiting times are a parameter.
\<close>

definition run_task :: "'s tool \<Rightarrow> config \<Rightarrow> int \<Rightarrow> task \<Rightarrow> ('s, unit) io" where
  "run_task tool g waited t =
     (if 0 < task_expiration t \<and> task_expiration t \<le> waited then io_terminate
      else (\<lambda>s. case processTemplate tool g (task_in t) (task_out t) s of
              (Raise e, u) \<Rightarrow> (Ret (), u) | ru \<Rightarrow> ru))"

primrec run_tasks :: "'s tool \<Rightarrow> config \<Rightarrow> (task \<Rightarrow> int) \<Rightarrow> task list \<Rightarrow> ('s, unit) io" where
  "run_tasks tool g waited [] = io_return ()"
| "run_tasks tool g waited (t # ts) = io_bind (run_task tool g (waited t) t) (\<lambda>_. run_tasks tool g waited ts)"

lemma run_task_unexpired:
  "run_task tool g 0 t s =
     (case processTemplate tool g (task_in t) (task_out t) s of (Raise e, u) \<Rightarrow> (Ret (), u) | ru \<Rightarrow> ru)"
  by (cases "0 < task_expiration t") (simp_all add: run_task_def)

lemma ensures_run_task [ensures_simps]:
  "ensures (run_task tool g w t) s Q \<longleftrightarrow>
     (if 0 < task_expiration t \<and> task_expiration t \<le> w then Q Terminated s
      else ensures (processTemplate tool g (task_in t) (task_out t)) s
        (\<lambda>r u. case r of Raise e \<Rightarrow> Q (Ret ()) u | _ \<Rightarrow> Q r u))"
  by (auto simp: run_task_def ensures_simps) (auto simp: ensures_def split: prod.split run.split)

section \<open>What a template leaves behind\<close>

text \<open>The temporary files of a path, and that only this path and they have changed.\<close>

definition is_temporary :: "string \<Rightarrow> string \<Rightarrow> bool" where
  "is_temporary p q \<longleftrightarrow> (\<exists>rnd. length rnd = 10 \<and> set rnd \<subseteq> set random_range \<and> q = temporary_path p rnd)"

definition only_changed :: "string \<Rightarrow> (string \<Rightarrow> string option) \<Rightarrow> (string \<Rightarrow> string option) \<Rightarrow> bool" where
  "only_changed p m m' \<longleftrightarrow> (\<forall>q. q \<noteq> p \<and> \<not> is_temporary p q \<longrightarrow> m' q = m q)"

lemma only_changed_refl [simp]: "only_changed p m m"
  by (simp add: only_changed_def)

text \<open>\<open>replaced p code m m' r\<close>: after a run with result \<open>r\<close>, \<open>p\<close> has all of \<open>code\<close>, or the process ended and it may have its old content.\<close>

definition replaced :: "string \<Rightarrow> string \<Rightarrow> (string \<Rightarrow> string option) \<Rightarrow> (string \<Rightarrow> string option) \<Rightarrow> bool \<Rightarrow> bool" where
  "replaced p code m m' returned \<longleftrightarrow> only_changed p m m' \<and> (m' p = Some code \<or> \<not> returned \<and> m' p = m p)"

context posix
begin

lemma atomic_write_replaced:
  "ensures (atomicallyWriteFileToDisk os code p) s (\<lambda>r t. cwd t = cwd s \<and>
     (r = Ret True \<and> replaced p code (content s) (content t) True \<or>
      r = Ret False \<and> replaced p code (content s) (content t) False))"
proof (rule ensures_mono [OF atomicallyWriteFileToDisk_law], elim conjE disjE exE)
  show "cwd t = cwd s \<and> (r = Ret True \<and> replaced p code (content s) (content t) True \<or>
      r = Ret False \<and> replaced p code (content s) (content t) False)"
    if "cwd t = cwd s" "r = Ret False" "content t = content s" for r t
    using that by (simp add: replaced_def)
  show "cwd t = cwd s \<and> (r = Ret True \<and> replaced p code (content s) (content t) True \<or>
      r = Ret False \<and> replaced p code (content s) (content t) False)"
    if "cwd t = cwd s" "length rnd = 10" "set rnd \<subseteq> set random_range" "temporary_path p rnd \<noteq> p"
      "r = Ret True" "content t = (content s)(temporary_path p rnd := None, p \<mapsto> code)" for r t rnd
    using that by (auto simp: replaced_def only_changed_def is_temporary_def)
  show "cwd t = cwd s \<and> (r = Ret True \<and> replaced p code (content s) (content t) True \<or>
      r = Ret False \<and> replaced p code (content s) (content t) False)"
    if "cwd t = cwd s" "length rnd = 10" "set rnd \<subseteq> set random_range" "temporary_path p rnd \<noteq> p"
      "r = Ret False" "content t = (content s)(temporary_path p rnd := c)" for r t rnd c
    using that by (auto simp: replaced_def only_changed_def is_temporary_def)
qed

lemma replaced_weaken: "replaced p code m m' True \<Longrightarrow> replaced p code m m' b"
  by (simp add: replaced_def)

lemma replaced_none: "replaced p code m m False"
  by (simp add: replaced_def)

lemma write_relative_law:
  assumes "is_absolute resdir"
  shows "ensures (write_relative os resdir code p) s (\<lambda>r t.
    r = Ret () \<and> replaced (in_dir resdir p) code (content s) (content t) True \<or>
    (r = Terminated \<or> r = Raise System_error) \<and> replaced (in_dir resdir p) code (content s) (content t) False)"
proof -
  define Q where "Q = (\<lambda>r t.
    r = Ret () \<and> replaced (in_dir resdir p) code (content s) (content t) True \<or>
    (r = Terminated \<or> r = Raise System_error) \<and> replaced (in_dir resdir p) code (content s) (content t) False)"
  have Q_raise: "content u = content s \<Longrightarrow> Q (Raise System_error) u" for u
    by (simp add: Q_def replaced_none)
  have written: "ensures (io_bind (atomicallyWriteFileToDisk os code (in_dir resdir p))
      (\<lambda>ok. if \<not> ok then io_terminate else io_return ())) u Q" if "content u = content s" for u
    unfolding ensures_bind
    by (rule ensures_mono [OF atomic_write_replaced]) (use that in \<open>auto simp: ensures_simps Q_def\<close>)
  have resolved: "ensures (io_bind (absolute_path os p) (\<lambda>q. io_bind (atomicallyWriteFileToDisk os code q)
      (\<lambda>ok. if \<not> ok then io_terminate else io_return ()))) u Q" if "content u = content s" "cwd u = resdir" for u
    unfolding ensures_bind [of "absolute_path os _"]
    by (rule ensures_mono [OF absolute_path_law]) (use that Q_raise written in \<open>auto simp: in_dir_def\<close>)
  have "ensures (write_relative os resdir code p) s Q"
    unfolding write_relative_def absolute_path_def [of os resdir] if_P [OF assms] ensures_bind [of "io_return _"]
      ensures_return run.case ensures_bind [of "os_set_current_path os _"]
    by (rule ensures_mono [OF set_current_path_law [OF assms]]) (use Q_raise in \<open>auto intro!: resolved\<close>)
  then show ?thesis unfolding Q_def .
qed

lemma write_result_law:
  assumes "is_absolute resdir" "is_absolute (cwd s)"
  shows "ensures (write_result os resdir code p) s (\<lambda>r t.
    r = Ret () \<and> cwd t = cwd s \<and> replaced (in_dir resdir p) code (content s) (content t) True \<or>
    r = Terminated \<and> replaced (in_dir resdir p) code (content s) (content t) False)"
proof -
  let ?R = "\<lambda>t. replaced (in_dir resdir p) code (content s) (content t)"
  have restored: "ensures (io_finally (write_relative os resdir code p) (os_set_current_path os (cwd s))) u
      (\<lambda>r t. r = Ret () \<and> cwd t = cwd s \<and> ?R t True \<or> (r = Terminated \<or> r = Raise System_error) \<and> ?R t False)"
    if "content u = content s" for u
    unfolding ensures_finally
    by (rule ensures_mono [OF write_relative_law [OF assms(1)]])
      (use that in \<open>auto intro!: ensures_mono [OF set_current_path_law [OF assms(2)]] intro: replaced_weaken\<close>)
  have "ensures (io_bind (os_current_path os) (\<lambda>prevPath. io_finally (write_relative os resdir code p)
      (os_set_current_path os prevPath))) s
      (\<lambda>r t. r = Ret () \<and> cwd t = cwd s \<and> ?R t True \<or> (r = Terminated \<or> r = Raise System_error) \<and> ?R t False)"
    unfolding ensures_bind [of "os_current_path os"]
    by (rule ensures_mono [OF current_path_law]) (auto intro!: ensures_mono [OF restored] simp: replaced_none)
  then show ?thesis
    unfolding write_result_def ensures_catch by (rule ensures_mono) (auto simp: ensures_simps)
qed

end

text \<open>The code that a template of the source directory is translated to, in a state.\<close>

definition produces ::
  "'s tool \<Rightarrow> ('s \<Rightarrow> string \<Rightarrow> string option) \<Rightarrow> ('s \<Rightarrow> string) \<Rightarrow> config \<Rightarrow> string \<Rightarrow> 's \<Rightarrow> string \<Rightarrow> bool" where
  "produces tool content cwd g in_path s code \<longleftrightarrow>
     (\<exists>src u. content s (in_dir (srcdir_abs_path g) in_path) = Some src \<and> content u = content s \<and> cwd u = cwd s \<and>
        fst (template_result tool src u) = success code)"

definition processed ::
  "'s tool \<Rightarrow> ('s \<Rightarrow> string \<Rightarrow> string option) \<Rightarrow> ('s \<Rightarrow> string) \<Rightarrow> config \<Rightarrow> string \<Rightarrow> string \<Rightarrow> 's \<Rightarrow> 's \<Rightarrow> bool \<Rightarrow> bool" where
  "processed tool content cwd g in_path out_path s t returned \<longleftrightarrow>
     (\<exists>code. produces tool content cwd g in_path s code \<and>
        (if code = [] then content t = content s
         else replaced (in_dir (resdir_abs_path g) out_path) code (content s) (content t) returned))"

lemma template_result_cases:
  "ensures (template_result tool src) s (\<lambda>r t. t = s \<and> r = fst (template_result tool src s) \<and> (\<forall>e. r \<noteq> Raise e))"
  by (simp add: template_result_def ensures_def generate_eq)

context posix
begin

lemma processTemplate_law:
  assumes "tool_os tool = os" "\<not> custom_generator g"
    and "is_absolute (srcdir_abs_path g)" "is_absolute (resdir_abs_path g)" "is_absolute (cwd s)"
  shows "ensures (processTemplate tool g i p) s (\<lambda>r t.
    r = Ret () \<and> cwd t = cwd s \<and> processed tool content cwd g i p s t True \<or>
    (r = Terminated \<or> r = Pending) \<and> (content t = content s \<or> processed tool content cwd g i p s t False))"
proof -
  define Q where "Q = (\<lambda>r t.
    r = Ret () \<and> cwd t = cwd s \<and> processed tool content cwd g i p s t True \<or>
    (r = Terminated \<or> r = Pending) \<and> (content t = content s \<or> processed tool content cwd g i p s t False))"
  have Q_end: "content u = content s \<Longrightarrow> Q Terminated u" "content u = content s \<Longrightarrow> Q Pending u" for u
    by (simp_all add: Q_def)
  have written: "ensures (write_result os (resdir_abs_path g) code p) u Q"
    if "content u = content s" "cwd u = cwd s" "produces tool content cwd g i s code" "code \<noteq> []" for u code
  proof -
    have "is_absolute (cwd u)" using that(2) assms(5) by simp
    from write_result_law [OF assms(4) this] show ?thesis
      by (rule ensures_mono) (use that in \<open>auto simp: Q_def processed_def\<close>)
  qed
  have result: "ensures (io_bind (template_result tool src) (\<lambda>genResult. case genResult of
         Inl err \<Rightarrow> io_terminate
       | Inr code \<Rightarrow>
           if code = [] then io_return ()
           else if custom_generator g then (if cling_is_on tool then run_in_cling tool code p else io_terminate)
           else write_result os (resdir_abs_path g) code p)) u Q"
    if u: "content u = content s" "cwd u = cwd s" "content s (in_dir (srcdir_abs_path g) i) = Some src" for u src
    unfolding ensures_bind
  proof (rule ensures_mono [OF template_result_cases], elim conjE)
    show "case r of Ret x \<Rightarrow> ensures (case x of
         Inl err \<Rightarrow> io_terminate
       | Inr code \<Rightarrow>
           if code = [] then io_return ()
           else if custom_generator g then (if cling_is_on tool then run_in_cling tool code p else io_terminate)
           else write_result os (resdir_abs_path g) code p) t Q
       | Raise e \<Rightarrow> Q (Raise e) t | Terminated \<Rightarrow> Q Terminated t | Pending \<Rightarrow> Q Pending t"
      if r: "t = u" "r = fst (template_result tool src u)" "\<forall>e. r \<noteq> Raise e" for r t
    proof (cases r)
      case (Ret x)
      show ?thesis
      proof (cases x)
        case (Inr code)
        have "produces tool content cwd g i s code"
          unfolding produces_def using u r Ret Inr by (intro exI [of _ src] exI [of _ u]) simp
        then show ?thesis
          using Ret Inr u r(1) written assms(2) by (auto simp: ensures_simps Q_def processed_def)
      qed (use Ret u r(1) Q_end in \<open>simp add: ensures_simps\<close>)
    qed (use r u Q_end in simp_all)
  qed
  have "ensures (processTemplate tool g i p) s Q"
    unfolding processTemplate_def assms(1) ensures_bind [of "readFile os _ _"]
    by (rule ensures_mono [OF readFile_law [OF assms(3,5)]]) (auto intro!: result Q_end)
  then show ?thesis unfolding Q_def .
qed

lemma run_task_law:
  assumes "tool_os tool = os" "\<not> custom_generator g"
    and "is_absolute (srcdir_abs_path g)" "is_absolute (resdir_abs_path g)" "is_absolute (cwd s)"
  shows "ensures (run_task tool g w k) s (\<lambda>r t.
    r = Ret () \<and> cwd t = cwd s \<and> processed tool content cwd g (task_in k) (task_out k) s t True \<or>
    (r = Terminated \<or> r = Pending) \<and> (content t = content s \<or> processed tool content cwd g (task_in k) (task_out k) s t False))"
  unfolding ensures_run_task
  by (auto intro!: ensures_mono [OF processTemplate_law [OF assms]])

end

section \<open>What a run of the tool leaves behind\<close>

text \<open>
  Where names may be resolved during a run: the current directories it can have, the directories in which
  templates and outputs can be looked up, and the names of the outputs. A task alone restores the
  current directory, so each name has its own directory; with more threads a name may get any of the three.
\<close>

record scope =
  scope_cwds :: "string set"
  scope_ins :: "string set"
  scope_outs :: "string set"
  scope_names :: "string list"

definition alone_scope :: "config \<Rightarrow> string \<Rightarrow> scope" where
  "alone_scope g cwd = \<lparr>scope_cwds = {cwd}, scope_ins = {srcdir_abs_path g}, scope_outs = {resdir_abs_path g}, scope_names = out_args g\<rparr>"

definition shared_scope :: "config \<Rightarrow> string \<Rightarrow> scope" where
  "shared_scope g cwd =
     (let all = {cwd, srcdir_abs_path g, resdir_abs_path g} in
      \<lparr>scope_cwds = all, scope_ins = all, scope_outs = all, scope_names = out_args g\<rparr>)"

definition scope_of :: "config \<Rightarrow> string \<Rightarrow> scope" where
  "scope_of g cwd = (if threads_arg g = 1 then alone_scope g cwd else shared_scope g cwd)"

text \<open>The files a task with the output name \<open>p\<close> may write: the output and its temporary files.\<close>

definition owned :: "scope \<Rightarrow> string \<Rightarrow> string \<Rightarrow> bool" where
  "owned sc p q \<longleftrightarrow> (\<exists>d \<in> scope_outs sc. q = in_dir d p \<or> is_temporary (in_dir d p) q)"

text \<open>No two tasks may write the same file.\<close>

definition separate :: "scope \<Rightarrow> bool" where
  "separate sc \<longleftrightarrow> distinct (scope_names sc) \<and>
     (\<forall>p \<in> set (scope_names sc). \<forall>p' \<in> set (scope_names sc). p \<noteq> p' \<longrightarrow> (\<forall>q. \<not> (owned sc p q \<and> owned sc p' q)))"

text \<open>
  A state during a run that began in \<open>s\<close>: only outputs and their temporary files differ. The code of a
  template is what the engine makes, in such a state, of the content the template has in such a state.
\<close>

definition moment :: "('s \<Rightarrow> string \<Rightarrow> string option) \<Rightarrow> ('s \<Rightarrow> string) \<Rightarrow> scope \<Rightarrow> 's \<Rightarrow> 's \<Rightarrow> bool" where
  "moment content cwd sc s u \<longleftrightarrow> cwd u \<in> scope_cwds sc \<and>
     (\<forall>q. (\<forall>p \<in> set (scope_names sc). \<not> owned sc p q) \<longrightarrow> content u q = content s q)"

definition translation ::
  "'s tool \<Rightarrow> ('s \<Rightarrow> string \<Rightarrow> string option) \<Rightarrow> ('s \<Rightarrow> string) \<Rightarrow> scope \<Rightarrow> 's \<Rightarrow> string \<Rightarrow> string \<Rightarrow> bool" where
  "translation tool content cwd sc s path code \<longleftrightarrow>
     (\<exists>v u src. moment content cwd sc s v \<and> moment content cwd sc s u \<and> content v path = Some src \<and>
        fst (template_result tool src u) = success code)"

lemma filename_path_join: "CHR ''/'' \<notin> set q \<Longrightarrow> q \<noteq> [] \<Longrightarrow> filename (path_join p q) = q"
proof (cases "p = []")
  case True
  assume "CHR ''/'' \<notin> set q" "q \<noteq> []"
  then have all: "takeWhile (\<lambda>c. c \<noteq> CHR ''/'') (rev q) = rev q" unfolding takeWhile_eq_all_conv by auto
  have "path_join p q = q" using True by (simp add: path_join_def)
  moreover have "filename q = q" unfolding filename_def all by simp
  ultimately show ?thesis by simp
qed (simp add: filename_join)

lemma filename_temporary: "set rnd \<subseteq> set random_range \<Longrightarrow> filename (temporary_path p rnd) = filename p @ ''.temp-'' @ rnd"
  unfolding temporary_path_def using random_range_no_slash by (intro filename_path_join) auto

lemma not_own_temporary: "\<not> is_temporary p p"
proof
  assume "is_temporary p p"
  then obtain rnd where "set rnd \<subseteq> set random_range" "p = temporary_path p rnd" by (auto simp: is_temporary_def)
  with filename_temporary [of rnd p] show False by simp
qed

lemma temporary_filename:
  "is_temporary p q \<Longrightarrow> \<exists>rnd. length rnd = 10 \<and> filename q = filename p @ ''.temp-'' @ rnd"
  by (auto simp: is_temporary_def filename_temporary)

lemma filename_in_dir: "CHR ''/'' \<notin> set p \<Longrightarrow> p \<noteq> [] \<Longrightarrow> filename (in_dir d p) = p"
  by (cases p) (auto simp: in_dir_def is_absolute_def intro!: filename_path_join)

definition plain_name :: "string \<Rightarrow> bool" where
  "plain_name p \<longleftrightarrow> CHR ''/'' \<notin> set p \<and> p \<noteq> []"

definition temporary_name :: "string \<Rightarrow> string \<Rightarrow> bool" where
  "temporary_name p q \<longleftrightarrow> (\<exists>rnd. length rnd = 10 \<and> q = p @ ''.temp-'' @ rnd)"

lemma temporary_name_length: "length q \<le> 15 \<Longrightarrow> \<not> temporary_name p q"
  by (auto simp: temporary_name_def)

lemma owned_filename: "plain_name p \<Longrightarrow> owned sc p q \<Longrightarrow> filename q = p \<or> temporary_name p (filename q)"
  using temporary_filename filename_in_dir unfolding owned_def plain_name_def temporary_name_def by metis

text \<open>A file whose name is neither that of an output nor that of a temporary file is the same at every moment.\<close>

lemma moment_other_file:
  assumes "moment content cwd sc s v" "\<And>p. p \<in> set (scope_names sc) \<Longrightarrow> plain_name p" "plain_name i"
    and "i \<notin> set (scope_names sc)" "\<And>p. p \<in> set (scope_names sc) \<Longrightarrow> \<not> temporary_name p i"
  shows "content v (in_dir d i) = content s (in_dir d i)"
proof -
  have "filename (in_dir d i) = i" using assms(3) by (simp add: plain_name_def filename_in_dir)
  then have "\<not> owned sc p (in_dir d i)" if "p \<in> set (scope_names sc)" for p
    using owned_filename [of p sc "in_dir d i"] that assms(2,4,5) by metis
  then show ?thesis using assms(1) by (simp add: moment_def)
qed

text \<open>Different plain file names are separate, in whatever directories, unless one looks like a temporary file of another.\<close>

lemma separate_plain:
  assumes "distinct (scope_names sc)" "\<And>p. p \<in> set (scope_names sc) \<Longrightarrow> plain_name p"
    and "\<And>p p'. p \<in> set (scope_names sc) \<Longrightarrow> p' \<in> set (scope_names sc) \<Longrightarrow> \<not> temporary_name p p'"
  shows "separate sc"
proof -
  have "\<not> (owned sc p q \<and> owned sc p' q)"
    if p: "p \<in> set (scope_names sc)" "p' \<in> set (scope_names sc)" "p \<noteq> p'" for p p' q
  proof
    assume "owned sc p q \<and> owned sc p' q"
    then have names: "filename q = p \<or> temporary_name p (filename q)" "filename q = p' \<or> temporary_name p' (filename q)"
      using owned_filename assms(2) p by blast+
    have "\<not> (temporary_name p (filename q) \<and> temporary_name p' (filename q))"
      using p(3) by (auto simp: temporary_name_def)
    with names show False using assms(3) p by metis
  qed
  then show ?thesis using assms(1) unfolding separate_def by blast
qed

definition output_path :: "config \<Rightarrow> task \<Rightarrow> string" where
  "output_path g k = in_dir (resdir_abs_path g) (task_out k)"

lemma alone_scope_simps [simp]:
  "scope_cwds (alone_scope g cwd) = {cwd}" "scope_outs (alone_scope g cwd) = {resdir_abs_path g}"
  "scope_ins (alone_scope g cwd) = {srcdir_abs_path g}" "scope_names (alone_scope g cwd) = out_args g"
  by (simp_all add: alone_scope_def)

lemma owned_alone: "owned (alone_scope g cwd) p q \<longleftrightarrow> q = in_dir (resdir_abs_path g) p \<or> is_temporary (in_dir (resdir_abs_path g) p) q"
  by (simp add: owned_def)

lemma shared_scope_simps [simp]:
  "scope_cwds (shared_scope g cwd) = {cwd, srcdir_abs_path g, resdir_abs_path g}"
  "scope_outs (shared_scope g cwd) = {cwd, srcdir_abs_path g, resdir_abs_path g}"
  "scope_ins (shared_scope g cwd) = {cwd, srcdir_abs_path g, resdir_abs_path g}" "scope_names (shared_scope g cwd) = out_args g"
  by (simp_all add: shared_scope_def Let_def)

lemma scope_of_names [simp]: "scope_names (scope_of g cwd) = out_args g"
  by (simp add: scope_of_def)

lemma produces_translation:
  assumes "produces tool content cwd g i u code" "moment content cwd sc s u"
  shows "translation tool content cwd sc s (in_dir (srcdir_abs_path g) i) code"
  using assms unfolding produces_def translation_def moment_def by metis

lemma processed_cases:
  assumes "processed tool content cwd g (task_in k) (task_out k) u t b" "moment content cwd (alone_scope g c) s u"
    and "task_out k \<in> set (out_args g)"
  obtains code where "translation tool content cwd (alone_scope g c) s (in_dir (srcdir_abs_path g) (task_in k)) code"
    and "b \<Longrightarrow> code = [] \<or> content t (output_path g k) = Some code"
    and "\<And>q. \<not> is_temporary (output_path g k) q \<Longrightarrow> content t q = content u q \<or> q = output_path g k \<and> content t q = Some code"
    and "cwd t = cwd u \<Longrightarrow> moment content cwd (alone_scope g c) s t"
proof -
  from assms(1) obtain code where code: "produces tool content cwd g (task_in k) u code"
    "if code = [] then content t = content u else replaced (output_path g k) code (content u) (content t) b"
    unfolding processed_def output_path_def by blast
  have changed: "only_changed (output_path g k) (content u) (content t)"
    using code(2) by (simp add: replaced_def split: if_splits)
  show thesis
  proof (rule that [of code])
    show "translation tool content cwd (alone_scope g c) s (in_dir (srcdir_abs_path g) (task_in k)) code"
      by (rule produces_translation [OF code(1) assms(2)])
    show "code = [] \<or> content t (output_path g k) = Some code" if b
      using code(2) that by (auto simp: replaced_def split: if_splits)
    show "content t q = content u q \<or> q = output_path g k \<and> content t q = Some code"
      if "\<not> is_temporary (output_path g k) q" for q
      using code(2) changed that by (cases "q = output_path g k") (auto simp: replaced_def only_changed_def split: if_splits)
    show "moment content cwd (alone_scope g c) s t" if "cwd t = cwd u"
      using assms(2,3) changed that unfolding moment_def only_changed_def owned_alone output_path_def by (metis alone_scope_simps(4))
  qed
qed

context posix
begin

lemma run_tasks_untorn:
  assumes "tool_os tool = os" "\<not> custom_generator g" "is_absolute (srcdir_abs_path g)" "is_absolute (resdir_abs_path g)"
    and c: "is_absolute c"
  shows "moment content cwd (alone_scope g c) s0 s \<Longrightarrow> task_out ` set ts \<subseteq> set (out_args g) \<Longrightarrow>
    \<forall>k \<in> set ts. \<not> is_temporary (output_path g k) q \<Longrightarrow>
    ensures (run_tasks tool g waited ts) s (\<lambda>r t. content t q = content s q \<or>
      (\<exists>k \<in> set ts. q = output_path g k \<and> (\<exists>code. content t q = Some code \<and>
         translation tool content cwd (alone_scope g c) s0 (in_dir (srcdir_abs_path g) (task_in k)) code)))"
proof (induction ts arbitrary: s)
  case Nil
  then show ?case by (simp add: ensures_simps)
next
  case (Cons k ts)
  define W where "W = (\<lambda>(j :: task) content_q. \<exists>code. content_q = Some code \<and>
    translation tool content cwd (alone_scope g c) s0 (in_dir (srcdir_abs_path g) (task_in j)) code)"
  define Q where "Q = (\<lambda>(r :: unit run) t. content t q = content s q \<or>
      (\<exists>j \<in> set (k # ts). q = output_path g j \<and> W j (content t q)))"
  have abs: "is_absolute (cwd s)" using Cons.prems(1) c by (simp add: moment_def)
  have step: "(content u q = content s q \<or> q = output_path g k \<and> W k (content u q)) \<and>
      (cwd u = cwd s \<longrightarrow> moment content cwd (alone_scope g c) s0 u)"
    if "processed tool content cwd g (task_in k) (task_out k) s u b" for u b
    by (rule processed_cases [OF that Cons.prems(1)]) (use Cons.prems(2,3) in \<open>auto simp: W_def\<close>)
  have Q_step: "Q r u" if "processed tool content cwd g (task_in k) (task_out k) s u b" for r u b
    using step [OF that] by (auto simp: Q_def)
  have Q_same: "Q r u" if "content u = content s" for r u
    using that by (simp add: Q_def)
  have rest: "ensures (run_tasks tool g waited ts) u Q"
    if u: "cwd u = cwd s" "processed tool content cwd g (task_in k) (task_out k) s u True" for u
  proof -
    have "moment content cwd (alone_scope g c) s0 u" "task_out ` set ts \<subseteq> set (out_args g)"
      "\<forall>j \<in> set ts. \<not> is_temporary (output_path g j) q"
      using step [OF u(2)] u(1) Cons.prems(2,3) by auto
    from Cons.IH [OF this] show ?thesis
      by (rule ensures_mono) (use step [OF u(2)] in \<open>auto simp: Q_def W_def\<close>)
  qed
  have "ensures (run_tasks tool g waited (k # ts)) s Q"
    unfolding run_tasks.simps ensures_bind
    by (rule ensures_mono [OF run_task_law [OF assms(1-4) abs]])
      (auto intro: rest Q_step Q_same)
  then show ?case unfolding Q_def W_def .
qed

lemma run_tasks_complete:
  assumes "tool_os tool = os" "\<not> custom_generator g" "is_absolute (srcdir_abs_path g)" "is_absolute (resdir_abs_path g)"
    and c: "is_absolute c"
  shows "moment content cwd (alone_scope g c) s0 s \<Longrightarrow> task_out ` set ts \<subseteq> set (out_args g) \<Longrightarrow> distinct (map (output_path g) ts) \<Longrightarrow>
    \<forall>j \<in> set ts. \<forall>k \<in> set ts. \<not> is_temporary (output_path g j) (output_path g k) \<Longrightarrow>
    ensures (run_tasks tool g waited ts) s (\<lambda>r t. r = Ret () \<longrightarrow>
      (\<forall>k \<in> set ts. \<exists>code. (code = [] \<or> content t (output_path g k) = Some code) \<and>
         translation tool content cwd (alone_scope g c) s0 (in_dir (srcdir_abs_path g) (task_in k)) code))"
proof (induction ts arbitrary: s)
  case Nil
  then show ?case by (simp add: ensures_simps)
next
  case (Cons k ts)
  define P where "P = (\<lambda>t j. \<exists>code. (code = [] \<or> content t (output_path g j) = Some code) \<and>
    translation tool content cwd (alone_scope g c) s0 (in_dir (srcdir_abs_path g) (task_in j)) code)"
  have abs: "is_absolute (cwd s)" using Cons.prems(1) c by (simp add: moment_def)
  have rest: "ensures (run_tasks tool g waited ts) u (\<lambda>r t. r = Ret () \<longrightarrow> (\<forall>j \<in> set (k # ts). P t j))"
    if u: "cwd u = cwd s" "processed tool content cwd g (task_in k) (task_out k) s u True" for u
  proof -
    obtain code where
      code: "translation tool content cwd (alone_scope g c) s0 (in_dir (srcdir_abs_path g) (task_in k)) code"
        "code = [] \<or> content u (output_path g k) = Some code"
      and m: "moment content cwd (alone_scope g c) s0 u"
      by (rule processed_cases [OF u(2) Cons.prems(1)]) (use Cons.prems(2) u(1) in auto)
    have d: "task_out ` set ts \<subseteq> set (out_args g)" "distinct (map (output_path g) ts)"
      "\<forall>i \<in> set ts. \<forall>j \<in> set ts. \<not> is_temporary (output_path g i) (output_path g j)"
      "\<forall>j \<in> set ts. \<not> is_temporary (output_path g j) (output_path g k)"
      using Cons.prems by auto
    have "\<forall>j \<in> set ts. output_path g k \<noteq> output_path g j" using Cons.prems(3) by auto
    then have "ensures (run_tasks tool g waited ts) u (\<lambda>r t. content t (output_path g k) = content u (output_path g k))"
      by (intro ensures_mono [OF run_tasks_untorn [OF assms m d(1,4)]]) blast
    from ensures_conj [OF this Cons.IH [OF m d(1-3)]] show ?thesis
      by (rule ensures_mono) (use code in \<open>auto simp: P_def\<close>)
  qed
  have "ensures (run_tasks tool g waited (k # ts)) s (\<lambda>r t. r = Ret () \<longrightarrow> (\<forall>j \<in> set (k # ts). P t j))"
    unfolding run_tasks.simps ensures_bind
    by (rule ensures_mono [OF run_task_law [OF assms(1-4) abs]]) (use rest in auto)
  then show ?case unfolding P_def .
qed

end

section \<open>The tasks\<close>

definition task_of :: "config \<Rightarrow> nat \<Rightarrow> task" where
  "task_of g i = \<lparr>task_in = in_args g ! i, task_out = out_args g ! i, task_expiration = task_timeout g i\<rparr>"

lemma task_of_simps [simp]:
  "task_in (task_of g i) = in_args g ! i" "task_out (task_of g i) = out_args g ! i" "task_expiration (task_of g i) = task_timeout g i"
  by (simp_all add: task_of_def)

text \<open>The tasks that are added are the first ones; all of them when the loop ends without an exception or a failed check.\<close>

lemma make_tasks_take:
  "\<exists>n. fst (make_tasks cfg g i ins) = map (\<lambda>k. \<lparr>task_in = ins ! k, task_out = out_args g ! (i + k),
       task_expiration = task_timeout g (i + k)\<rparr>) [0..<n] \<and> n \<le> length ins \<and> i + n \<le> max i (length (out_args g)) \<and>
     (snd (make_tasks cfg g i ins) = Ret () \<longrightarrow> n = length ins)"
proof (induction ins arbitrary: i)
  case (Cons p ps)
  have shift: "map f [0..<Suc n] = f 0 # map (\<lambda>k. f (Suc k)) [0..<n]" for f :: "nat \<Rightarrow> task" and n
    unfolding upt_conv_Cons [OF zero_less_Suc] by (simp add: map_Suc_upt [symmetric] del: upt_Suc)
  let ?t = "\<lparr>task_in = p, task_out = out_args g ! i, task_expiration = task_timeout g i\<rparr>"
  show ?case
  proof (cases "make_task cfg g i p")
    case (Ret t)
    then have i: "i < length (out_args g)" and t: "t = ?t"
      by (auto simp: make_task_def vec_at_def run_simps split: if_splits)
    show ?thesis
    proof (cases "run_bind (DCHECK cfg (task_in t \<noteq> [])) (\<lambda>_. DCHECK cfg (task_out t \<noteq> []))")
      case (Ret x)
      from Cons.IH [of "Suc i"] obtain n where n: "fst (make_tasks cfg g (Suc i) ps) = map (\<lambda>k. \<lparr>task_in = ps ! k,
          task_out = out_args g ! (Suc i + k), task_expiration = task_timeout g (Suc i + k)\<rparr>) [0..<n]"
        "n \<le> length ps" "Suc i + n \<le> max (Suc i) (length (out_args g))"
        "snd (make_tasks cfg g (Suc i) ps) = Ret () \<longrightarrow> n = length ps" by blast
      then show ?thesis using \<open>make_task cfg g i p = Ret t\<close> t Ret i
        by (intro exI [of _ "Suc n"]) (simp add: shift del: upt_Suc)
    qed (use \<open>make_task cfg g i p = Ret t\<close> t i in \<open>intro exI [of _ 1], simp\<close>)+
  qed simp_all
qed simp

lemma make_tasks_tasks:
  assumes "length (in_args g) = length (out_args g)"
  obtains n where "fst (make_tasks cfg g 0 (in_args g)) = map (task_of g) [0..<n]" "n \<le> length (in_args g)"
    "snd (make_tasks cfg g 0 (in_args g)) = Ret () \<Longrightarrow> n = length (in_args g)"
proof -
  from make_tasks_take [of cfg g 0 "in_args g"] obtain n where "fst (make_tasks cfg g 0 (in_args g)) = map (task_of g) [0..<n]"
    "n \<le> length (in_args g)" "snd (make_tasks cfg g 0 (in_args g)) = Ret () \<longrightarrow> n = length (in_args g)"
    by (auto simp: task_of_def [abs_def])
  then show thesis by (intro that [of n]) auto
qed

lemma make_tasks_all:
  assumes "i + length ins \<le> length (out_args g)" "i + length ins \<le> length (in_args g)"
    and "[] \<notin> set ins" "[] \<notin> set (out_args g)"
  shows "snd (make_tasks cfg g i ins) = Ret ()"
  using assms
proof (induction ins arbitrary: i)
  case (Cons p ps)
  then have "out_args g ! i \<in> set (out_args g)" by (intro nth_mem) simp
  then have "out_args g ! i \<noteq> []" using Cons.prems(4) by metis
  then have "make_task cfg g i p = Ret \<lparr>task_in = p, task_out = out_args g ! i, task_expiration = task_timeout g i\<rparr>"
    using Cons.prems by (simp add: make_task_def DCHECK_def vec_at_def)
  moreover have "snd (make_tasks cfg g (Suc i) ps) = Ret ()" using Cons by simp
  ultimately show ?case using Cons.prems \<open>out_args g ! i \<noteq> []\<close> by (auto simp: DCHECK_def)
qed simp

section \<open>A disk without faults\<close>

lemma write_result_disk:
  assumes "disk_faults d = []" "is_absolute resdir" "is_absolute (disk_cwd d)" "parent_path (in_dir resdir p) \<noteq> []"
  shows "\<exists>t. write_result disk_os resdir code p d = (Ret (), t) \<and> disk_faults t = []"
proof -
  let ?u = "d\<lparr>disk_cwd := resdir\<rparr>"
  have "disk_faults ?u = []" using assms(1) by simp
  from atomicallyWrite_disk [OF this assms(4), of code] obtain v where
    v: "atomicallyWriteFileToDisk disk_os code (in_dir resdir p) ?u = (Ret True, v)" "disk_faults v = []" by blast
  have abs: "absolute_path disk_os p ?u = (Ret (in_dir resdir p), ?u)"
    using assms(1) by (simp add: absolute_path_def in_dir_def io_return_def io_bind_def disk_os_def disk_simple_def)
  have "os_set_current_path disk_os resdir d = (Ret (), ?u)"
    using assms(1,2) by (simp add: disk_os_def disk_simple_def)
  then have "write_relative disk_os resdir code p d = (Ret (), v)"
    using v abs assms(2) by (simp add: write_relative_def absolute_path_def [of _ resdir] io_bind_Ret io_return_def)
  then show ?thesis using v(2) assms(1)
    by (simp add: write_result_def io_bind_def io_catch_def io_finally_def disk_os_def disk_simple_def)
qed

lemma processTemplate_disk:
  assumes tool: "tool_os tool = disk_os" "\<not> custom_generator g"
    and abs: "is_absolute (srcdir_abs_path g)" "is_absolute (resdir_abs_path g)" "is_absolute (disk_cwd d)"
    and view: "\<And>u. disk_files u = disk_files d \<Longrightarrow> disk_cwd u = disk_cwd d \<Longrightarrow> tool_view tool u = tool_view tool d"
    and d: "disk_faults d = []" "disk_files d (in_dir (srcdir_abs_path g) i) = Some src"
    and code: "fst (template_result tool src d) = success code" "code \<noteq> []"
    and p: "parent_path (in_dir (resdir_abs_path g) p) \<noteq> []"
  shows "\<exists>t. processTemplate tool g i p d = (Ret (), t) \<and> disk_faults t = [] \<and>
    disk_files t (in_dir (resdir_abs_path g) p) = Some code"
proof -
  from readFile_disk [OF d(1) abs(1) d(2)] obtain u where
    u: "readFile disk_os (srcdir_abs_path g) i d = (Ret src, u)" "disk_faults u = []" by blast
  from ensuresD [OF disk.readFile_law [OF abs(1,3)] u(1)] have same: "disk_files u = disk_files d" "disk_cwd u = disk_cwd d"
    by auto
  have result: "template_result tool src u = (success code, u)"
    using code(1) view [OF same] by (simp add: template_result_def)
  from write_result_disk [OF u(2) abs(2) _ p] same abs(3) obtain t where
    t: "write_result disk_os (resdir_abs_path g) code p u = (Ret (), t)" "disk_faults t = []" by metis
  have "is_absolute (disk_cwd u)" using same(2) abs(3) by simp
  from ensuresD [OF disk.write_result_law [OF abs(2) this] t(1)]
  have "disk_files t (in_dir (resdir_abs_path g) p) = Some code" by (simp add: replaced_def)
  then show ?thesis using u t result code(2) tool by (simp add: processTemplate_def io_bind_Ret)
qed

section \<open>Examples to evaluate\<close>

definition disk_filesystem :: "disk \<Rightarrow> filesystem" where
  "disk_filesystem d =
     \<lparr>fs_absolute = (\<lambda>p. Ret (in_dir (disk_cwd d) p)),
      fs_exists = (\<lambda>p. Ret (disk_files d p \<noteq> None)),
      fs_is_regular_file = (\<lambda>p. Ret (disk_files d p \<noteq> None)),
      fs_open = (\<lambda>p. disk_files d (in_dir (disk_cwd d) p))\<rparr>"

definition no_cling :: "'s cling" where
  "no_cling = \<lparr>cling_new = (\<lambda>_. io_terminate), cling_AddIncludePath = (\<lambda>_. io_terminate),
     cling_enableDynamicLookup = (\<lambda>_. io_terminate), cling_process = (\<lambda>_. io_terminate)\<rparr>"

definition example_tool :: "disk tool" where
  "example_tool = \<lparr>tool_build = debug_build, cling_is_on = False, tool_os = disk_os, tool_startup = plain_startup, tool_cling = no_cling,
     tool_view = disk_filesystem, tool_icu = plain_icu, tool_depth = 0, address_of_result = 0, address_of_path = 0\<rparr>"

definition example_config :: "(string \<times> string) list \<Rightarrow> config" where
  "example_config io = \<lparr>in_args = map fst io, out_args = map snd io, srcdir_abs_path = ''/src'', resdir_abs_path = ''/out'',
     generator_path_arg = None, threads_arg = 2, single_task_timeout = None, global_timeout = None\<rparr>"

definition example_disk :: disk where
  "example_disk = empty_disk\<lparr>disk_files := [''/src/a.cxtpl'' \<mapsto> ''hi'', ''/src/bad.cxtpl'' \<mapsto> ''[[+'', ''/out/a.cpp'' \<mapsto> ''old'']\<rparr>"

lemma template_result_hi: "fst (template_result example_tool ''hi'' d) = success (raw_code (ASCIIToUTF16 ''hi''))"
proof -
  have src: "snd (ConvertResponseToUTF16 plain_icu [] ''hi'') = ASCIIToUTF16 ''hi''" by code_simp
  have ne: "ASCIIToUTF16 ''hi'' \<noteq> []" "length (ASCIIToUTF16 ''hi'') < 2 ^ 63" by simp_all
  have "canonical default_language [] (ASCIIToUTF16 ''hi'')" by code_simp
  moreover have "ASCIIToUTF16 ''hi'' = print_template default_language [] (Tail (ASCIIToUTF16 ''hi''))" by code_simp
  ultimately have "generate 0 debug_build env (ASCIIToUTF16 ''hi'') = success ([] @ raw_code (ASCIIToUTF16 ''hi''))" for env
    unfolding default_generate_iff [OF ne] by (intro exI [of _ "[]"] exI [of _ "ASCIIToUTF16 ''hi''"]) simp
  then show ?thesis by (simp add: template_result_def example_tool_def src)
qed

lemma example_output: "in_dir ''/out'' ''a.cpp'' = ''/out/a.cpp''"
  by code_simp

lemma example_temporary: "take 5 q \<noteq> ''/out/'' \<or> length q \<le> 16 \<Longrightarrow> \<not> is_temporary (in_dir ''/out'' ''a.cpp'') q"
proof -
  assume q: "take 5 q \<noteq> ''/out/'' \<or> length q \<le> 16"
  have "parent_path ''/out/a.cpp'' = ''/out''" "filename ''/out/a.cpp'' = ''a.cpp''" by code_simp+
  then have "temporary_path ''/out/a.cpp'' rnd = ''/out/a.cpp.temp-'' @ rnd" for rnd
    by (simp add: temporary_path_def path_join_def is_absolute_def)
  then show ?thesis using q by (auto simp: is_temporary_def example_output)
qed

section \<open>Properties\<close>

lemma example_args:
  "tool_os example_tool = disk_os" "\<not> custom_generator (example_config io)" "is_absolute (srcdir_abs_path (example_config io))"
  "is_absolute (resdir_abs_path (example_config io))" "is_absolute (disk_cwd example_disk)"
  "length (in_args (example_config io)) = length (out_args (example_config io))"
  by (simp_all add: example_tool_def custom_generator_def example_config_def is_absolute_def example_disk_def empty_disk_def)



text \<open>
  C15: a template that has no code (it is malformed, an include fails, it never comes to an end) ends the
  process, or its run does not return, and no file has changed.
\<close>

theorem tool_error_ends_process:
  assumes "posix os content cwd writing unread" "tool_os tool = os" "\<not> custom_generator g"
    and "is_absolute (srcdir_abs_path g)" "is_absolute (resdir_abs_path g)" "is_absolute (cwd s)"
    and no_code: "\<And>code. \<not> produces tool content cwd g i s code"
    and run: "processTemplate tool g i p s = (r, t)"
  shows "(r = Terminated \<or> r = Pending) \<and> content t = content s"
  using ensuresD [OF posix.processTemplate_law [OF assms(1-6)] run] no_code by (auto simp: processed_def)

theorem tool_error_ends_process_witness:
  "fst (processTemplate example_tool (example_config []) ''none.cxtpl'' ''a.cpp'' example_disk) \<in> {Terminated, Pending} \<and>
   disk_files (snd (processTemplate example_tool (example_config []) ''none.cxtpl'' ''a.cpp'' example_disk)) = disk_files example_disk"
proof -
  have "disk_files example_disk (in_dir (srcdir_abs_path (example_config [])) ''none.cxtpl'') = None" by code_simp
  then have "\<not> produces example_tool disk_files disk_cwd (example_config []) ''none.cxtpl'' example_disk code" for code
    by (simp add: produces_def)
  from tool_error_ends_process [OF disk.posix_axioms example_args(1-5) this surjective_pairing] show ?thesis by simp
qed


end
