(* ===== verification/Cxtpl_Steps.thy ===== *)
theory Cxtpl_Steps
  imports Cxtpl_System
begin

text \<open>
  A function that several threads run at once, as the sequence of its steps on the state they share. A step is
  one call that touches the shared state; between two steps the other threads move. Run without interruption,
  a sequence of steps is a stateful run (\<open>io\<close>) and its combinators are those of \<open>io\<close>.
  Rely and guarantee say what holds when others do interrupt.
\<close>

section \<open>Sequences of steps\<close>

datatype ('s, 'a) prog = Done "'a run" | Step "'s \<Rightarrow> ('s, 'a) prog \<times> 's"

text \<open>A call as one step.\<close>

definition call :: "('s, 'a) io \<Rightarrow> ('s, 'a) prog" where
  "call m = Step (\<lambda>s. case m s of (r, t) \<Rightarrow> (Done r, t))"

primrec prog_bind :: "('s, 'a) prog \<Rightarrow> ('a \<Rightarrow> ('s, 'b) prog) \<Rightarrow> ('s, 'b) prog" where
  "prog_bind (Done r) k =
     (case r of Ret x \<Rightarrow> k x | Raise e \<Rightarrow> Done (Raise e) | Terminated \<Rightarrow> Done Terminated | Pending \<Rightarrow> Done Pending)"
| "prog_bind (Step f) k = Step (map_prod (\<lambda>p. prog_bind p k) id \<circ> f)"

text \<open>The \<open>try\<close> with \<open>catch (const std::system_error&)\<close>, and the scope guard, as for \<open>io\<close>.\<close>

primrec prog_catch :: "('s, 'a) prog \<Rightarrow> ('s, 'a) prog \<Rightarrow> ('s, 'a) prog" where
  "prog_catch (Done r) handler = (if r = Raise System_error then handler else Done r)"
| "prog_catch (Step f) handler = Step (map_prod (\<lambda>p. prog_catch p handler) id \<circ> f)"

definition ended :: "'a run \<Rightarrow> bool" where
  "ended r \<longleftrightarrow> r = Terminated \<or> r = Pending"

definition after_cleanup :: "'a run \<Rightarrow> unit run \<Rightarrow> 'a run" where
  "after_cleanup r c = (case c of Ret _ \<Rightarrow> r | Pending \<Rightarrow> Pending | _ \<Rightarrow> Terminated)"

primrec prog_map :: "('a run \<Rightarrow> 'b run) \<Rightarrow> ('s, 'a) prog \<Rightarrow> ('s, 'b) prog" where
  "prog_map h (Done r) = Done (h r)"
| "prog_map h (Step f) = Step (map_prod (prog_map h) id \<circ> f)"

primrec prog_finally :: "('s, 'a) prog \<Rightarrow> ('s, unit) prog \<Rightarrow> ('s, 'a) prog" where
  "prog_finally (Done r) cleanup = (if ended r then Done r else prog_map (after_cleanup r) cleanup)"
| "prog_finally (Step f) cleanup = Step (map_prod (\<lambda>p. prog_finally p cleanup) id \<circ> f)"

lemma prog_induct [case_names Done Step]:
  assumes "\<And>r. P (Done r)" "\<And>f. (\<And>s. P (fst (f s))) \<Longrightarrow> P (Step f)"
  shows "P p"
proof (induction p)
  case (Step f)
  have "P (fst (f s))" for s by (rule Step [OF rangeI [of f s]]) (cases "f s", simp add: prod_set_simps)
  then show ?case by (rule assms(2))
qed (rule assms(1))

section \<open>Without interruption\<close>

primrec run_prog :: "('s, 'a) prog \<Rightarrow> ('s, 'a) io" where
  "run_prog (Done r) = (\<lambda>s. (r, s))"
| "run_prog (Step f) = (\<lambda>s. case map_prod run_prog id (f s) of (m, t) \<Rightarrow> m t)"

lemma run_prog_Step [simp]: "run_prog (Step f) s = run_prog (fst (f s)) (snd (f s))"
  by (simp add: map_prod_def split: prod.split)

declare run_prog.simps(2) [simp del]

named_theorems run_steps \<open>the uninterrupted run of a sequence of steps\<close>

lemma run_Done [run_steps]: "run_prog (Done r) = io_run r"
  by (simp add: io_run_def)

lemma run_call [run_steps]: "run_prog (call m) = m"
  by (auto simp: call_def fun_eq_iff split: prod.split)

lemma run_prog_bind [run_steps]: "run_prog (prog_bind p k) = io_bind (run_prog p) (\<lambda>x. run_prog (k x))"
proof (induction p rule: prog_induct)
  case (Done r)
  then show ?case by (cases r) (simp_all add: io_bind_def fun_eq_iff)
qed (simp add: fun_eq_iff io_bind_def)

lemma run_prog_catch [run_steps]: "run_prog (prog_catch p h) = io_catch (run_prog p) (run_prog h)"
proof (induction p rule: prog_induct)
  case (Done r)
  then show ?case by (cases r) (auto simp: io_catch_def fun_eq_iff split: cpp_exception.split)
qed (simp add: fun_eq_iff io_catch_def)

lemma run_prog_map: "run_prog (prog_map h p) s = (case run_prog p s of (r, t) \<Rightarrow> (h r, t))"
  by (induction p arbitrary: s rule: prog_induct) simp_all

lemma run_prog_finally [run_steps]: "run_prog (prog_finally p c) = io_finally (run_prog p) (run_prog c)"
proof (induction p rule: prog_induct)
  case (Done r)
  then show ?case
    by (cases r) (auto simp: io_finally_def fun_eq_iff ended_def after_cleanup_def run_prog_map split: prod.split run.split)
qed (simp add: fun_eq_iff io_finally_def)

lemma run_prog_if [run_steps]: "run_prog (if b then p else q) = (if b then run_prog p else run_prog q)"
  by simp

section \<open>Rely and guarantee\<close>

text \<open>
  \<open>guarded R G Q p s\<close>: while the others only change the state as \<open>R\<close> allows, every step of \<open>p\<close> from \<open>s\<close> on
  changes it as \<open>G\<close> promises, and \<open>p\<close> ends with a result and a state that satisfy \<open>Q\<close>.
\<close>

primrec guarded ::
  "('s \<Rightarrow> 's \<Rightarrow> bool) \<Rightarrow> ('s \<Rightarrow> 's \<Rightarrow> bool) \<Rightarrow> ('a run \<Rightarrow> 's \<Rightarrow> bool) \<Rightarrow> ('s, 'a) prog \<Rightarrow> 's \<Rightarrow> bool" where
  "guarded R G Q (Done r) = (\<lambda>s. \<forall>t. R s t \<longrightarrow> Q r t)"
| "guarded R G Q (Step f) = (\<lambda>s. \<forall>t. R s t \<longrightarrow> G t (snd (f t)) \<and> fst (map_prod (guarded R G Q) id (f t)) (snd (f t)))"

lemma guarded_Step [simp]:
  "guarded R G Q (Step f) s \<longleftrightarrow> (\<forall>t. R s t \<longrightarrow> G t (snd (f t)) \<and> guarded R G Q (fst (f t)) (snd (f t)))"
  by simp

declare guarded.simps(2) [simp del]

lemma guarded_call:
  "guarded R G Q (call m) s \<longleftrightarrow> (\<forall>t. R s t \<longrightarrow> ensures m t (\<lambda>r u. G t u \<and> (\<forall>v. R u v \<longrightarrow> Q r v)))"
  by (auto simp: call_def ensures_def split: prod.splits)

lemma guarded_stable: "guarded R G Q p s \<Longrightarrow> R s t \<Longrightarrow> transp R \<Longrightarrow> guarded R G Q p t"
  by (cases p) (auto dest: transpD)

lemma guarded_weaken:
  assumes "guarded R G Q p s" "\<And>t u. R' t u \<Longrightarrow> R t u" "\<And>r t. Q r t \<Longrightarrow> Q' r t"
  shows "guarded R' G Q' p s"
  using assms(1)
proof (induction p arbitrary: s rule: prog_induct)
  case (Done r)
  then show ?case using assms(2,3) by simp
next
  case (Step f)
  show ?case unfolding guarded_Step
  proof (intro allI impI conjI)
    fix t
    assume "R' s t"
    with assms(2) Step.prems have t: "G t (snd (f t))" "guarded R G Q (fst (f t)) (snd (f t))" by simp_all
    show "G t (snd (f t))" by (rule t)
    show "guarded R' G Q' (fst (f t)) (snd (f t))" by (rule Step.IH [OF t(2)])
  qed
qed

definition stable_under :: "('s \<Rightarrow> 's \<Rightarrow> bool) \<Rightarrow> ('s \<Rightarrow> bool) \<Rightarrow> bool" where
  "stable_under R P \<longleftrightarrow> (\<forall>s t. P s \<longrightarrow> R s t \<longrightarrow> P t)"

text \<open>
  How a function can end: \<open>I\<close> holds in any case, \<open>N\<close> of the value it returns, and the ways not to return are
  those in \<open>E\<close>.
\<close>

definition ends :: "('s \<Rightarrow> bool) \<Rightarrow> unit run set \<Rightarrow> ('a \<Rightarrow> 's \<Rightarrow> bool) \<Rightarrow> 'a run \<Rightarrow> 's \<Rightarrow> bool" where
  "ends I E N r s \<longleftrightarrow> I s \<and> (case r of
     Ret x \<Rightarrow> N x s | Raise e \<Rightarrow> Raise e \<in> E | Terminated \<Rightarrow> Terminated \<in> E | Pending \<Rightarrow> Pending \<in> E)"

lemma ends_simps [simp]:
  "ends I E N (Ret x) s \<longleftrightarrow> I s \<and> N x s"
  "ends I E N (Raise e) s \<longleftrightarrow> I s \<and> Raise e \<in> E"
  "ends I E N Terminated s \<longleftrightarrow> I s \<and> Terminated \<in> E"
  "ends I E N Pending s \<longleftrightarrow> I s \<and> Pending \<in> E"
  by (simp_all add: ends_def)

lemma stable_underD: "stable_under R P \<Longrightarrow> R s t \<Longrightarrow> P s \<Longrightarrow> P t"
  by (simp add: stable_under_def)

lemma stable_ends:
  assumes I: "stable_under R I" and N: "\<And>x. stable_under R (\<lambda>s. I s \<and> N x s)" and "R s t" "ends I E N r s"
  shows "ends I E N r t"
  using assms(4) stable_underD [OF I assms(3)] stable_underD [OF N assms(3)] by (cases r) simp_all

text \<open>The triple of a precondition, a sequence of steps and a postcondition, under a rely and a guarantee.\<close>

definition rg ::
  "('s \<Rightarrow> 's \<Rightarrow> bool) \<Rightarrow> ('s \<Rightarrow> 's \<Rightarrow> bool) \<Rightarrow> ('s \<Rightarrow> bool) \<Rightarrow> ('s, 'a) prog \<Rightarrow> ('a run \<Rightarrow> 's \<Rightarrow> bool) \<Rightarrow> bool" where
  "rg R G P p Q \<longleftrightarrow> (\<forall>s. P s \<longrightarrow> guarded R G Q p s)"

lemma rg_conseq: "rg R G P p Q \<Longrightarrow> (\<And>s. P' s \<Longrightarrow> P s) \<Longrightarrow> (\<And>r s. Q r s \<Longrightarrow> Q' r s) \<Longrightarrow> rg R G P' p Q'"
  unfolding rg_def by (intro allI impI) (rule guarded_weaken [of R G Q], auto)

lemma rg_done: "stable_under R P \<Longrightarrow> (\<And>s. P s \<Longrightarrow> Q r s) \<Longrightarrow> rg R G P (Done r) Q"
  by (auto simp: rg_def stable_under_def)

lemma rg_call:
  assumes "stable_under R P" "stable_under R I" "\<And>x. stable_under R (\<lambda>s. I s \<and> N x s)"
    and "\<And>s. P s \<Longrightarrow> ensures m s (\<lambda>r t. G s t \<and> ends I E N r t)"
  shows "rg R G P (call m) (ends I E N)"
  unfolding rg_def guarded_call
proof (intro allI impI)
  fix s t
  assume "P s" "R s t"
  then have "P t" using stable_underD [OF assms(1)] by blast
  from assms(4) [OF this] show "ensures m t (\<lambda>r u. G t u \<and> (\<forall>v. R u v \<longrightarrow> ends I E N r v))"
    by (rule ensures_mono) (auto intro: stable_ends [OF assms(2,3)])
qed

lemma guarded_bind:
  assumes "guarded R G M p s" "reflp R"
    and "\<And>x t. M (Ret x) t \<Longrightarrow> guarded R G Q (k x) t"
    and "\<And>e t. M (Raise e) t \<Longrightarrow> Q (Raise e) t" "\<And>t. M Terminated t \<Longrightarrow> Q Terminated t" "\<And>t. M Pending t \<Longrightarrow> Q Pending t"
  shows "guarded R G Q (prog_bind p k) s"
  using assms(1)
proof (induction p arbitrary: s rule: prog_induct)
  case (Done r)
  then have "M r s" using assms(2) by (simp add: reflpD)
  with Done assms(3-6) show ?case by (cases r) auto
qed auto

lemma rg_bind:
  assumes "rg R G P p (ends I E M)" "\<And>x. rg R G (\<lambda>s. I s \<and> M x s) (k x) (ends I E N)" "reflp R"
  shows "rg R G P (prog_bind p k) (ends I E N)"
  using assms unfolding rg_def by (blast intro: guarded_bind [OF _ assms(3)] iffD2 [OF ends_simps(2)] iffD2 [OF ends_simps(3)]
      iffD2 [OF ends_simps(4)] dest: iffD1 [OF ends_simps(1)] iffD1 [OF ends_simps(2)] iffD1 [OF ends_simps(3)] iffD1 [OF ends_simps(4)])

lemma guarded_catch:
  assumes "guarded R G M p s" "reflp R"
    and "\<And>t. M (Raise System_error) t \<Longrightarrow> guarded R G Q h t" "\<And>r t. M r t \<Longrightarrow> r \<noteq> Raise System_error \<Longrightarrow> Q r t"
  shows "guarded R G Q (prog_catch p h) s"
  using assms(1)
proof (induction p arbitrary: s rule: prog_induct)
  case (Done r)
  then have "M r s" using assms(2) by (simp add: reflpD)
  with Done assms(3,4) show ?case by (cases "r = Raise System_error") auto
qed auto

lemma ends_mono: "ends I E N r s \<Longrightarrow> E \<subseteq> E' \<Longrightarrow> (\<And>x. N x s \<Longrightarrow> N' x s) \<Longrightarrow> ends I E' N' r s"
  by (cases r) auto

lemma rg_catch:
  assumes "rg R G P p (ends I (insert (Raise System_error) E) N)" "rg R G I h (ends I E N)" "reflp R"
  shows "rg R G P (prog_catch p h) (ends I E N)"
  unfolding rg_def
proof (intro allI impI, rule guarded_catch)
  fix s
  assume "P s"
  with assms(1) show "guarded R G (ends I (insert (Raise System_error) E) N) p s" by (simp add: rg_def)
  show "guarded R G (ends I E N) h t" if "ends I (insert (Raise System_error) E) N (Raise System_error) t" for t
    using that assms(2) by (simp add: rg_def)
  show "ends I E N r t" if "ends I (insert (Raise System_error) E) N r t" "r \<noteq> Raise System_error" for r t
    using that by (cases r) auto
qed (rule assms(3))

lemma guarded_map: "guarded R G M p s \<Longrightarrow> (\<And>r t. M r t \<Longrightarrow> Q (h r) t) \<Longrightarrow> guarded R G Q (prog_map h p) s"
  by (induction p arbitrary: s rule: prog_induct) auto

lemma guarded_finally:
  assumes "guarded R G M p s" "reflp R"
    and "\<And>r t. M r t \<Longrightarrow> ended r \<Longrightarrow> Q r t"
    and "\<And>r t. M r t \<Longrightarrow> \<not> ended r \<Longrightarrow> guarded R G (\<lambda>c. Q (after_cleanup r c)) c t"
  shows "guarded R G Q (prog_finally p c) s"
  using assms(1)
proof (induction p arbitrary: s rule: prog_induct)
  case (Done r)
  then have "M r s" using assms(2) by (simp add: reflpD)
  with Done assms(3,4) show ?case by (cases "ended r") (simp_all add: guarded_map [where M = "\<lambda>c. Q (after_cleanup r c)"])
qed auto

lemma rg_finally:
  assumes p: "rg R G P p (ends I E N)"
    and c: "\<And>x. rg R G (\<lambda>s. I s \<and> N x s) c (ends I {Raise System_error, Terminated} (\<lambda>_. N x))"
      "rg R G I c (ends I {Raise System_error, Terminated} (\<lambda>_ _. True))"
    and E: "Terminated \<in> E" "reflp R"
  shows "rg R G P (prog_finally p c) (ends I E N)"
  unfolding rg_def
proof (intro allI impI, rule guarded_finally)
  fix s
  assume "P s"
  with p show "guarded R G (ends I E N) p s" by (simp add: rg_def)
  show "guarded R G (\<lambda>q. ends I E N (after_cleanup r q)) c t" if r: "ends I E N r t" "\<not> ended r" for r t
  proof (cases r)
    case (Ret x)
    with r c(1) have "guarded R G (ends I {Raise System_error, Terminated} (\<lambda>_. N x)) c t" by (simp add: rg_def)
    then show ?thesis
      by (rule guarded_weaken) (use E(1) Ret in \<open>auto simp: after_cleanup_def ends_def split: run.splits\<close>)
  next
    case (Raise e)
    with r c(2) have "guarded R G (ends I {Raise System_error, Terminated} (\<lambda>_ _. True)) c t" by (simp add: rg_def)
    then show ?thesis
      by (rule guarded_weaken) (use E(1) Raise r(1) in \<open>auto simp: after_cleanup_def ends_def split: run.splits\<close>)
  qed (use r in \<open>simp_all add: ended_def\<close>)
qed (use E in simp_all)

lemma rg_finally_set:
  assumes p: "rg R G P p (ends I E (\<lambda>x _. x \<in> X))" and c: "rg R G I c (ends I {Raise System_error, Terminated} (\<lambda>_ _. True))"
    and E: "Terminated \<in> E" "reflp R"
  shows "rg R G P (prog_finally p c) (ends I E (\<lambda>x _. x \<in> X))"
proof (rule rg_finally [OF p _ c E])
  show "rg R G (\<lambda>s. I s \<and> x \<in> X) c (ends I {Raise System_error, Terminated} (\<lambda>_ _. x \<in> X))" for x
  proof (cases "x \<in> X")
    case True
    then show ?thesis using c by simp
  qed (simp add: rg_def)
qed

section \<open>How many steps there are\<close>

text \<open>\<open>within p n\<close>: whatever the states are, \<open>p\<close> ends after at most \<open>n\<close> steps.\<close>

primrec within :: "('s, 'a) prog \<Rightarrow> nat \<Rightarrow> bool" where
  "within (Done r) = (\<lambda>n. True)"
| "within (Step f) = (\<lambda>n. case n of 0 \<Rightarrow> False | Suc m \<Rightarrow> \<forall>s. fst (map_prod within id (f s)) m)"

lemma within_Step [simp]:
  "within (Step f) n \<longleftrightarrow> (case n of 0 \<Rightarrow> False | Suc m \<Rightarrow> \<forall>s. within (fst (f s)) m)"
  by (simp split: nat.split)

declare within.simps(2) [simp del]

lemma within_mono: "within p m \<Longrightarrow> m \<le> n \<Longrightarrow> within p n"
  by (induction p arbitrary: m n rule: prog_induct) (auto split: nat.splits)

lemma within_done: "within (Done r) n"
  by simp

lemma within_call: "within (call m) 1"
  by (auto simp: call_def split: prod.split)

lemma within_if: "within p n \<Longrightarrow> within q n \<Longrightarrow> within (if b then p else q) n"
  by simp

lemma within_Step_Suc: "within (Step f) (Suc n) \<longleftrightarrow> (\<forall>s. within (fst (f s)) n)"
  by simp

lemma within_bind: "within p m \<Longrightarrow> (\<And>x. within (k x) n) \<Longrightarrow> within (prog_bind p k) (m + n)"
proof (induction p arbitrary: m rule: prog_induct)
  case (Done r)
  then show ?case by (cases r) (auto intro: within_mono [of _ n])
next
  case (Step f)
  then show ?case by (cases m) auto
qed

lemma within_catch: "within p m \<Longrightarrow> within h n \<Longrightarrow> within (prog_catch p h) (m + n)"
proof (induction p arbitrary: m rule: prog_induct)
  case (Done r)
  then show ?case by (auto intro: within_mono)
next
  case (Step f)
  then show ?case by (cases m) auto
qed

lemma within_map: "within p n \<Longrightarrow> within (prog_map h p) n"
  by (induction p arbitrary: n rule: prog_induct) (auto split: nat.splits)

lemma within_finally: "within p m \<Longrightarrow> within c n \<Longrightarrow> within (prog_finally p c) (m + n)"
proof (induction p arbitrary: m rule: prog_induct)
  case (Done r)
  then show ?case by (auto intro: within_mono within_map)
next
  case (Step f)
  then show ?case by (cases m) auto
qed

lemmas within_rules = within_done within_call within_if within_bind within_catch within_finally

text \<open>The number of steps that are left at most.\<close>

definition steps_left :: "('s, 'a) prog \<Rightarrow> nat" where
  "steps_left p = (LEAST n. within p n)"

lemma steps_left_le: "within p n \<Longrightarrow> steps_left p \<le> n"
  unfolding steps_left_def by (rule Least_le)

lemma steps_left_Step:
  assumes "within (Step f) n"
  shows "within (fst (f s)) (n - 1)" "steps_left (fst (f s)) < steps_left (Step f)"
proof -
  have "within (Step f) (steps_left (Step f))" unfolding steps_left_def using assms by (rule LeastI)
  then obtain m where m: "steps_left (Step f) = Suc m" "within (fst (f s)) m"
    by (cases "steps_left (Step f)") auto
  show "steps_left (fst (f s)) < steps_left (Step f)" using m steps_left_le [OF m(2)] by simp
  show "within (fst (f s)) (n - 1)" using assms by (cases n) auto
qed

end
