(* ===== verification/Cxtpl_Executor.thy ===== *)
theory Cxtpl_Executor
  imports Cxtpl_Steps "HOL-Library.Multiset"
begin

text \<open>
  What the tool relies on in \<open>folly::CPUThreadPoolExecutor\<close>: a queue of tasks and a number of threads. An idle
  thread takes the first task of the queue, a busy one makes the next step of its task; an exception that leaves
  a task is logged and the thread goes on with the next task; \<open>std::terminate\<close> ends the process. Which thread
  moves is decided by a schedule, a list of thread numbers, so what holds for every schedule holds for every
  interleaving and, as a schedule may stop anywhere, at every moment.
\<close>

section \<open>The machine\<close>

record ('s, 'k) executor =
  exec_state :: 's
  exec_queue :: "'k list"
  exec_threads :: "('k \<times> ('s, unit) prog) option list"
  exec_done :: "('k \<times> unit run) list"
  exec_aborted :: bool

definition new_executor :: "nat \<Rightarrow> 'k list \<Rightarrow> 's \<Rightarrow> ('s, 'k) executor" where
  "new_executor threads tasks s =
     \<lparr>exec_state = s, exec_queue = tasks, exec_threads = replicate threads None, exec_done = [], exec_aborted = False\<rparr>"

definition move_thread :: "('k \<Rightarrow> ('s, unit) prog) \<Rightarrow> ('s, 'k) executor \<Rightarrow> nat \<Rightarrow> ('s, 'k) executor" where
  "move_thread body e i =
     (if exec_aborted e \<or> length (exec_threads e) \<le> i then e
      else case exec_threads e ! i of
        None \<Rightarrow> (case exec_queue e of
            [] \<Rightarrow> e
          | k # ks \<Rightarrow> e\<lparr>exec_queue := ks, exec_threads := (exec_threads e)[i := Some (k, body k)]\<rparr>)
      | Some (k, Step f) \<Rightarrow> (case f (exec_state e) of
            (p, s) \<Rightarrow> e\<lparr>exec_state := s, exec_threads := (exec_threads e)[i := Some (k, p)]\<rparr>)
      | Some (k, Done r) \<Rightarrow>
          (if r = Terminated then e\<lparr>exec_aborted := True\<rparr>
           else if r = Pending then e
           else e\<lparr>exec_threads := (exec_threads e)[i := None], exec_done := (k, r) # exec_done e\<rparr>))"

definition run_threads :: "('k \<Rightarrow> ('s, unit) prog) \<Rightarrow> nat list \<Rightarrow> ('s, 'k) executor \<Rightarrow> ('s, 'k) executor" where
  "run_threads body sched e = foldl (move_thread body) e sched"

text \<open>\<open>join\<close>: it returns when nothing waits and no thread is busy.\<close>

definition join_result :: "('s, 'k) executor \<Rightarrow> unit run" where
  "join_result e =
     (if exec_aborted e then Terminated
      else if exec_queue e = [] \<and> (\<forall>th \<in> set (exec_threads e). th = None) then Ret ()
      else Pending)"

definition execute :: "nat \<Rightarrow> ('k \<Rightarrow> ('s, unit) prog) \<Rightarrow> nat list \<Rightarrow> 'k list \<Rightarrow> ('s, unit) io" where
  "execute threads body sched tasks =
     (\<lambda>s. let e = run_threads body sched (new_executor threads tasks s) in (join_result e, exec_state e))"

lemma run_threads_simps [simp]:
  "run_threads body [] e = e"
  "run_threads body (i # is) e = run_threads body is (move_thread body e i)"
  "run_threads body (is @ js) e = run_threads body js (run_threads body is e)"
  by (simp_all add: run_threads_def)

section \<open>The tasks in the machine\<close>

text \<open>Every task is waiting, in a thread, or done: a task with what is left of its program.\<close>

definition of_thread :: "('k \<times> ('s, unit) prog) option \<Rightarrow> ('k \<times> ('s, unit) prog) multiset" where
  "of_thread th = (case th of None \<Rightarrow> {#} | Some kp \<Rightarrow> {#kp#})"

lemma of_thread_simps [simp]: "of_thread None = {#}" "of_thread (Some kp) = {#kp#}"
  by (simp_all add: of_thread_def)

definition programs :: "('k \<Rightarrow> ('s, unit) prog) \<Rightarrow> ('s, 'k) executor \<Rightarrow> ('k \<times> ('s, unit) prog) multiset" where
  "programs body e =
     image_mset (\<lambda>k. (k, body k)) (mset (exec_queue e)) + sum_list (map of_thread (exec_threads e)) +
     image_mset (\<lambda>(k, r). (k, Done r)) (mset (exec_done e))"

lemma sum_threads_split:
  "i < length ths \<Longrightarrow> \<exists>M. sum_list (map of_thread ths) = of_thread (ths ! i) + M \<and>
     (\<forall>th. sum_list (map of_thread (ths[i := th])) = of_thread th + M)"
proof (induction ths arbitrary: i)
  case (Cons th ths)
  show ?case
  proof (cases i)
    case (Suc j)
    with Cons obtain M where "sum_list (map of_thread ths) = of_thread (ths ! j) + M"
      "\<forall>th. sum_list (map of_thread (ths[j := th])) = of_thread th + M" by auto
    then show ?thesis using Suc by (intro exI [of _ "of_thread th + M"]) (simp add: add.assoc add.left_commute)
  qed auto
qed simp

text \<open>A move of a thread is a step of one task, or changes neither the state nor the tasks.\<close>

lemma move_thread_cases:
  fixes body :: "'k \<Rightarrow> ('s, unit) prog"
  obtains (same) "programs body (move_thread body e i) = programs body e" "exec_state (move_thread body e i) = exec_state e"
  | (step) k f M where "programs body e = add_mset (k, Step f) M"
      "programs body (move_thread body e i) = add_mset (k, fst (f (exec_state e))) M"
      "exec_state (move_thread body e i) = snd (f (exec_state e))"
proof (cases "exec_aborted e \<or> length (exec_threads e) \<le> i")
  case True
  then show ?thesis using same by (simp add: move_thread_def)
next
  case False
  then have active: "\<not> exec_aborted e" "i < length (exec_threads e)" by auto
  from sum_threads_split [OF active(2)] obtain M where M: "sum_list (map of_thread (exec_threads e)) = of_thread (exec_threads e ! i) + M"
    "\<And>th. sum_list (map of_thread ((exec_threads e)[i := th])) = of_thread th + M" by blast
  show ?thesis
  proof (cases "exec_threads e ! i")
    case None
    then show ?thesis using same active M
      by (cases "exec_queue e") (simp_all add: move_thread_def programs_def)
  next
    case (Some kp)
    show ?thesis
    proof (cases "snd kp")
      case (Done r)
      then show ?thesis using same active M Some
        by (cases kp) (auto simp: move_thread_def programs_def)
    next
      case (Step f)
      then show ?thesis using step [of "fst kp" f] active M Some
        by (cases kp) (auto simp: move_thread_def programs_def split: prod.split)
    qed
  qed
qed

lemma move_thread_length [simp]: "length (exec_threads (move_thread body e i)) = length (exec_threads e)"
  by (simp add: move_thread_def split: option.split prod.split prog.split list.split)

lemma run_threads_length [simp]: "length (exec_threads (run_threads body sched e)) = length (exec_threads e)"
  by (induction sched arbitrary: e) simp_all

lemma new_executor_simps [simp]:
  "exec_state (new_executor n ks s) = s" "exec_queue (new_executor n ks s) = ks" "exec_done (new_executor n ks s) = []"
  "exec_threads (new_executor n ks s) = replicate n None" "\<not> exec_aborted (new_executor n ks s)"
  by (simp_all add: new_executor_def)

lemma programs_new [simp]: "programs body (new_executor n ks s) = image_mset (\<lambda>k. (k, body k)) (mset ks)"
proof -
  have "sum_list (map of_thread (replicate n None)) = {#}" by (induction n) simp_all
  then show ?thesis by (simp add: programs_def)
qed

lemma move_thread_tasks: "image_mset fst (programs body (move_thread body e i)) = image_mset fst (programs body e)"
  by (rule move_thread_cases [of body e i]) simp_all

lemma run_threads_tasks: "image_mset fst (programs body (run_threads body sched e)) = image_mset fst (programs body e)"
  by (induction sched arbitrary: e) (simp_all add: move_thread_tasks)

text \<open>A task is done once it is in the list, and \<open>join\<close> returns with all of them in it.\<close>

lemma programs_thread: "th \<in> set (exec_threads e) \<Longrightarrow> th = Some kp \<Longrightarrow> kp \<in># programs body e"
proof -
  assume th: "th \<in> set (exec_threads e)" "th = Some kp"
  have "kp \<in># sum_list (map of_thread ths)" if "Some kp \<in> set ths" for ths
    using that by (induction ths) auto
  then show ?thesis using th by (simp add: programs_def)
qed

lemma programs_joined:
  assumes "join_result e = Ret ()"
  shows "programs body e = image_mset (\<lambda>(k, r). (k, Done r)) (mset (exec_done e))"
proof -
  have idle: "exec_queue e = []" "\<forall>th \<in> set (exec_threads e). th = None"
    using assms by (simp_all add: join_result_def split: if_splits)
  have "sum_list (map of_thread ths) = {#}" if "\<forall>th \<in> set ths. th = None" for ths :: "('k \<times> ('s, unit) prog) option list"
    using that by (induction ths) auto
  then show ?thesis using idle by (simp add: programs_def)
qed

text \<open>Only a result that is a value or an exception is ever recorded.\<close>

lemma run_threads_done:
  "(\<And>k r. (k, r) \<in> set (exec_done e) \<Longrightarrow> \<not> ended r) \<Longrightarrow> (k, r) \<in> set (exec_done (run_threads body sched e)) \<Longrightarrow> \<not> ended r"
proof (induction sched arbitrary: e)
  case (Cons i sched)
  have "\<not> ended r" if "(k, r) \<in> set (exec_done (move_thread body e i))" for k r
    using that Cons.prems(1)
    by (auto simp: move_thread_def ended_def split: if_splits option.splits prod.splits prog.splits list.splits)
  from Cons.IH [OF this] Cons.prems(2) show ?case by simp
qed auto

text \<open>A task that does not come back.\<close>

definition waits :: "('s, 'k) executor \<Rightarrow> bool" where
  "waits e \<longleftrightarrow> (\<exists>k. Some (k, Done Pending) \<in> set (exec_threads e))"

section \<open>Tasks that do not disturb each other\<close>

text \<open>
  The contract of tasks that run at once: what each guarantees, the others can live with. Then every task can be
  reasoned about alone.
\<close>

locale interference =
  fixes rely guar :: "'k \<Rightarrow> 's \<Rightarrow> 's \<Rightarrow> bool"
  assumes rely_refl: "reflp (rely k)"
    and rely_trans: "transp (rely k)"
    and guar_rely: "j \<noteq> k \<Longrightarrow> guar j s t \<Longrightarrow> rely k s t"
begin

definition all_guarded :: "('k \<Rightarrow> unit run \<Rightarrow> 's \<Rightarrow> bool) \<Rightarrow> ('k \<times> ('s, unit) prog) multiset \<Rightarrow> 's \<Rightarrow> bool" where
  "all_guarded post M s \<longleftrightarrow> (\<forall>(k, p) \<in># M. guarded (rely k) (guar k) (post k) p s)"

lemma move_guarded:
  assumes ok: "all_guarded post (programs body e) (exec_state e)"
    and tasks: "image_mset fst (programs body e) = mset ks" "distinct ks"
    and inv: "J (exec_state e)" "\<And>k s t. k \<in> set ks \<Longrightarrow> guar k s t \<Longrightarrow> J s \<Longrightarrow> J t"
  shows "all_guarded post (programs body (move_thread body e i)) (exec_state (move_thread body e i)) \<and>
    J (exec_state (move_thread body e i))"
proof (rule move_thread_cases [of body e i])
  assume "programs body (move_thread body e i) = programs body e" "exec_state (move_thread body e i) = exec_state e"
  then show ?thesis using ok inv by simp
next
  fix k f M
  assume step: "programs body e = add_mset (k, Step f) M"
    "programs body (move_thread body e i) = add_mset (k, fst (f (exec_state e))) M"
    "exec_state (move_thread body e i) = snd (f (exec_state e))"
  let ?s = "exec_state e" and ?t = "snd (f (exec_state e))"
  have "guarded (rely k) (guar k) (post k) (Step f) ?s" using ok step(1) by (simp add: all_guarded_def)
  then have now: "guar k ?s ?t" "guarded (rely k) (guar k) (post k) (fst (f ?s)) ?t"
    using reflpD [OF rely_refl [of k], of ?s] by auto
  have ks: "mset ks = add_mset k (image_mset fst M)" using tasks(1) step(1) by simp
  then have "k \<in> set ks" by (metis set_mset_mset union_single_eq_member)
  then have inv': "J ?t" using inv now(1) by blast
  have others: "j \<noteq> k" if "(j, p) \<in># M" for j p
  proof
    assume "j = k"
    with that have "k \<in># image_mset fst M" by force
    then have "2 \<le> count (mset ks) k" using ks by simp
    moreover have "count (mset ks) k \<le> 1" using tasks(2) by (simp add: distinct_count_atmost_1)
    ultimately show False by simp
  qed
  have "guarded (rely j) (guar j) (post j) p ?t" if "(j, p) \<in># M" for j p
  proof -
    have "guarded (rely j) (guar j) (post j) p ?s" using ok step(1) that by (auto simp: all_guarded_def)
    moreover have "rely j ?s ?t" using others [OF that] now(1) by (intro guar_rely) auto
    ultimately show ?thesis using rely_trans by (rule guarded_stable)
  qed
  then show ?thesis using step now(2) inv' by (auto simp: all_guarded_def)
qed

lemma threads_guarded:
  assumes "all_guarded post (programs body e) (exec_state e)"
    and "image_mset fst (programs body e) = mset ks" "distinct ks"
    and "J (exec_state e)" "\<And>k s t. k \<in> set ks \<Longrightarrow> guar k s t \<Longrightarrow> J s \<Longrightarrow> J t"
  shows "all_guarded post (programs body (run_threads body sched e)) (exec_state (run_threads body sched e)) \<and>
    J (exec_state (run_threads body sched e))"
  using assms(1,2,4)
proof (induction sched arbitrary: e)
  case (Cons i sched)
  have "all_guarded post (programs body (move_thread body e i)) (exec_state (move_thread body e i)) \<and>
      J (exec_state (move_thread body e i))"
    by (rule move_guarded [where J = J, OF Cons.prems(1,2) assms(3) Cons.prems(3)]) (rule assms(5))
  then show ?case using Cons.IH Cons.prems(2) by (simp add: move_thread_tasks)
qed simp

text \<open>
  The tasks run from a state in which each is fine on its own: an invariant of all guarantees holds at every moment, and
  when \<open>join\<close> returns, every task has ended with its postcondition; a task that does not come back has its postcondition too.
\<close>

lemma execute_guarded:
  assumes ks: "distinct ks" "\<And>k. k \<in> set ks \<Longrightarrow> guarded (rely k) (guar k) (post k) (body k) s"
    and J: "J s" "\<And>k s t. k \<in> set ks \<Longrightarrow> guar k s t \<Longrightarrow> J s \<Longrightarrow> J t"
  shows "ensures (execute threads body sched ks) s (\<lambda>r t. J t \<and>
    (r = Ret () \<longrightarrow> (\<forall>k \<in> set ks. \<exists>q. \<not> ended q \<and> post k q t)) \<and>
    (waits (run_threads body sched (new_executor threads ks s)) \<longrightarrow> (\<exists>k \<in> set ks. post k Pending t)))"
proof -
  let ?e = "run_threads body sched (new_executor threads ks s)"
  have "all_guarded post (programs body (new_executor threads ks s)) s"
    using ks(2) by (auto simp: all_guarded_def)
  then have all: "all_guarded post (programs body ?e) (exec_state ?e) \<and> J (exec_state ?e)"
    by (intro threads_guarded [where J = J and ks = ks]) (use ks(1) J in \<open>simp_all add: image_mset.compositionality comp_def\<close>)
  have waiting: "\<exists>k \<in> set ks. post k Pending (exec_state ?e)" if "waits ?e"
  proof -
    from that obtain k where "Some (k, Done Pending) \<in> set (exec_threads ?e)" by (auto simp: waits_def)
    then have k: "(k, Done Pending) \<in># programs body ?e" by (rule programs_thread) simp
    then have "post k Pending (exec_state ?e)"
      using all reflpD [OF rely_refl [of k]] by (force simp: all_guarded_def)
    moreover have "k \<in># image_mset fst (programs body ?e)" using k by force
    ultimately show ?thesis by (auto simp: run_threads_tasks image_mset.compositionality comp_def)
  qed
  have "\<exists>q. \<not> ended q \<and> post k q (exec_state ?e)" if joined: "join_result ?e = Ret ()" and k: "k \<in> set ks" for k
  proof -
    have "k \<in># image_mset fst (programs body ?e)"
      using k by (simp add: run_threads_tasks image_mset.compositionality comp_def)
    then obtain q where q: "(k, q) \<in> set (exec_done ?e)"
      by (auto simp: programs_joined [OF joined])
    then have "(k, Done q) \<in># programs body ?e" by (force simp: programs_joined [OF joined])
    then have "guarded (rely k) (guar k) (post k) (Done q) (exec_state ?e)" using all by (auto simp: all_guarded_def)
    then have "post k q (exec_state ?e)" using reflpD [OF rely_refl [of k]] by simp
    moreover have "\<not> ended q" by (rule run_threads_done [OF _ q]) simp
    ultimately show ?thesis by blast
  qed
  then show ?thesis using all waiting by (simp add: execute_def ensures_def Let_def)
qed

end
text \<open>The weakest rely that fits: any number of steps that others guarantee.\<close>

definition others :: "('k \<Rightarrow> 's \<Rightarrow> 's \<Rightarrow> bool) \<Rightarrow> 'k \<Rightarrow> 's \<Rightarrow> 's \<Rightarrow> bool" where
  "others guar k = (\<lambda>s t. \<exists>j. j \<noteq> k \<and> guar j s t)\<^sup>*\<^sup>*"

lemma interference_others: "interference (others guar) guar"
  by unfold_locales (auto simp: others_def reflp_def transp_def)

lemma others_rely:
  assumes "others guar k s t" "reflp R" "transp R" "\<And>j s t. j \<noteq> k \<Longrightarrow> guar j s t \<Longrightarrow> R s t"
  shows "R s t"
  using assms(1) unfolding others_def
proof (induction rule: rtranclp_induct)
  case base
  show ?case using assms(2) by (rule reflpD)
next
  case (step t u)
  then show ?case using assms(3,4) by (blast dest: transpD)
qed

section \<open>One thread\<close>

text \<open>An exception that leaves a task is logged; one thread runs the tasks one after the other.\<close>

definition logged :: "('s, unit) io \<Rightarrow> ('s, unit) io" where
  "logged m = (\<lambda>s. case m s of (Raise e, t) \<Rightarrow> (Ret (), t) | rt \<Rightarrow> rt)"

primrec one_by_one :: "('k \<Rightarrow> ('s, unit) io) \<Rightarrow> 'k list \<Rightarrow> ('s, unit) io" where
  "one_by_one m [] = io_return ()"
| "one_by_one m (k # ks) = io_bind (logged (m k)) (\<lambda>_. one_by_one m ks)"

definition in_sequence :: "('k \<Rightarrow> ('s, unit) prog) \<Rightarrow> ('s, 'k) executor \<Rightarrow> unit run \<times> 's" where
  "in_sequence body e =
     (if exec_aborted e then (Terminated, exec_state e)
      else case hd (exec_threads e) of
        None \<Rightarrow> one_by_one (\<lambda>k. run_prog (body k)) (exec_queue e) (exec_state e)
      | Some (k, p) \<Rightarrow> io_bind (logged (run_prog p)) (\<lambda>_. one_by_one (\<lambda>k. run_prog (body k)) (exec_queue e)) (exec_state e))"

lemma move_in_sequence:
  assumes "length (exec_threads e) = 1"
  shows "in_sequence body (move_thread body e i) = in_sequence body e"
proof (cases "i = 0 \<and> \<not> exec_aborted e")
  case True
  from assms obtain th where th: "exec_threads e = [th]" by (cases "exec_threads e") auto
  show ?thesis
  proof (cases th)
    case None
    then show ?thesis using True th
      by (cases "exec_queue e") (simp_all add: move_thread_def in_sequence_def)
  next
    case (Some kp)
    obtain k p where kp: "kp = (k, p)" by (cases kp)
    show ?thesis
    proof (cases p)
      case (Done r)
      then show ?thesis using True th Some kp
        by (cases r) (simp_all add: move_thread_def in_sequence_def io_bind_def logged_def)
    next
      case (Step f)
      then show ?thesis using True th Some kp
        by (simp add: move_thread_def in_sequence_def io_bind_def logged_def split: prod.split)
    qed
  qed
next
  case False
  then have "move_thread body e i = e" using assms by (auto simp: move_thread_def)
  then show ?thesis by simp
qed

lemma run_in_sequence:
  "length (exec_threads e) = 1 \<Longrightarrow> in_sequence body (run_threads body sched e) = in_sequence body e"
  by (induction sched arbitrary: e) (simp_all add: move_in_sequence)

lemma joined_in_sequence:
  assumes "length (exec_threads e) = 1" "join_result e \<noteq> Pending"
  shows "in_sequence body e = (join_result e, exec_state e)"
proof -
  from assms obtain th where "exec_threads e = [th]" by (cases "exec_threads e") auto
  then show ?thesis using assms(2)
    by (auto simp: join_result_def in_sequence_def io_return_def split: if_splits)
qed

lemma execute_one_thread:
  assumes "execute 1 body sched tasks s = (r, t)" "r \<noteq> Pending"
  shows "one_by_one (\<lambda>k. run_prog (body k)) tasks s = (r, t)"
proof -
  let ?e = "new_executor 1 tasks s"
  let ?f = "run_threads body sched ?e"
  have rt: "r = join_result ?f" "t = exec_state ?f" using assms(1) by (auto simp: execute_def Let_def)
  have "in_sequence body ?f = (r, t)" using joined_in_sequence [of ?f body] assms(2) rt by simp
  moreover have "in_sequence body ?f = in_sequence body ?e" by (rule run_in_sequence) simp
  moreover have "in_sequence body ?e = one_by_one (\<lambda>k. run_prog (body k)) tasks s" by (simp add: in_sequence_def)
  ultimately show ?thesis by simp
qed

section \<open>The end\<close>

text \<open>What is left to do: each move either does nothing or makes it less.\<close>

definition thread_work :: "('k \<times> ('s, unit) prog) option \<Rightarrow> nat" where
  "thread_work th = (case th of None \<Rightarrow> 0 | Some (k, p) \<Rightarrow> Suc (steps_left p))"

definition exec_work :: "nat \<Rightarrow> ('s, 'k) executor \<Rightarrow> nat" where
  "exec_work n e = (if exec_aborted e then 0
     else (n + 2) * length (exec_queue e) + sum_list (map thread_work (exec_threads e)))"

definition bounded_threads :: "nat \<Rightarrow> ('s, 'k) executor \<Rightarrow> bool" where
  "bounded_threads n e \<longleftrightarrow> (\<forall>th \<in> set (exec_threads e). case th of None \<Rightarrow> True | Some (k, p) \<Rightarrow> within p n)"

lemma sum_list_replace:
  "i < length ws \<Longrightarrow> sum_list (map f (ws[i := w])) + f (ws ! i) = sum_list (map f ws) + f w" for f :: "'a \<Rightarrow> nat"
  by (induction ws arbitrary: i) (auto simp: less_Suc_eq_0_disj split: nat.split)

lemma set_replace: "x \<in> set (ws[i := w]) \<Longrightarrow> x \<in> set ws \<or> x = w"
  using set_update_subset_insert [of ws i w] by blast

lemma move_work:
  assumes bound: "\<forall>k. within (body k) n" "bounded_threads n e"
  shows "bounded_threads n (move_thread body e i) \<and>
    (move_thread body e i = e \<or> exec_work n (move_thread body e i) < exec_work n e)"
proof (cases "exec_aborted e \<or> length (exec_threads e) \<le> i")
  case True
  then show ?thesis using bound(2) by (simp add: move_thread_def)
next
  case False
  then have active: "\<not> exec_aborted e" "i < length (exec_threads e)" by auto
  note replace = sum_list_replace [OF active(2), of thread_work]
  have others: "within p n" if "Some (k, p) \<in> set (exec_threads e)" for k p
    using bound(2) that by (auto simp: bounded_threads_def split: option.splits prod.splits)
  have keep: "bounded_threads n (e\<lparr>exec_threads := (exec_threads e)[i := th]\<rparr>)" if "\<And>k p. th = Some (k, p) \<Longrightarrow> within p n" for th
    using that others by (auto simp: bounded_threads_def dest!: set_replace split: option.split)
  show ?thesis
  proof (cases "exec_threads e ! i")
    case None
    show ?thesis
    proof (cases "exec_queue e")
      case Nil
      then show ?thesis using None active bound(2) by (simp add: move_thread_def)
    next
      case (Cons k ks)
      have "steps_left (body k) \<le> n" using bound(1) by (simp add: steps_left_le)
      then show ?thesis using None active Cons replace [of "Some (k, body k)"] keep [of "Some (k, body k)"] bound(1)
        by (simp add: move_thread_def exec_work_def thread_work_def bounded_threads_def)
    qed
  next
    case (Some kp)
    obtain k p where kp: "kp = (k, p)" by (cases kp)
    have p: "within p n" using others nth_mem [OF active(2)] Some kp by metis
    show ?thesis
    proof (cases p)
      case (Done r)
      have positive: "0 < sum_list (map thread_work (exec_threads e))"
        using replace [of None] Some kp by (simp add: thread_work_def)
      show ?thesis
        using Done active Some kp replace [of None] keep [of None] bound(2) positive
        by (simp add: move_thread_def exec_work_def thread_work_def bounded_threads_def)
    next
      case (Step f)
      obtain q u where f: "f (exec_state e) = (q, u)" by (cases "f (exec_state e)")
      have "within (Step f) n" using p Step by simp
      from steps_left_Step [OF this, of "exec_state e"]
      have q: "within q n" "steps_left q < steps_left (Step f)" by (auto intro: within_mono simp: f)
      then show ?thesis
        using Step active Some kp f replace [of "Some (k, q)"] keep [of "Some (k, q)"]
        by (simp add: move_thread_def exec_work_def thread_work_def bounded_threads_def)
    qed
  qed
qed

text \<open>Where no thread can move, the process has ended, all is done, or a task does not come back.\<close>

lemma stuck_joined:
  assumes "\<And>i. i < length (exec_threads e) \<Longrightarrow> move_thread body e i = e" "exec_threads e \<noteq> []" "\<forall>k. within (body k) n"
    "bounded_threads n e"
  shows "join_result e \<noteq> Pending \<or> waits e"
proof (rule ccontr)
  assume "\<not> (join_result e \<noteq> Pending \<or> waits e)"
  then have active: "\<not> exec_aborted e" "exec_queue e \<noteq> [] \<or> (\<exists>th \<in> set (exec_threads e). th \<noteq> None)" "\<not> waits e"
    by (auto simp: join_result_def split: if_splits)
  have idle: "exec_threads e ! i = None" if i: "i < length (exec_threads e)" for i
  proof (rule ccontr)
    assume "exec_threads e ! i \<noteq> None"
    then obtain k p where kp: "exec_threads e ! i = Some (k, p)" by auto
    then have "Some (k, p) \<in> set (exec_threads e)" using i by (metis nth_mem)
    then have no_wait: "p \<noteq> Done Pending" and p: "within p n"
      using active(3) assms(4) by (auto simp: waits_def bounded_threads_def split: option.splits prod.splits)
    note same = assms(1) [OF i]
    show False
    proof (cases p)
      case (Done r)
      show ?thesis
      proof (cases "r = Terminated")
        case True
        then have "exec_aborted (move_thread body e i)" using i kp Done active(1) by (simp add: move_thread_def)
        then show ?thesis using same active(1) by simp
      next
        case False
        then have "exec_threads (move_thread body e i) ! i = None"
          using i kp Done active(1) no_wait by (simp add: move_thread_def)
        then show ?thesis using same kp by simp
      qed
    next
      case (Step f)
      obtain q u where f: "f (exec_state e) = (q, u)" by (cases "f (exec_state e)")
      have "exec_threads (move_thread body e i) ! i = Some (k, q)"
        using i kp Step active(1) f by (simp add: move_thread_def)
      then have "q = Step f" using same kp Step by simp
      moreover have "steps_left q < steps_left (Step f)"
        using steps_left_Step(2) [of f n "exec_state e"] p Step f by simp
      ultimately show ?thesis by simp
    qed
  qed
  then have all: "\<forall>th \<in> set (exec_threads e). th = None" by (auto simp: in_set_conv_nth)
  with active(2) obtain k ks where "exec_queue e = k # ks" by (cases "exec_queue e") auto
  moreover have zero: "0 < length (exec_threads e)" using assms(2) by simp
  ultimately have "exec_queue (move_thread body e 0) = ks" using active(1) idle [OF zero] by (simp add: move_thread_def)
  with assms(1) [OF zero] \<open>exec_queue e = k # ks\<close> show False by simp
qed

lemma round_work:
  assumes "\<forall>k. within (body k) n" "bounded_threads n e"
  shows "bounded_threads n (run_threads body sched e) \<and>
    ((\<forall>i \<in> set sched. move_thread body e i = e) \<and> run_threads body sched e = e \<or>
     exec_work n (run_threads body sched e) < exec_work n e)"
  using assms(2)
proof (induction sched arbitrary: e)
  case (Cons i sched)
  from move_work [OF assms(1) Cons.prems, where i = i] have move: "bounded_threads n (move_thread body e i)"
    "move_thread body e i = e \<or> exec_work n (move_thread body e i) < exec_work n e" by blast+
  from Cons.IH [OF move(1)] move(2) show ?case by auto
qed simp

text \<open>Every thread gets its turn, over and over.\<close>

definition round_robin :: "nat \<Rightarrow> nat \<Rightarrow> nat list" where
  "round_robin threads rounds = concat (replicate rounds [0..<threads])"

lemma round_robin_joins:
  assumes "\<forall>k. within (body k) n" "bounded_threads n e" "exec_threads e \<noteq> []" "exec_work n e \<le> m"
  shows "join_result (run_threads body (round_robin (length (exec_threads e)) m) e) \<noteq> Pending \<or>
    waits (run_threads body (round_robin (length (exec_threads e)) m) e)"
  using assms(2-4)
proof (induction m arbitrary: e)
  case 0
  have "move_thread body e i = e" for i using move_work [OF assms(1) 0(1), where i = i] 0(3) by simp
  from stuck_joined [OF this 0(2) assms(1) 0(1)] show ?case by (simp add: round_robin_def)
next
  case (Suc m)
  let ?n = "length (exec_threads e)"
  let ?f = "run_threads body [0..<?n] e"
  have split: "run_threads body (round_robin ?n (Suc m)) e = run_threads body (round_robin ?n m) ?f"
    by (simp add: round_robin_def)
  from round_work [OF assms(1) Suc.prems(1), of "[0..<?n]"]
  consider (stuck) "\<forall>i < ?n. move_thread body e i = e" "?f = e" | (less) "exec_work n ?f < exec_work n e" by auto
  then show ?case
  proof cases
    case stuck
    have "run_threads body sched e = e" if "set sched \<subseteq> {..<?n}" for sched
      using that stuck(1) by (induction sched) auto
    moreover have "set (round_robin ?n m) \<subseteq> {..<?n}" by (auto simp: round_robin_def)
    ultimately have "run_threads body (round_robin ?n (Suc m)) e = e" using stuck(2) split by simp
    then show ?thesis using stuck_joined [OF _ Suc.prems(2) assms(1) Suc.prems(1)] stuck(1) by simp
  next
    case less
    have "bounded_threads n ?f" using round_work [OF assms(1) Suc.prems(1)] by blast
    moreover have "exec_threads ?f \<noteq> []" using Suc.prems(2) run_threads_length [of body "[0..<?n]" e] by fastforce
    moreover have "exec_work n ?f \<le> m" using less Suc.prems(3) by simp
    ultimately show ?thesis using Suc.IH [of ?f] split by simp
  qed
qed

lemma execute_round_robin:
  assumes "\<forall>k. within (body k) n" "0 < threads" "(n + 2) * length tasks \<le> m"
  shows "ensures (execute threads body (round_robin threads m) tasks) s (\<lambda>r t. r \<noteq> Pending \<or>
    waits (run_threads body (round_robin threads m) (new_executor threads tasks s)))"
proof -
  let ?e = "new_executor threads tasks s"
  have "exec_work n ?e = (n + 2) * length tasks"
    by (simp add: exec_work_def thread_work_def sum_list_replicate)
  moreover have "bounded_threads n ?e" by (simp add: bounded_threads_def)
  moreover have "exec_threads ?e \<noteq> []" using assms(2) by simp
  ultimately show ?thesis
    using round_robin_joins [OF assms(1), of ?e m] assms(3) by (simp add: execute_def ensures_def Let_def)
qed

section \<open>Runs to evaluate\<close>

text \<open>The next step of a program, and a number of steps that one thread makes in a row.\<close>

definition busy :: "('s, 'a) prog \<Rightarrow> bool" where
  "busy p \<longleftrightarrow> (case p of Done r \<Rightarrow> False | Step f \<Rightarrow> True)"

definition step_of :: "('s, 'a) prog \<Rightarrow> 's \<Rightarrow> ('s, 'a) prog \<times> 's" where
  "step_of p s = (case p of Done r \<Rightarrow> (Done r, s) | Step f \<Rightarrow> f s)"

fun steps_of :: "nat \<Rightarrow> ('s, 'a) prog \<Rightarrow> 's \<Rightarrow> (('s, 'a) prog \<times> 's) option" where
  "steps_of 0 p s = Some (p, s)"
| "steps_of (Suc n) p s = (if busy p then case step_of p s of (q, t) \<Rightarrow> steps_of n q t else None)"

named_theorems step_simps \<open>the next step of a composed program\<close>

lemma busy_rules [step_simps]:
  "busy (call m)" "busy p \<Longrightarrow> busy (prog_bind p k)" "busy p \<Longrightarrow> busy (prog_catch p h)"
  "busy p \<Longrightarrow> busy (prog_finally p c)" "busy p \<Longrightarrow> busy (prog_map f p)" "\<not> busy (Done r)"
  by (auto simp: busy_def call_def split: prog.splits)

lemma step_of_rules [step_simps]:
  "step_of (call m) s = (case m s of (r, t) \<Rightarrow> (Done r, t))"
  "busy p \<Longrightarrow> step_of (prog_bind p k) s = map_prod (\<lambda>p. prog_bind p k) id (step_of p s)"
  "busy p \<Longrightarrow> step_of (prog_catch p h) s = map_prod (\<lambda>p. prog_catch p h) id (step_of p s)"
  "busy p \<Longrightarrow> step_of (prog_finally p c) s = map_prod (\<lambda>p. prog_finally p c) id (step_of p s)"
  "busy p \<Longrightarrow> step_of (prog_map f p) s = map_prod (prog_map f) id (step_of p s)"
  by (auto simp: step_of_def busy_def call_def split: prog.splits)

lemma steps_of_numeral [step_simps]:
  "steps_of (numeral n) p s = (if busy p then case step_of p s of (q, t) \<Rightarrow> steps_of (pred_numeral n) q t else None)"
  "steps_of 1 p s = (if busy p then case step_of p s of (q, t) \<Rightarrow> Some (q, t) else None)"
  by (simp_all add: numeral_eq_Suc split: prod.split)

lemma move_busy:
  assumes "\<not> exec_aborted e" "i < length (exec_threads e)" "exec_threads e ! i = Some (k, p)" "busy p" "step_of p (exec_state e) = (q, t)"
  shows "move_thread body e i = e\<lparr>exec_state := t, exec_threads := (exec_threads e)[i := Some (k, q)]\<rparr>"
  using assms by (cases p) (simp_all add: move_thread_def busy_def step_of_def)

lemma run_steps_of:
  assumes "\<not> exec_aborted e" "i < length (exec_threads e)" "exec_threads e ! i = Some (k, p)" "steps_of n p (exec_state e) = Some (q, t)"
  shows "run_threads body (replicate n i) e = e\<lparr>exec_state := t, exec_threads := (exec_threads e)[i := Some (k, q)]\<rparr>"
  using assms
proof (induction n arbitrary: e p)
  case 0
  then have "(exec_threads e)[i := Some (k, q)] = exec_threads e" by (metis list_update_id option.inject prod.inject steps_of.simps(1))
  then show ?case using 0 by simp
next
  case (Suc n)
  obtain p' u where step: "step_of p (exec_state e) = (p', u)" by (cases "step_of p (exec_state e)")
  have "busy p" and rest: "steps_of n p' u = Some (q, t)" using Suc.prems(4) step by (auto split: if_splits)
  with Suc.prems step have move: "move_thread body e i = e\<lparr>exec_state := u, exec_threads := (exec_threads e)[i := Some (k, p')]\<rparr>"
    by (intro move_busy)
  have "run_threads body (replicate n i) (move_thread body e i) =
      (move_thread body e i)\<lparr>exec_state := t, exec_threads := (exec_threads (move_thread body e i))[i := Some (k, q)]\<rparr>"
    by (rule Suc.IH) (use Suc.prems rest in \<open>simp_all add: move\<close>)
  then show ?case by (simp add: move)
qed

text \<open>The machine in a state, and its moves.\<close>

definition executor_at ::
  "'s \<Rightarrow> 'k list \<Rightarrow> ('k \<times> ('s, unit) prog) option list \<Rightarrow> ('k \<times> unit run) list \<Rightarrow> ('s, 'k) executor" where
  "executor_at s queue ths finished =
     \<lparr>exec_state = s, exec_queue = queue, exec_threads = ths, exec_done = finished, exec_aborted = False\<rparr>"

lemma executor_at_new: "new_executor n ks s = executor_at s ks (replicate n None) []"
  by (simp add: new_executor_def executor_at_def)

lemma run_two_take:
  "run_threads body [0] (executor_at s (k # ks) [None, th] dn) = executor_at s ks [Some (k, body k), th] dn"
  "run_threads body [1] (executor_at s (k # ks) [th, None] dn) = executor_at s ks [th, Some (k, body k)] dn"
  by (simp_all add: executor_at_def move_thread_def)

lemma run_block:
  assumes "i < length ths" "ths ! i = Some (k, p)" "steps_of n p s = Some (q, t)"
  shows "run_threads body (replicate n i) (executor_at s ks ths dn) = executor_at t ks (ths[i := Some (k, q)]) dn"
  using run_steps_of [of "executor_at s ks ths dn" i k p n q t body] assms by (simp add: executor_at_def)

lemma run_two_block:
  "steps_of n p s = Some (q, t) \<Longrightarrow>
     run_threads body (replicate n 0) (executor_at s ks [Some (k, p), th] dn) = executor_at t ks [Some (k, q), th] dn"
  "steps_of n p s = Some (q, t) \<Longrightarrow>
     run_threads body (replicate n 1) (executor_at s ks [th, Some (k, p)] dn) = executor_at t ks [th, Some (k, q)] dn"
  using run_block [of 0 "[Some (k, p), th]"] run_block [of 1 "[th, Some (k, p)]"] by simp_all

lemma run_two_finish:
  "run_threads body [0] (executor_at s ks [Some (k, Done (Ret ())), th] dn) = executor_at s ks [None, th] ((k, Ret ()) # dn)"
  "run_threads body [1] (executor_at s ks [th, Some (k, Done (Ret ()))] dn) = executor_at s ks [th, None] ((k, Ret ()) # dn)"
  by (simp_all add: executor_at_def move_thread_def)

lemma run_one:
  "run_threads body [0] (executor_at s (k # ks) [None] dn) = executor_at s ks [Some (k, body k)] dn"
  "steps_of n p s = Some (q, t) \<Longrightarrow>
     run_threads body (replicate n 0) (executor_at s ks [Some (k, p)] dn) = executor_at t ks [Some (k, q)] dn"
  "run_threads body [0] (executor_at s ks [Some (k, Done (Ret ()))] dn) = executor_at s ks [None] ((k, Ret ()) # dn)"
  using run_block [of 0 "[Some (k, p)]"] by (simp_all add: executor_at_def move_thread_def)

text \<open>Two threads.\<close>

lemmas run_two = run_two_take run_two_block run_two_finish

lemma joined_at: "(\<forall>th \<in> set ths. th = None) \<Longrightarrow> join_result (executor_at s [] ths dn) = Ret ()"
  by (simp add: join_result_def executor_at_def)

end
