(* ===== verification/Cxtpl_Threads.thy ===== *)
theory Cxtpl_Threads
  imports Cxtpl_Tool Cxtpl_Executor
begin

text \<open>
  The tasks of \<open>run_generation\<close> (\<open>tool/src/main_native.cpp\<close>) when other threads interrupt them. The functions a task
  runs are written once more as sequences of steps: one step for each call that reads or changes what the threads share,
  the current directory and the files. What a call does to a descriptor or a random number of its own is
  part of one step (an open file is read to its end, the temporary file is written and closed), and the engine sees
  the included files in one state. Run without interruption they are the functions of \<open>Cxtpl_Tool_Files\<close>
  and \<open>Cxtpl_Tool\<close>.
\<close>

section \<open>The steps of a task\<close>

definition read_relative_steps :: "'s os \<Rightarrow> string \<Rightarrow> string \<Rightarrow> ('s, string) prog" where
  "read_relative_steps os srcdir in_path =
     prog_bind (call (absolute_path os srcdir)) (\<lambda>dir.
     prog_bind (call (os_set_current_path os dir)) (\<lambda>_.
     prog_bind (call (absolute_path os in_path)) (\<lambda>in_abs_path.
       call (io_bind (folly_File os in_abs_path) (read_opened os)))))"

definition readFile_steps :: "'s os \<Rightarrow> string \<Rightarrow> string \<Rightarrow> ('s, string) prog" where
  "readFile_steps os srcdir in_path =
     prog_bind
       (prog_catch
          (prog_bind (call (os_current_path os)) (\<lambda>prevPath.
             prog_finally (read_relative_steps os srcdir in_path) (call (os_set_current_path os prevPath))))
          (Done Terminated))
       (\<lambda>buf. if buf = [] then Done (Ret []) else Done (Ret buf))"

definition replace_through_steps :: "'s os \<Rightarrow> string \<Rightarrow> string \<Rightarrow> string \<Rightarrow> ('s, bool) prog" where
  "replace_through_steps os contents filePath tempFilePath =
     prog_bind (call (os_create_directories os (parent_path filePath))) (\<lambda>_.
     prog_bind (call (writeStringToFile os contents tempFilePath)) (\<lambda>ok.
       if \<not> ok then Done (Ret False)
       else prog_bind (call (os_rename os tempFilePath filePath)) (\<lambda>_. Done (Ret True))))"

definition atomicallyWrite_steps :: "'s os \<Rightarrow> string \<Rightarrow> string \<Rightarrow> ('s, bool) prog" where
  "atomicallyWrite_steps os contents absFilename =
     (if parent_path absFilename = [] then Done (Ret False)
      else prog_catch
        (prog_bind (call (randomString os 10 10 random_range)) (\<lambda>rnd.
           prog_finally
             (prog_catch (replace_through_steps os contents absFilename (temporary_path absFilename rnd)) (Done (Ret False)))
             (call (remove_temporary os (temporary_path absFilename rnd)))))
        (Done (Ret False)))"

definition write_relative_steps :: "'s os \<Rightarrow> string \<Rightarrow> string \<Rightarrow> string \<Rightarrow> ('s, unit) prog" where
  "write_relative_steps os resdir code out_path =
     prog_bind (call (absolute_path os resdir)) (\<lambda>dir.
     prog_bind (call (os_set_current_path os dir)) (\<lambda>_.
     prog_bind (call (absolute_path os out_path)) (\<lambda>out_abs_path.
     prog_bind (atomicallyWrite_steps os code out_abs_path) (\<lambda>ok.
       if \<not> ok then Done Terminated else Done (Ret ())))))"

definition write_result_steps :: "'s os \<Rightarrow> string \<Rightarrow> string \<Rightarrow> string \<Rightarrow> ('s, unit) prog" where
  "write_result_steps os resdir code out_path =
     prog_catch
       (prog_bind (call (os_current_path os)) (\<lambda>prevPath.
          prog_finally (write_relative_steps os resdir code out_path) (call (os_set_current_path os prevPath))))
       (Done Terminated)"

definition processTemplate_steps :: "'s tool \<Rightarrow> config \<Rightarrow> string \<Rightarrow> string \<Rightarrow> ('s, unit) prog" where
  "processTemplate_steps tool g in_path out_path =
     prog_bind (readFile_steps (tool_os tool) (srcdir_abs_path g) in_path) (\<lambda>file_contents.
     prog_bind (call (template_result tool file_contents)) (\<lambda>genResult.
       case genResult of
         Inl err \<Rightarrow> Done Terminated
       | Inr code \<Rightarrow>
           if code = [] then Done (Ret ())
           else if custom_generator g then
             (if cling_is_on tool then call (run_in_cling tool code out_path) else Done Terminated)
           else write_result_steps (tool_os tool) (resdir_abs_path g) code out_path))"

text \<open>The task of \<open>run_generation\<close>, which its thread takes from the queue after a time \<open>waited\<close>.\<close>

definition task_steps :: "'s tool \<Rightarrow> config \<Rightarrow> (task \<Rightarrow> int) \<Rightarrow> task \<Rightarrow> ('s, unit) prog" where
  "task_steps tool g waited t =
     (if 0 < task_expiration t \<and> task_expiration t \<le> waited t then Done Terminated
      else processTemplate_steps tool g (task_in t) (task_out t))"

section \<open>Without interruption\<close>

lemma run_read_relative [run_steps]: "run_prog (read_relative_steps os srcdir p) = read_relative os srcdir p"
  by (simp add: read_relative_steps_def read_relative_def run_steps)

lemma run_readFile [run_steps]: "run_prog (readFile_steps os srcdir p) = readFile os srcdir p"
  by (simp add: readFile_steps_def readFile_def run_steps io_terminate_def io_run_def io_return_def if_distrib cong: if_cong)

lemma run_replace_through [run_steps]: "run_prog (replace_through_steps os code p tmp) = replace_through os code p tmp"
  by (simp add: replace_through_steps_def replace_through_def run_steps io_run_def io_return_def if_distrib cong: if_cong)

lemma run_atomicallyWrite [run_steps]: "run_prog (atomicallyWrite_steps os code p) = atomicallyWriteFileToDisk os code p"
  by (simp add: atomicallyWrite_steps_def atomicallyWriteFileToDisk_def run_steps io_run_def io_return_def if_distrib cong: if_cong)

lemma run_write_relative [run_steps]: "run_prog (write_relative_steps os resdir code p) = write_relative os resdir code p"
  by (simp add: write_relative_steps_def write_relative_def run_steps io_run_def io_return_def io_terminate_def if_distrib cong: if_cong)

lemma run_write_result [run_steps]: "run_prog (write_result_steps os resdir code p) = write_result os resdir code p"
  by (simp add: write_result_steps_def write_result_def run_steps io_run_def io_terminate_def)

lemma run_processTemplate [run_steps]: "run_prog (processTemplate_steps tool g i p) = processTemplate tool g i p"
proof -
  have run_case: "run_prog (case x of Inl e \<Rightarrow> a | Inr c \<Rightarrow> b c) = (case x of Inl e \<Rightarrow> run_prog a | Inr c \<Rightarrow> run_prog (b c))" for x a b
    by (simp split: sum.split)
  show ?thesis
    unfolding processTemplate_steps_def processTemplate_def run_prog_bind run_case run_prog_if run_steps io_return_def io_terminate_def io_run_def ..
qed

lemma run_task_steps: "logged (run_prog (task_steps tool g waited t)) = run_task tool g (waited t) t"
  by (auto simp: task_steps_def run_task_def logged_def run_steps io_run_def io_terminate_def fun_eq_iff split: prod.split run.split)

lemma one_by_one_tasks: "one_by_one (\<lambda>t. run_prog (task_steps tool g waited t)) ts = run_tasks tool g waited ts"
  by (induction ts) (simp_all add: run_task_steps)

text \<open>A task has at most 17 steps.\<close>

lemma within_readFile: "within (readFile_steps os srcdir p) 6"
proof -
  have "within (readFile_steps os srcdir p) ((1 + ((1 + (1 + (1 + 1))) + 1)) + 0 + 0)"
    unfolding readFile_steps_def read_relative_steps_def by (intro within_rules)
  then show ?thesis by (simp add: eval_nat_numeral)
qed

lemma within_atomicallyWrite: "within (atomicallyWrite_steps os code p) 5"
proof -
  have "within (atomicallyWrite_steps os code p) ((1 + ((1 + (1 + (1 + 0)) + 0) + 1)) + 0)"
    unfolding atomicallyWrite_steps_def replace_through_steps_def by (intro within_rules)
  then show ?thesis by (simp add: eval_nat_numeral)
qed

lemma within_write_result: "within (write_result_steps os resdir code p) 10"
proof -
  have "within (write_result_steps os resdir code p) ((1 + ((1 + (1 + (1 + (5 + 0)))) + 1)) + 0)"
    unfolding write_result_steps_def write_relative_steps_def by (intro within_rules within_atomicallyWrite)
  then show ?thesis by (simp add: eval_nat_numeral)
qed

lemma within_task: "within (task_steps tool g waited t) 17"
proof -
  have one: "within (call m) 10" for m :: "('s, 'b) io" using within_call by (rule within_mono) simp
  have result: "within (case x of Inl err \<Rightarrow> Done Terminated | Inr code \<Rightarrow>
           if code = [] then Done (Ret ())
           else if custom_generator g then (if cling_is_on tool then call (run_in_cling tool code q) else Done Terminated)
           else write_result_steps (tool_os tool) (resdir_abs_path g) code q) 10" for x q
    by (cases x) (simp_all only: sum.case within_done, intro within_if within_done one within_write_result)
  have "within (processTemplate_steps tool g i p) (6 + (1 + 10))" for i p
    unfolding processTemplate_steps_def by (intro within_bind within_readFile within_call result)
  then show ?thesis by (simp add: task_steps_def)
qed

section \<open>A task among others\<close>

text \<open>
  The contract of a task with the output name \<open>out\<close>. \<open>I\<close> is the invariant of the run. The others (\<open>R\<close>) keep it and leave
  the output and the temporary files of the task alone, in whichever directory of \<open>W\<close> they are; of itself the task may say \<open>G\<close>
  when it only changes the current directory within \<open>W\<close>, writes one of its temporary files, or puts one of
  \<open>codes\<close> into its output.
\<close>

definition task_contract ::
  "('s \<Rightarrow> string \<Rightarrow> string option) \<Rightarrow> ('s \<Rightarrow> string) \<Rightarrow> string set \<Rightarrow> string \<Rightarrow> string set \<Rightarrow>
   ('s \<Rightarrow> bool) \<Rightarrow> ('s \<Rightarrow> 's \<Rightarrow> bool) \<Rightarrow> ('s \<Rightarrow> 's \<Rightarrow> bool) \<Rightarrow> bool" where
  "task_contract content cwd W out codes I R G \<longleftrightarrow>
     reflp R \<and> (\<forall>s t. R s t \<longrightarrow> I s \<longrightarrow> I t) \<and>
     (\<forall>s t d q. R s t \<longrightarrow> d \<in> W \<longrightarrow> q = in_dir d out \<or> is_temporary (in_dir d out) q \<longrightarrow> content t q = content s q) \<and>
     (\<forall>s. I s \<longrightarrow> cwd s \<in> W) \<and>
     (\<forall>s t. I s \<longrightarrow> content t = content s \<longrightarrow> cwd t \<in> W \<longrightarrow> G s t \<and> I t) \<and>
     (\<forall>s t d tmp c. I s \<longrightarrow> d \<in> W \<longrightarrow> is_temporary (in_dir d out) tmp \<longrightarrow> content t = (content s)(tmp := c) \<longrightarrow>
        cwd t = cwd s \<longrightarrow> G s t \<and> I t) \<and>
     (\<forall>s t d tmp code. I s \<longrightarrow> d \<in> W \<longrightarrow> is_temporary (in_dir d out) tmp \<longrightarrow> code \<in> codes \<longrightarrow>
        content t = (content s)(tmp := None, in_dir d out \<mapsto> code) \<longrightarrow> cwd t = cwd s \<longrightarrow> G s t \<and> I t)"

lemma task_contractD:
  assumes "task_contract content cwd W out codes I R G"
  shows "reflp R" "R s t \<Longrightarrow> I s \<Longrightarrow> I t" "I s \<Longrightarrow> cwd s \<in> W"
    and "R s t \<Longrightarrow> d \<in> W \<Longrightarrow> q = in_dir d out \<or> is_temporary (in_dir d out) q \<Longrightarrow> content t q = content s q"
    and "I s \<Longrightarrow> content t = content s \<Longrightarrow> cwd t \<in> W \<Longrightarrow> G s t \<and> I t"
    and "I s \<Longrightarrow> d \<in> W \<Longrightarrow> is_temporary (in_dir d out) tmp \<Longrightarrow> content t = (content s)(tmp := c) \<Longrightarrow> cwd t = cwd s \<Longrightarrow> G s t \<and> I t"
    and "I s \<Longrightarrow> d \<in> W \<Longrightarrow> is_temporary (in_dir d out) tmp \<Longrightarrow> code \<in> codes \<Longrightarrow>
      content t = (content s)(tmp := None, in_dir d out \<mapsto> code) \<Longrightarrow> cwd t = cwd s \<Longrightarrow> G s t \<and> I t"
proof -
  note c = assms [unfolded task_contract_def]
  note tail = c [THEN conjunct2, THEN conjunct2, THEN conjunct2]
  note writes = tail [THEN conjunct2, THEN conjunct2]
  show "reflp R" by (rule c [THEN conjunct1])
  show "I t" if "R s t" "I s" using c [THEN conjunct2, THEN conjunct1] that by blast
  show "content t q = content s q" if "R s t" "d \<in> W" "q = in_dir d out \<or> is_temporary (in_dir d out) q"
    using c [THEN conjunct2, THEN conjunct2, THEN conjunct1] that by blast
  show "cwd s \<in> W" if "I s" using tail [THEN conjunct1] that by blast
  show "G s t \<and> I t" if "I s" "content t = content s" "cwd t \<in> W" using tail [THEN conjunct2, THEN conjunct1] that by blast
  show "G s t \<and> I t" if "I s" "d \<in> W" "is_temporary (in_dir d out) tmp" "content t = (content s)(tmp := c)" "cwd t = cwd s"
    using writes [THEN conjunct1] that by blast
  show "G s t \<and> I t" if "I s" "d \<in> W" "is_temporary (in_dir d out) tmp" "code \<in> codes"
      "content t = (content s)(tmp := None, in_dir d out \<mapsto> code)" "cwd t = cwd s"
    using writes [THEN conjunct2] that by blast
qed

lemma stable_file:
  assumes C: "task_contract content cwd W out codes I R G"
    and q: "d \<in> W" "q = in_dir d out \<or> is_temporary (in_dir d out) q"
  shows "stable_under R (\<lambda>s. I s \<and> (b \<longrightarrow> content s q = c))"
  unfolding stable_under_def using task_contractD(2) [OF C] task_contractD(4) [OF C _ q] by metis

lemma stable_I: "task_contract content cwd W out codes I R G \<Longrightarrow> stable_under R I"
  unfolding stable_under_def using task_contractD(2) by metis

text \<open>A call that changes no file; what is known of the files of the task stays known.\<close>

lemma quiet_call:
  assumes C: "task_contract content cwd W out codes I R G"
    and F: "stable_under R (\<lambda>s. I s \<and> F s)" "\<And>s t. content t = content s \<Longrightarrow> F s \<Longrightarrow> F t"
    and m: "\<And>s. I s \<Longrightarrow> ensures m s (\<lambda>r t. content t = content s \<and> cwd t \<in> W \<and> ends (\<lambda>_. True) E (\<lambda>x _. x \<in> X) r t)"
  shows "rg R G (\<lambda>s. I s \<and> F s) (call m) (ends I E (\<lambda>x s. x \<in> X \<and> F s))"
proof (rule rg_call)
  show "stable_under R (\<lambda>s. I s \<and> F s)" "stable_under R I" by (rule F, rule stable_I [OF C])
  show "stable_under R (\<lambda>s. I s \<and> x \<in> X \<and> F s)" for x using F(1) unfolding stable_under_def by metis
  fix s
  assume s: "I s \<and> F s"
  then have "I s" by simp
  from m [OF this] show "ensures m s (\<lambda>r t. G s t \<and> ends I E (\<lambda>x s. x \<in> X \<and> F s) r t)"
  proof (rule ensures_mono, elim conjE)
    fix r t
    assume t: "content t = content s" "cwd t \<in> W" "ends (\<lambda>_. True) E (\<lambda>x _. x \<in> X) r t"
    have "G s t \<and> I t" using task_contractD(5) [OF C _ t(1,2)] s by blast
    moreover have "F t" using F(2) [OF t(1)] s by blast
    ultimately show "G s t \<and> ends I E (\<lambda>x s. x \<in> X \<and> F s) r t" using t(3) by (cases r) simp_all
  qed
qed

lemma quiet_call_I:
  assumes C: "task_contract content cwd W out codes I R G"
    and m: "\<And>s. I s \<Longrightarrow> ensures m s (\<lambda>r t. content t = content s \<and> cwd t \<in> W \<and> ends (\<lambda>_. True) E (\<lambda>x _. x \<in> X) r t)"
  shows "rg R G I (call m) (ends I E (\<lambda>x _. x \<in> X))"
proof -
  have "stable_under R (\<lambda>s. I s \<and> True)" using stable_I [OF C] by simp
  from quiet_call [OF C this _ m] show ?thesis by simp
qed

lemma rg_when:
  assumes "stable_under R I" "b \<Longrightarrow> rg R G (\<lambda>s. I s \<and> F s) p Q"
  shows "rg R G (\<lambda>s. I s \<and> b \<and> F s) p Q"
proof (cases b)
  case True
  then show ?thesis using assms(2) by simp
qed (simp add: rg_def)

lemma rg_when_I: "stable_under R I \<Longrightarrow> (b \<Longrightarrow> rg R G I p Q) \<Longrightarrow> rg R G (\<lambda>s. I s \<and> b) p Q"
  by (cases b) (simp_all add: rg_def)

text \<open>The output has the code, in one of the directories.\<close>

definition output_written :: "('s \<Rightarrow> string \<Rightarrow> string option) \<Rightarrow> string set \<Rightarrow> string \<Rightarrow> string \<Rightarrow> 's \<Rightarrow> bool" where
  "output_written content W out code s \<longleftrightarrow> (\<exists>d \<in> W. content s (in_dir d out) = Some code)"

lemma stable_output:
  assumes C: "task_contract content cwd W out codes I R G"
  shows "stable_under R (\<lambda>s. I s \<and> output_written content W out code s)"
  unfolding stable_under_def output_written_def using task_contractD(2,4) [OF C] by metis

context posix
begin

lemma chdir_rg:
  assumes C: "task_contract content cwd W out codes I R G" and d: "d \<in> W" "is_absolute d" and E: "Raise System_error \<in> E"
    and F: "stable_under R (\<lambda>s. I s \<and> F s)" "\<And>s t. content t = content s \<Longrightarrow> F s \<Longrightarrow> F t"
  shows "rg R G (\<lambda>s. I s \<and> F s) (call (os_set_current_path os d)) (ends I E (\<lambda>_ s. F s))"
proof (rule rg_conseq)
  show "rg R G (\<lambda>s. I s \<and> F s) (call (os_set_current_path os d)) (ends I E (\<lambda>x s. x \<in> UNIV \<and> F s))"
  proof (rule quiet_call [OF C F(1)])
    show "F t" if "content t = content s" "F s" for s t using that by (rule F(2))
    show "ensures (os_set_current_path os d) s (\<lambda>r t. content t = content s \<and> cwd t \<in> W \<and>
        ends (\<lambda>_. True) E (\<lambda>x _. x \<in> UNIV) r t)" if "I s" for s
      by (rule ensures_mono [OF set_current_path_law [OF d(2)]]) (use d(1) E task_contractD(3) [OF C that] in auto)
  qed
qed (auto elim: ends_mono)

lemma chdir_rg_I:
  assumes C: "task_contract content cwd W out codes I R G" and d: "d \<in> W" "is_absolute d" and E: "Raise System_error \<in> E"
  shows "rg R G I (call (os_set_current_path os d)) (ends I E (\<lambda>_ _. True))"
  using chdir_rg [OF C d E, of "\<lambda>_. True"] stable_I [OF C] by simp

lemma current_rg:
  assumes C: "task_contract content cwd W out codes I R G" and E: "Raise System_error \<in> E"
  shows "rg R G I (call (os_current_path os)) (ends I E (\<lambda>x _. x \<in> W))"
  by (rule quiet_call_I [OF C], rule ensures_mono [OF current_path_law]) (use E task_contractD(3) [OF C] in auto)

lemma absolute_fixed_rg:
  assumes C: "task_contract content cwd W out codes I R G" and d: "is_absolute d"
  shows "rg R G I (call (absolute_path os d)) (ends I E (\<lambda>x _. x \<in> {d}))"
  by (rule quiet_call_I [OF C]) (use d task_contractD(3) [OF C] in \<open>simp add: absolute_path_def ensures_simps\<close>)

lemma absolute_rg:
  assumes C: "task_contract content cwd W out codes I R G" and E: "Raise System_error \<in> E"
  shows "rg R G I (call (absolute_path os p)) (ends I E (\<lambda>x _. x \<in> (\<lambda>d. in_dir d p) ` W))"
proof (rule quiet_call_I [OF C], rule ensures_mono [OF absolute_path_law], elim conjE)
  fix s r t
  assume "I s" "content t = content s" "cwd t = cwd s"
    "r = Raise System_error \<or> r = Ret (if is_absolute p then p else path_join (cwd s) p)"
  moreover have "in_dir (cwd s) p \<in> (\<lambda>d. in_dir d p) ` W" by (rule imageI) (rule task_contractD(3) [OF C \<open>I s\<close>])
  ultimately show "content t = content s \<and> cwd t \<in> W \<and> ends (\<lambda>_. True) E (\<lambda>x _. x \<in> (\<lambda>d. in_dir d p) ` W) r t"
    using E task_contractD(3) [OF C \<open>I s\<close>] unfolding in_dir_def by fastforce
qed

lemma open_read_rg:
  assumes C: "task_contract content cwd W out codes I R G" and E: "Raise System_error \<in> E" "Terminated \<in> E"
  shows "rg R G I (call (io_bind (folly_File os p) (read_opened os))) (ends I E (\<lambda>x _. x \<in> {c. \<exists>v. I v \<and> content v p = Some c}))"
proof (rule quiet_call_I [OF C])
  fix s
  assume s: "I s"
  define Q where "Q = (\<lambda>r t. content t = content s \<and> cwd t \<in> W \<and> ends (\<lambda>_. True) E (\<lambda>x _. x \<in> {c. \<exists>v. I v \<and> content v p = Some c}) r t)"
  have read: "ensures (read_opened os fd) u Q" if "content u = content s" "cwd u = cwd s" "content s p = Some (unread u fd)" for u fd
    unfolding read_opened_def Q_def ensures_simps
    by (rule ensures_mono [OF read_all_law])
      (use that s E task_contractD(3) [OF C s] in \<open>auto intro!: ensures_mono [OF close_law] exI [of _ s]\<close>)
  have "ensures (io_bind (folly_File os p) (read_opened os)) s Q"
    unfolding ensures_bind by (rule ensures_mono [OF file_law])
      (use s E task_contractD(3) [OF C] read in \<open>auto simp: Q_def\<close>)
  then show "ensures (io_bind (folly_File os p) (read_opened os)) s (\<lambda>r t. content t = content s \<and> cwd t \<in> W \<and>
      ends (\<lambda>_. True) E (\<lambda>x _. x \<in> {c. \<exists>v. I v \<and> content v p = Some c}) r t)"
    unfolding Q_def .
qed

lemma readFile_rg:
  assumes C: "task_contract content cwd W out codes I R G" and E: "Terminated \<in> E"
    and W: "srcdir \<in> W" "\<And>d. d \<in> W \<Longrightarrow> is_absolute d"
  shows "rg R G I (readFile_steps os srcdir p) (ends I E (\<lambda>x _. x \<in> {c. \<exists>d \<in> W. \<exists>v. I v \<and> content v (in_dir d p) = Some c}))"
proof -
  let ?E = "insert (Raise System_error) E" and ?X = "{c. \<exists>d \<in> W. \<exists>v. I v \<and> content v (in_dir d p) = Some c}"
  note refl = task_contractD(1) [OF C] and cond = rg_when_I [OF stable_I [OF C]]
  have E': "Raise System_error \<in> ?E" "Terminated \<in> ?E" using E by auto
  have opened: "rg R G I (call (io_bind (folly_File os q) (read_opened os))) (ends I ?E (\<lambda>x _. x \<in> ?X))"
    if "q \<in> (\<lambda>d. in_dir d p) ` W" for q
    by (rule rg_conseq [OF open_read_rg [OF C E']]) (use that in \<open>auto elim!: ends_mono\<close>)
  have relative: "rg R G I (read_relative_steps os srcdir p) (ends I ?E (\<lambda>x _. x \<in> ?X))"
    unfolding read_relative_steps_def
  proof (rule rg_bind [OF absolute_fixed_rg [OF C W(2) [OF W(1)]] cond refl], goal_cases)
    case (1 dir)
    show ?case
      by (rule rg_bind [OF _ _ refl], use 1 in simp, rule chdir_rg_I [OF C W(1) W(2) [OF W(1)] E'(1)], rule cond)
        (rule rg_bind [OF absolute_rg [OF C E'(1)] cond refl], rule opened)
  qed
  have cleanup: "rg R G I (prog_finally (read_relative_steps os srcdir p) (call (os_set_current_path os d))) (ends I ?E (\<lambda>x _. x \<in> ?X))"
    if d: "d \<in> W" for d
    by (rule rg_finally_set [OF relative chdir_rg_I [OF C d W(2) [OF d]] E'(2) refl]) simp
  have "rg R G I (prog_catch (prog_bind (call (os_current_path os)) (\<lambda>prevPath.
      prog_finally (read_relative_steps os srcdir p) (call (os_set_current_path os prevPath)))) (Done Terminated))
      (ends I E (\<lambda>x _. x \<in> ?X))"
    by (rule rg_catch [OF rg_bind [OF current_rg [OF C E'(1)] cond refl] rg_done [OF stable_I [OF C]] refl])
      (use cleanup E in auto)
  then show ?thesis unfolding readFile_steps_def
  proof (rule rg_bind [OF _ cond refl])
    fix buf
    assume buf: "buf \<in> ?X"
    have "rg R G I (Done (Ret buf)) (ends I E (\<lambda>x _. x \<in> ?X))" by (rule rg_done [OF stable_I [OF C]]) (use buf in simp)
    then show "rg R G I (if buf = [] then Done (Ret []) else Done (Ret buf)) (ends I E (\<lambda>x _. x \<in> ?X))"
      by (cases "buf = []") (simp_all only: if_True if_False simp_thms)
  qed
qed

text \<open>The write: the output gets the whole code with one step, the rename.\<close>

lemma write_temporary_rg:
  assumes C: "task_contract content cwd W out codes I R G" and d: "d \<in> W" "is_temporary (in_dir d out) tmp"
  shows "rg R G I (call (writeStringToFile os code tmp)) (ends I E (\<lambda>ok s. ok \<longrightarrow> content s tmp = Some code))"
proof (rule rg_call)
  show "stable_under R I" "stable_under R I" by (rule stable_I [OF C])+
  show "stable_under R (\<lambda>s. I s \<and> (ok \<longrightarrow> content s tmp = Some code))" for ok
    using stable_file [OF C d(1)] d(2) by blast
  fix s
  assume s: "I s"
  note writes = task_contractD(6) [OF C s d]
  have same: "G s t \<and> I t" if "content t = content s" "cwd t = cwd s" for t
    using task_contractD(5) [OF C s that(1)] task_contractD(3) [OF C s] that(2) by simp
  show "ensures (writeStringToFile os code tmp) s (\<lambda>r t. G s t \<and> ends I E (\<lambda>ok s. ok \<longrightarrow> content s tmp = Some code) r t)"
    unfolding writeStringToFile_def
    by (rule ensures_mono [OF writeToFile_law [where old = "[]"]]) (use writes same in auto)
qed

lemma rename_rg:
  assumes C: "task_contract content cwd W out codes I R G"
    and d: "d \<in> W" "is_temporary (in_dir d out) tmp" "p = in_dir d out" and code: "code \<in> codes" and E: "Raise System_error \<in> E"
  shows "rg R G (\<lambda>s. I s \<and> content s tmp = Some code) (call (os_rename os tmp p)) (ends I E (\<lambda>_ s. content s p = Some code))"
proof (rule rg_call)
  show "stable_under R I" by (rule stable_I [OF C])
  show "stable_under R (\<lambda>s. I s \<and> content s tmp = Some code)" "stable_under R (\<lambda>s. I s \<and> content s p = Some code)"
    using stable_file [OF C d(1), of tmp True] stable_file [OF C d(1), of p True] d(2,3) by auto
  fix s
  assume s: "I s \<and> content s tmp = Some code"
  have "G s t \<and> I t" if "content t = (content s)(tmp := None, p \<mapsto> code)" "cwd t = cwd s" for t
    using task_contractD(7) [OF C _ d(1,2) code] s that d(3) by blast
  moreover have "G s t \<and> I t" if "content t = content s" "cwd t = cwd s" for t
    using task_contractD(5) [OF C _ that(1)] task_contractD(3) [OF C, of s] s that(2) by simp
  ultimately show "ensures (os_rename os tmp p) s (\<lambda>r t. G s t \<and> ends I E (\<lambda>_ s. content s p = Some code) r t)"
    by (intro ensures_mono [OF rename_law]) (use s E in auto)
qed

lemma remove_rg:
  assumes C: "task_contract content cwd W out codes I R G" and d: "d \<in> W" "is_temporary (in_dir d out) tmp" "p = in_dir d out"
  shows "rg R G (\<lambda>s. I s \<and> (b \<longrightarrow> content s p = Some code)) (call (remove_temporary os tmp)) (ends I E (\<lambda>_ s. b \<longrightarrow> content s p = Some code))"
proof (rule rg_call)
  show "stable_under R I" by (rule stable_I [OF C])
  show "stable_under R (\<lambda>s. I s \<and> (b \<longrightarrow> content s p = Some code))" "stable_under R (\<lambda>s. I s \<and> (b \<longrightarrow> content s p = Some code))"
    using stable_file [OF C d(1), of p] d(3) by blast+
  have other: "tmp \<noteq> p" using not_own_temporary d(2,3) by blast
  fix s
  assume s: "I s \<and> (b \<longrightarrow> content s p = Some code)"
  have "G s t \<and> I t" if "content t = (content s)(tmp := None)" "cwd t = cwd s" for t
    using task_contractD(6) [OF C _ d(1,2) that] s by blast
  moreover have "G s t \<and> I t" if "content t = content s" "cwd t = cwd s" for t
    using task_contractD(5) [OF C _ that(1)] task_contractD(3) [OF C, of s] s that(2) by simp
  ultimately show "ensures (remove_temporary os tmp) s (\<lambda>r t. G s t \<and> ends I E (\<lambda>_ s. b \<longrightarrow> content s p = Some code) r t)"
    by (intro ensures_mono [OF remove_temporary_law]) (use s other in auto)
qed

lemma atomicallyWrite_rg:
  assumes C: "task_contract content cwd W out codes I R G"
    and d: "d \<in> W" "p = in_dir d out" and code: "code \<in> codes" and E: "Terminated \<in> E"
  shows "rg R G I (atomicallyWrite_steps os code p) (ends I E (\<lambda>ok s. ok \<longrightarrow> content s p = Some code))"
proof (cases "parent_path p = []")
  case True
  then show ?thesis by (auto simp: atomicallyWrite_steps_def intro!: rg_done stable_I [OF C])
next
  case False
  let ?E = "insert (Raise System_error) E" and ?N = "\<lambda>ok s. ok \<longrightarrow> content s p = Some code"
  note refl = task_contractD(1) [OF C] and cond = rg_when_I [OF stable_I [OF C]]
  have fails: "rg R G I (Done (Ret False)) (ends I F ?N)" for F by (rule rg_done [OF stable_I [OF C]]) simp
  have E': "Raise System_error \<in> ?E" "Terminated \<in> ?E" using E by simp_all
  have renamed: "rg R G (\<lambda>s. I s \<and> content s p = Some code) (Done (Ret True)) (ends I ?E ?N)"
    by (rule rg_done) (use stable_file [OF C d(1), of p True] d(2) in auto)
  have written: "rg R G (\<lambda>s. I s \<and> content s tmp = Some code) (prog_bind (call (os_rename os tmp p)) (\<lambda>_. Done (Ret True)))
      (ends I ?E ?N)" if tmp: "is_temporary (in_dir d out) tmp" for tmp
    by (rule rg_bind [OF rename_rg [OF C d(1) tmp d(2) code E'(1)] renamed refl])
  have replace: "rg R G I (replace_through_steps os code p tmp) (ends I ?E ?N)" if tmp: "is_temporary (in_dir d out) tmp" for tmp
    unfolding replace_through_steps_def
  proof (rule rg_bind [OF _ _ refl])
    show "rg R G I (call (os_create_directories os (parent_path p))) (ends I ?E (\<lambda>x _. x \<in> UNIV))"
      by (rule quiet_call_I [OF C], rule ensures_mono [OF create_directories_law]) (use task_contractD(3) [OF C] in auto)
    show "rg R G (\<lambda>s. I s \<and> x \<in> UNIV) (prog_bind (call (writeStringToFile os code tmp)) (\<lambda>ok. if \<not> ok then Done (Ret False)
        else prog_bind (call (os_rename os tmp p)) (\<lambda>_. Done (Ret True)))) (ends I ?E ?N)" for x
    proof (rule cond, rule rg_bind [OF write_temporary_rg [OF C d(1) tmp] _ refl])
      show "rg R G (\<lambda>s. I s \<and> (ok \<longrightarrow> content s tmp = Some code)) (if \<not> ok then Done (Ret False)
          else prog_bind (call (os_rename os tmp p)) (\<lambda>_. Done (Ret True))) (ends I ?E ?N)" for ok
        using fails written [OF tmp] by (cases ok) simp_all
    qed
  qed
  have guarded: "rg R G I (prog_finally (prog_catch (replace_through_steps os code p tmp) (Done (Ret False)))
      (call (remove_temporary os tmp))) (ends I ?E ?N)" if tmp: "is_temporary (in_dir d out) tmp" for tmp
  proof -
    have caught: "rg R G I (prog_catch (replace_through_steps os code p tmp) (Done (Ret False))) (ends I ?E ?N)"
      by (rule rg_catch [OF _ fails refl]) (use replace [OF tmp] in simp)
    have "rg R G I (call (remove_temporary os tmp)) (ends I {Raise System_error, Terminated} (\<lambda>_ _. True))"
      using remove_rg [OF C d(1) tmp d(2), where b = False] by simp
    then show ?thesis by (rule rg_finally [OF caught remove_rg [OF C d(1) tmp d(2)] _ E'(2) refl])
  qed
  let ?R = "{rnd. length rnd = 10 \<and> set rnd \<subseteq> set random_range}"
  have "random_range \<noteq> []" by (simp add: random_range_def)
  then have random: "rg R G I (call (randomString os 10 10 random_range)) (ends I ?E (\<lambda>x _. x \<in> ?R))"
    by (intro quiet_call_I [OF C] ensures_mono [OF randomString_law]) (use task_contractD(3) [OF C] in auto)
  have tmp: "is_temporary (in_dir d out) (temporary_path p rnd)" if "rnd \<in> ?R" for rnd
    using that d(2) unfolding is_temporary_def by auto
  show ?thesis
    unfolding atomicallyWrite_steps_def if_not_P [OF False]
    by (rule rg_catch [OF rg_bind [OF random cond [OF guarded [OF tmp]] refl] fails refl])
qed

lemma write_result_rg:
  assumes C: "task_contract content cwd W out codes I R G" and E: "Terminated \<in> E" and code: "code \<in> codes"
    and W: "resdir \<in> W" "\<And>d. d \<in> W \<Longrightarrow> is_absolute d"
  shows "rg R G I (write_result_steps os resdir code out) (ends I E (\<lambda>_. output_written content W out code))"
proof -
  let ?E = "insert (Raise System_error) E" and ?N = "\<lambda>(_ :: unit). output_written content W out code"
  note refl = task_contractD(1) [OF C] and cond = rg_when_I [OF stable_I [OF C]]
  have E': "Raise System_error \<in> ?E" "Terminated \<in> ?E" using E by auto
  have stored: "rg R G I (prog_bind (atomicallyWrite_steps os code q) (\<lambda>ok. if \<not> ok then Done Terminated else Done (Ret ()))) (ends I ?E ?N)"
    if "q \<in> (\<lambda>d. in_dir d out) ` W" for q
  proof -
    from that obtain d where d: "d \<in> W" "q = in_dir d out" by blast
    have final: "rg R G (\<lambda>s. I s \<and> (ok \<longrightarrow> content s q = Some code)) (if \<not> ok then Done Terminated else Done (Ret ())) (ends I ?E ?N)" for ok
    proof (cases ok)
      case True
      have "rg R G (\<lambda>s. I s \<and> (ok \<longrightarrow> content s q = Some code)) (Done (Ret ())) (ends I ?E ?N)"
        by (rule rg_done, use stable_file [OF C d(1), of q] d(2) in blast) (use True d in \<open>auto simp: output_written_def\<close>)
      then show ?thesis using True by simp
    next
      case False
      have "rg R G I (Done Terminated) (ends I ?E ?N)" by (rule rg_done [OF stable_I [OF C]]) (use E in simp)
      then show ?thesis using False by simp
    qed
    show ?thesis by (rule rg_bind [OF atomicallyWrite_rg [OF C d code E'(2)] final refl])
  qed
  have relative: "rg R G I (write_relative_steps os resdir code out) (ends I ?E ?N)"
    unfolding write_relative_steps_def
  proof (rule rg_bind [OF absolute_fixed_rg [OF C W(2) [OF W(1)]] cond refl], goal_cases)
    case (1 dir)
    show ?case
      by (rule rg_bind [OF _ _ refl], use 1 in simp, rule chdir_rg_I [OF C W(1) W(2) [OF W(1)] E'(1)], rule cond)
        (rule rg_bind [OF absolute_rg [OF C E'(1)] cond refl], rule stored)
  qed
  have restore: "rg R G (\<lambda>s. I s \<and> ?N x s) (call (os_set_current_path os d)) (ends I {Raise System_error, Terminated} (\<lambda>_. ?N x))"
    if "d \<in> W" for d x
    by (rule chdir_rg [OF C that W(2) [OF that] _ stable_output [OF C]]) (auto simp: output_written_def)
  have cleanup: "rg R G I (prog_finally (write_relative_steps os resdir code out) (call (os_set_current_path os d))) (ends I ?E ?N)"
    if d: "d \<in> W" for d
    by (rule rg_finally [OF relative restore [OF d] chdir_rg_I [OF C d W(2) [OF d]] E'(2) refl]) simp
  have "rg R G I (Done Terminated) (ends I E ?N)" by (rule rg_done [OF stable_I [OF C]]) (use E in simp)
  then show ?thesis unfolding write_result_steps_def
    by (intro rg_catch [OF rg_bind [OF current_rg [OF C E'(1)] cond [OF cleanup] refl] _ refl])
qed

lemma template_result_rg:
  assumes C: "task_contract content cwd W out codes I R G"
    and E: "Terminated \<in> E" "\<And>u. I u \<Longrightarrow> fst (template_result tool src u) = Pending \<Longrightarrow> Pending \<in> E"
  shows "rg R G I (call (template_result tool src)) (ends I E (\<lambda>x _. x \<in> {x. \<exists>u. I u \<and> fst (template_result tool src u) = Ret x}))"
proof (rule quiet_call_I [OF C], rule ensures_mono [OF template_result_cases], elim conjE)
  fix s r t
  assume s: "I s" and t: "t = s" "r = fst (template_result tool src s)" "\<forall>e. r \<noteq> Raise e"
  show "content t = content s \<and> cwd t \<in> W \<and>
      ends (\<lambda>_. True) E (\<lambda>x _. x \<in> {x. \<exists>u. I u \<and> fst (template_result tool src u) = Ret x}) r t"
  proof (cases r)
    case (Ret x)
    then have "fst (template_result tool src s) = Ret x" using t(2) by simp
    then show ?thesis using Ret t(1) task_contractD(3) [OF C s] s by auto
  next
    case Pending
    then have "Pending \<in> E" using t(2) E(2) [OF s] by metis
    then show ?thesis using Pending t(1) task_contractD(3) [OF C s] by simp
  qed (use t(1,3) E(1) task_contractD(3) [OF C s] in simp_all)
qed

lemma processTemplate_rg:
  assumes C: "task_contract content cwd W out codes I R G"
    and tool: "tool_os tool = os" "\<not> custom_generator g"
    and W: "srcdir_abs_path g \<in> W" "resdir_abs_path g \<in> W" "\<And>d. d \<in> W \<Longrightarrow> is_absolute d"
    and E: "Terminated \<in> E" "\<And>d v u src. d \<in> W \<Longrightarrow> I v \<Longrightarrow> I u \<Longrightarrow> content v (in_dir d i) = Some src \<Longrightarrow>
      fst (template_result tool src u) = Pending \<Longrightarrow> Pending \<in> E"
    and codes: "codes = {code. \<exists>d \<in> W. \<exists>v u src. I v \<and> I u \<and> content v (in_dir d i) = Some src \<and>
      fst (template_result tool src u) = success code}"
  shows "rg R G I (processTemplate_steps tool g i out) (ends I E (\<lambda>_ s. \<exists>code \<in> codes. code = [] \<or> output_written content W out code s))"
proof -
  let ?N = "\<lambda>(_ :: unit) s. \<exists>code \<in> codes. code = [] \<or> output_written content W out code s"
  note refl = task_contractD(1) [OF C] and cond = rg_when_I [OF stable_I [OF C]]
  have result: "rg R G I (case x of
         Inl err \<Rightarrow> Done Terminated
       | Inr code \<Rightarrow>
           if code = [] then Done (Ret ())
           else if custom_generator g then (if cling_is_on tool then call (run_in_cling tool code out) else Done Terminated)
           else write_result_steps os (resdir_abs_path g) code out) (ends I E ?N)"
    if x: "\<And>code. x = Inr code \<Longrightarrow> code \<in> codes" for x
  proof (cases x)
    case (Inl err)
    then show ?thesis using E(1) by (auto intro!: rg_done stable_I [OF C])
  next
    case (Inr code)
    then have code: "code \<in> codes" by (rule x)
    have empty: "rg R G I (Done (Ret ())) (ends I E ?N)" if "code = []"
      by (rule rg_done [OF stable_I [OF C]]) (use that code in auto)
    have "rg R G I (write_result_steps os (resdir_abs_path g) code out) (ends I E ?N)"
      by (rule rg_conseq [OF write_result_rg [OF C E(1) code W(2,3)]]) (use code in \<open>auto elim!: ends_mono\<close>)
    then show ?thesis using empty Inr tool(2) by (cases "code = []") simp_all
  qed
  have translated: "rg R G I (prog_bind (call (template_result tool src)) (\<lambda>genResult. case genResult of
         Inl err \<Rightarrow> Done Terminated
       | Inr code \<Rightarrow>
           if code = [] then Done (Ret ())
           else if custom_generator g then (if cling_is_on tool then call (run_in_cling tool code out) else Done Terminated)
           else write_result_steps os (resdir_abs_path g) code out)) (ends I E ?N)"
    if "src \<in> {c. \<exists>d \<in> W. \<exists>v. I v \<and> content v (in_dir d i) = Some c}" for src
    by (rule rg_bind [OF template_result_rg [OF C E(1)] cond [OF result] refl]) (use that E(2) in \<open>auto simp: codes\<close>)
  show ?thesis
    unfolding processTemplate_steps_def tool(1)
    by (rule rg_bind [OF readFile_rg [OF C E(1) W(1,3)] cond [OF translated] refl])
qed

end

end
