(* ===== verification/Cxtpl_Generation.thy ===== *)
theory Cxtpl_Generation
  imports Cxtpl_Threads
begin

text \<open>
  \<open>run_generation\<close> (\<open>tool/src/main_native.cpp\<close>): the tasks on the threads of the executor. With one thread it is the
  sequence of its tasks; with several, the tasks meet the contract of \<open>interference\<close> when their files are
  separate, so what each does alone holds for all of them in every interleaving.
\<close>

section \<open>The run\<close>

text \<open>
  The tasks are added and \<open>join\<close> waits for them. When the loop that adds them ends early, those already added may have
  run for a while. That a thread may only see a task once it is added is a schedule in which it moves later.
\<close>

definition run_generation :: "'s tool \<Rightarrow> config \<Rightarrow> (task \<Rightarrow> int) \<Rightarrow> nat list \<Rightarrow> ('s, unit) io" where
  "run_generation tool g waited sched =
     (case make_tasks (tool_build tool) g 0 (in_args g) of
        (tasks, r) \<Rightarrow> \<lambda>s. case execute (threads_arg g) (task_steps tool g waited) sched tasks s of
          (j, t) \<Rightarrow> (if r = Ret () then j else if j = Terminated then Terminated else r, t))"

section \<open>One thread\<close>

text \<open>A run on one thread that comes to its end is the sequence of its tasks.\<close>

lemma run_generation_alone:
  assumes "threads_arg g = 1" "snd (make_tasks (tool_build tool) g 0 (in_args g)) = Ret ()"
    and "run_generation tool g waited sched s = (r, t)" "r \<noteq> Pending"
  shows "run_tasks tool g waited (fst (make_tasks (tool_build tool) g 0 (in_args g))) s = (r, t)"
proof -
  have "execute 1 (task_steps tool g waited) sched (fst (make_tasks (tool_build tool) g 0 (in_args g))) s = (r, t)"
    using assms(1-3) by (auto simp: run_generation_def split: prod.splits)
  from execute_one_thread [OF this assms(4)] show ?thesis by (simp add: one_by_one_tasks)
qed

section \<open>Several threads\<close>

definition task_codes ::
  "'s tool \<Rightarrow> ('s \<Rightarrow> string \<Rightarrow> string option) \<Rightarrow> ('s \<Rightarrow> string) \<Rightarrow> scope \<Rightarrow> 's \<Rightarrow> task \<Rightarrow> string set" where
  "task_codes tool content cwd sc s k =
     {code. \<exists>d \<in> scope_ins sc. translation tool content cwd sc s (in_dir d (task_in k)) code}"

text \<open>The engine does not come back on the template of a task.\<close>

definition endless ::
  "'s tool \<Rightarrow> ('s \<Rightarrow> string \<Rightarrow> string option) \<Rightarrow> ('s \<Rightarrow> string) \<Rightarrow> scope \<Rightarrow> 's \<Rightarrow> task \<Rightarrow> bool" where
  "endless tool content cwd sc s k \<longleftrightarrow> (\<exists>d \<in> scope_ins sc. \<exists>v u src. moment content cwd sc s v \<and> moment content cwd sc s u \<and>
     content v (in_dir d (task_in k)) = Some src \<and> fst (template_result tool src u) = Pending)"

text \<open>What a task does to the files, and what it needs of the others.\<close>

definition task_guar ::
  "'s tool \<Rightarrow> ('s \<Rightarrow> string \<Rightarrow> string option) \<Rightarrow> ('s \<Rightarrow> string) \<Rightarrow> scope \<Rightarrow> 's \<Rightarrow> task list \<Rightarrow> task \<Rightarrow> 's \<Rightarrow> 's \<Rightarrow> bool" where
  "task_guar tool content cwd sc s0 ts k s t \<longleftrightarrow> k \<in> set ts \<and>
     (moment content cwd sc s0 s \<longrightarrow> moment content cwd sc s0 t) \<and>
     (\<forall>q. \<not> owned sc (task_out k) q \<longrightarrow> content t q = content s q) \<and>
     (\<forall>q. (\<forall>d \<in> scope_outs sc. \<not> is_temporary (in_dir d (task_out k)) q) \<longrightarrow> content t q = content s q \<or>
        (\<exists>d \<in> scope_outs sc. q = in_dir d (task_out k) \<and> content t q \<in> Some ` task_codes tool content cwd sc s0 k))"

definition task_rely :: "('s \<Rightarrow> string \<Rightarrow> string option) \<Rightarrow> ('s \<Rightarrow> string) \<Rightarrow> scope \<Rightarrow> 's \<Rightarrow> task \<Rightarrow> 's \<Rightarrow> 's \<Rightarrow> bool" where
  "task_rely content cwd sc s0 k s t \<longleftrightarrow> (moment content cwd sc s0 s \<longrightarrow> moment content cwd sc s0 t) \<and>
     (\<forall>q. owned sc (task_out k) q \<longrightarrow> content t q = content s q)"

interpretation tool_tasks: interference "others (task_guar tool content cwd sc s ts)" "task_guar tool content cwd sc s ts"
  for tool :: "'s tool" and content :: "'s \<Rightarrow> string \<Rightarrow> string option" and cwd :: "'s \<Rightarrow> string" and sc s ts
  by (rule interference_others)

lemma others_task_rely:
  assumes others: "others (task_guar tool content cwd sc s0 ts) k s t" and k: "k \<in> set ts"
    and names: "inj_on task_out (set ts)" "task_out ` set ts \<subseteq> set (scope_names sc)" and sep: "separate sc"
  shows "task_rely content cwd sc s0 k s t"
  using others
proof (rule others_rely)
  show "reflp (task_rely content cwd sc s0 k)" "transp (task_rely content cwd sc s0 k)"
    by (auto simp: task_rely_def reflp_def transp_def)
  fix j s t
  assume j: "j \<noteq> k" "task_guar tool content cwd sc s0 ts j s t"
  then have "j \<in> set ts" by (simp add: task_guar_def)
  then have "task_out j \<noteq> task_out k" "task_out j \<in> set (scope_names sc)" "task_out k \<in> set (scope_names sc)"
    using names k j(1) by (auto dest: inj_onD)
  then have "\<not> owned sc (task_out j) q" if "owned sc (task_out k) q" for q
    using sep that unfolding separate_def by blast
  then show "task_rely content cwd sc s0 k s t"
    using j(2) unfolding task_guar_def task_rely_def by blast
qed

lemma task_contract_guar:
  assumes k: "k \<in> set ts" "task_out k \<in> set (scope_names sc)" and sc: "scope_cwds sc = scope_outs sc"
  shows "task_contract content cwd (scope_outs sc) (task_out k) (task_codes tool content cwd sc s0 k)
    (moment content cwd sc s0) (task_rely content cwd sc s0 k) (task_guar tool content cwd sc s0 ts k)"
proof -
  let ?I = "moment content cwd sc s0" and ?R = "task_rely content cwd sc s0 k" and ?G = "task_guar tool content cwd sc s0 ts k"
  have own: "owned sc (task_out k) q" if "d \<in> scope_outs sc" "q = in_dir d (task_out k) \<or> is_temporary (in_dir d (task_out k)) q" for d q
    using that by (auto simp: owned_def)
  have kept: "?I t" if "?I s" "\<And>q. \<not> owned sc (task_out k) q \<Longrightarrow> content t q = content s q" "cwd t \<in> scope_cwds sc" for s t
    using that k(2) unfolding moment_def by metis
  have step: "?G s t \<and> ?I t" if "?I s" "\<And>q. \<not> owned sc (task_out k) q \<Longrightarrow> content t q = content s q" "cwd t \<in> scope_cwds sc"
      "\<And>q. (\<forall>d \<in> scope_outs sc. \<not> is_temporary (in_dir d (task_out k)) q) \<Longrightarrow> content t q = content s q \<or>
        (\<exists>d \<in> scope_outs sc. q = in_dir d (task_out k) \<and> content t q \<in> Some ` task_codes tool content cwd sc s0 k)" for s t
    using that kept [OF that(1-3)] k(1) unfolding task_guar_def by blast
  show ?thesis
    unfolding task_contract_def
  proof (intro conjI allI impI)
    show "reflp ?R" by (auto simp: task_rely_def reflp_def)
    show "?I t" if "?R s t" "?I s" for s t using that by (simp add: task_rely_def)
    show "content t q = content s q" if "?R s t" "d \<in> scope_outs sc"
        "q = in_dir d (task_out k) \<or> is_temporary (in_dir d (task_out k)) q" for s t d q
      using that own by (auto simp: task_rely_def)
    show "cwd s \<in> scope_outs sc" if "?I s" for s using that sc by (simp add: moment_def)
  next
    fix s t
    assume "?I s" "content t = content s" "cwd t \<in> scope_outs sc"
    then have "?G s t \<and> ?I t" using sc by (intro step) auto
    then show "?G s t" "?I t" by blast+
  next
    fix s t d tmp c
    assume s: "?I s" "d \<in> scope_outs sc" "is_temporary (in_dir d (task_out k)) tmp" "content t = (content s)(tmp := c)" "cwd t = cwd s"
    then have "owned sc (task_out k) tmp" "cwd t \<in> scope_cwds sc" using own by (auto simp: moment_def)
    then have "?G s t \<and> ?I t" using s(2-4) by (intro step [OF s(1)]) auto
    then show "?G s t" "?I t" by blast+
  next
    fix s t d tmp code
    assume s: "?I s" "d \<in> scope_outs sc" "is_temporary (in_dir d (task_out k)) tmp" "code \<in> task_codes tool content cwd sc s0 k"
      "content t = (content s)(tmp := None, in_dir d (task_out k) \<mapsto> code)" "cwd t = cwd s"
    then have "owned sc (task_out k) tmp" "owned sc (task_out k) (in_dir d (task_out k))" "cwd t \<in> scope_cwds sc"
      using own by (auto simp: moment_def)
    then have "?G s t \<and> ?I t" using s(2-5) by (intro step [OF s(1)]) auto
    then show "?G s t" "?I t" by blast+
  qed
qed

text \<open>Every file is as it was, or an output with the whole code of its template; every output is there at the end.\<close>

definition untorn ::
  "'s tool \<Rightarrow> ('s \<Rightarrow> string \<Rightarrow> string option) \<Rightarrow> ('s \<Rightarrow> string) \<Rightarrow> scope \<Rightarrow> 's \<Rightarrow> task list \<Rightarrow> 's \<Rightarrow> bool" where
  "untorn tool content cwd sc s ts t \<longleftrightarrow>
     (\<forall>q. (\<forall>k \<in> set ts. \<forall>d \<in> scope_outs sc. \<not> is_temporary (in_dir d (task_out k)) q) \<longrightarrow> content t q = content s q \<or>
        (\<exists>k \<in> set ts. \<exists>d \<in> scope_outs sc. q = in_dir d (task_out k) \<and> content t q \<in> Some ` task_codes tool content cwd sc s k))"

definition translated ::
  "'s tool \<Rightarrow> ('s \<Rightarrow> string \<Rightarrow> string option) \<Rightarrow> ('s \<Rightarrow> string) \<Rightarrow> scope \<Rightarrow> 's \<Rightarrow> task \<Rightarrow> 's \<Rightarrow> bool" where
  "translated tool content cwd sc s k t \<longleftrightarrow> (\<exists>code \<in> task_codes tool content cwd sc s k.
     code = [] \<or> (\<exists>d \<in> scope_outs sc. content t (in_dir d (task_out k)) = Some code))"

lemma untorn_guar:
  assumes "task_guar tool content cwd sc s0 ts k s t" "untorn tool content cwd sc s0 ts s"
  shows "untorn tool content cwd sc s0 ts t"
  unfolding untorn_def
proof (intro allI impI)
  fix q
  assume q: "\<forall>k \<in> set ts. \<forall>d \<in> scope_outs sc. \<not> is_temporary (in_dir d (task_out k)) q"
  then have s: "content s q = content s0 q \<or> (\<exists>k \<in> set ts. \<exists>d \<in> scope_outs sc. q = in_dir d (task_out k) \<and>
      content s q \<in> Some ` task_codes tool content cwd sc s0 k)"
    using assms(2) unfolding untorn_def by blast
  have "content t q = content s q \<or> (\<exists>d \<in> scope_outs sc. q = in_dir d (task_out k) \<and>
      content t q \<in> Some ` task_codes tool content cwd sc s0 k)" and "k \<in> set ts"
    using assms(1) q unfolding task_guar_def by blast+
  then show "content t q = content s0 q \<or> (\<exists>k \<in> set ts. \<exists>d \<in> scope_outs sc. q = in_dir d (task_out k) \<and>
      content t q \<in> Some ` task_codes tool content cwd sc s0 k)"
    using s by metis
qed

context posix
begin

lemma task_guarded:
  assumes tool: "tool_os tool = os" "\<not> custom_generator g"
    and abs: "is_absolute (srcdir_abs_path g)" "is_absolute (resdir_abs_path g)" "is_absolute (cwd s)"
    and E: "Terminated \<in> E" "endless tool content cwd (shared_scope g (cwd s)) s k \<Longrightarrow> Pending \<in> E"
    and sep: "separate (shared_scope g (cwd s))"
    and k: "k \<in> set ts" "inj_on task_out (set ts)" "task_out ` set ts \<subseteq> set (out_args g)"
  defines "sc \<equiv> shared_scope g (cwd s)"
  shows "guarded (others (task_guar tool content cwd sc s ts) k) (task_guar tool content cwd sc s ts k)
    (ends (moment content cwd sc s) E (\<lambda>_. translated tool content cwd sc s k)) (task_steps tool g waited k) s"
proof -
  let ?I = "moment content cwd sc s" and ?N = "\<lambda>(_ :: unit). translated tool content cwd sc s k"
  let ?R = "task_rely content cwd sc s k" and ?G = "task_guar tool content cwd sc s ts k"
  have names: "task_out k \<in> set (scope_names sc)" using k by (auto simp: sc_def)
  have C: "task_contract content cwd (scope_outs sc) (task_out k) (task_codes tool content cwd sc s k) ?I ?R ?G"
    by (rule task_contract_guar [OF k(1) names]) (simp add: sc_def)
  have W: "srcdir_abs_path g \<in> scope_outs sc" "resdir_abs_path g \<in> scope_outs sc" "\<And>d. d \<in> scope_outs sc \<Longrightarrow> is_absolute d"
    using abs by (auto simp: sc_def)
  have codes: "task_codes tool content cwd sc s k = {code. \<exists>d \<in> scope_outs sc. \<exists>v u src. ?I v \<and> ?I u \<and>
      content v (in_dir d (task_in k)) = Some src \<and> fst (template_result tool src u) = success code}"
    by (auto simp: task_codes_def translation_def sc_def)
  have N: "translated tool content cwd sc s k = (\<lambda>u. \<exists>code \<in> task_codes tool content cwd sc s k. code = [] \<or>
      output_written content (scope_outs sc) (task_out k) code u)"
    by (auto simp: translated_def output_written_def fun_eq_iff)
  have "rg ?R ?G ?I (processTemplate_steps tool g (task_in k) (task_out k)) (ends ?I E ?N)"
    unfolding N by (rule processTemplate_rg [OF C tool W E(1) _ codes])
      (assumption, rule E(2), auto simp: endless_def sc_def)
  moreover have "rg ?R ?G ?I (Done Terminated) (ends ?I E ?N)"
    by (rule rg_done [OF stable_I [OF C]]) (use E(1) in simp)
  ultimately have "rg ?R ?G ?I (task_steps tool g waited k) (ends ?I E ?N)"
    by (simp add: task_steps_def)
  moreover have "?I s" by (simp add: moment_def sc_def)
  ultimately have "guarded ?R ?G (ends ?I E ?N) (task_steps tool g waited k) s" by (simp add: rg_def)
  then show ?thesis
  proof (rule guarded_weaken)
    show "?R t u" if "others (task_guar tool content cwd sc s ts) k t u" for t u
      unfolding sc_def by (rule others_task_rely [OF that [unfolded sc_def] k(1,2) _ sep]) (use k(3) in simp)
  qed
qed

lemma execute_tasks_law:
  assumes tool: "tool_os tool = os" "\<not> custom_generator g"
    and abs: "is_absolute (srcdir_abs_path g)" "is_absolute (resdir_abs_path g)" "is_absolute (cwd s)"
    and sep: "separate (shared_scope g (cwd s))"
    and ts: "distinct (map task_out ts)" "task_out ` set ts \<subseteq> set (out_args g)"
  defines "sc \<equiv> shared_scope g (cwd s)"
  shows "ensures (execute threads (task_steps tool g waited) sched ts) s (\<lambda>r t. untorn tool content cwd sc s ts t \<and> moment content cwd sc s t \<and>
    (r = Ret () \<longrightarrow> (\<forall>k \<in> set ts. translated tool content cwd sc s k t)) \<and>
    (waits (run_threads (task_steps tool g waited) sched (new_executor threads ts s)) \<longrightarrow>
       (\<exists>k \<in> set ts. endless tool content cwd sc s k)))"
proof -
  define E :: "unit run set" where "E = {r. r = Terminated \<or> r = Pending \<and> (\<exists>k \<in> set ts. endless tool content cwd sc s k)}"
  have inj: "inj_on task_out (set ts)" "distinct ts" using ts(1) by (auto simp: distinct_map)
  have E: "Terminated \<in> E" "\<And>k. k \<in> set ts \<Longrightarrow> endless tool content cwd (shared_scope g (cwd s)) s k \<Longrightarrow> Pending \<in> E"
    by (auto simp: E_def sc_def)
  have "ensures (execute threads (task_steps tool g waited) sched ts) s (\<lambda>r t. (untorn tool content cwd sc s ts t \<and> moment content cwd sc s t) \<and>
    (r = Ret () \<longrightarrow> (\<forall>k \<in> set ts. \<exists>q :: unit run. \<not> ended q \<and> ends (moment content cwd sc s) E (\<lambda>_. translated tool content cwd sc s k) q t)) \<and>
    (waits (run_threads (task_steps tool g waited) sched (new_executor threads ts s)) \<longrightarrow>
       (\<exists>k \<in> set ts. ends (moment content cwd sc s) E (\<lambda>_. translated tool content cwd sc s k) (Pending :: unit run) t)))"
  proof (rule tool_tasks.execute_guarded [where J = "\<lambda>t. untorn tool content cwd sc s ts t \<and> moment content cwd sc s t" and tool = tool and content = content
      and cwd = cwd and sc = sc and s = s and ts = ts
      and post = "\<lambda>k. ends (moment content cwd sc s) E (\<lambda>_. translated tool content cwd sc s k)"])
    show "guarded (others (task_guar tool content cwd sc s ts) k) (task_guar tool content cwd sc s ts k)
        (ends (moment content cwd sc s) E (\<lambda>_. translated tool content cwd sc s k)) (task_steps tool g waited k) s" if "k \<in> set ts" for k
      unfolding sc_def by (rule task_guarded [OF tool abs E(1) E(2) [OF that] sep that inj(1) ts(2)])
    show "untorn tool content cwd sc s ts u \<and> moment content cwd sc s u"
      if "task_guar tool content cwd sc s ts k t u" "untorn tool content cwd sc s ts t \<and> moment content cwd sc s t" for k t u
      using untorn_guar [OF that(1)] that by (simp add: task_guar_def)
  qed (fact, simp add: untorn_def moment_def sc_def)
  moreover have "translated tool content cwd sc s k t"
    if "\<not> ended q" "ends (moment content cwd sc s) E (\<lambda>_. translated tool content cwd sc s k) q t" for k t and q :: "unit run"
    using that by (cases q) (auto simp: E_def ended_def)
  moreover have "\<exists>k \<in> set ts. endless tool content cwd sc s k"
    if "ends (moment content cwd sc s) E (\<lambda>_. translated tool content cwd sc s k) (Pending :: unit run) t" for k t
    using that by (simp add: E_def)
  ultimately show ?thesis by (elim ensures_mono) blast
qed

end

text \<open>The tasks of a configuration.\<close>

lemma tasks_facts:
  assumes "length (in_args g) = length (out_args g)" "n \<le> length (in_args g)"
  shows "set (map (task_of g) [0..<n]) = task_of g ` {..<n}" "task_out ` set (map (task_of g) [0..<n]) \<subseteq> set (out_args g)"
    and "distinct (out_args g) \<Longrightarrow> distinct (map task_out (map (task_of g) [0..<n]))"
proof -
  show "set (map (task_of g) [0..<n]) = task_of g ` {..<n}" by (simp add: atLeast0LessThan)
  show "task_out ` set (map (task_of g) [0..<n]) \<subseteq> set (out_args g)" using assms by auto
  have "map task_out (map (task_of g) [0..<n]) = take n (out_args g)"
    using assms by (intro nth_equalityI) simp_all
  then show "distinct (map task_out (map (task_of g) [0..<n]))" if "distinct (out_args g)" using that by simp
qed

lemma task_out_in_scope: "i < length (out_args g) \<Longrightarrow> task_out (task_of g i) \<in> set (out_args g)"
  by simp

lemma ensures_run_generation:
  assumes "make_tasks (tool_build tool) g 0 (in_args g) = (tasks, q)"
  shows "ensures (run_generation tool g waited sched) s Q \<longleftrightarrow>
    ensures (execute (threads_arg g) (task_steps tool g waited) sched tasks) s
      (\<lambda>j t. Q (if q = Ret () then j else if j = Terminated then Terminated else q) t)"
  using assms by (simp add: run_generation_def ensures_def split: prod.split)

lemma make_tasks_returns: "snd (make_tasks cfg g i ins) \<noteq> Pending"
proof (induction ins arbitrary: i)
  case (Cons p ps)
  have "make_task cfg g i p \<noteq> Pending" by (simp add: make_task_def DCHECK_def CHECK_def vec_at_def)
  moreover have "run_bind (DCHECK cfg a) (\<lambda>_. DCHECK cfg b) \<noteq> Pending" for a b by (simp add: DCHECK_def CHECK_def)
  ultimately show ?case using Cons.IH by (auto split: run.split)
qed simp

lemma make_tasks_no_exception: "i + length ins \<le> length (out_args g) \<Longrightarrow> snd (make_tasks cfg g i ins) \<noteq> Raise e"
proof (induction ins arbitrary: i)
  case (Cons p ps)
  have "make_task cfg g i p \<noteq> Raise e" for e using Cons.prems by (simp add: make_task_def DCHECK_def CHECK_def vec_at_def)
  moreover have "run_bind (DCHECK cfg a) (\<lambda>_. DCHECK cfg b) \<noteq> Raise e" for a b e by (simp add: DCHECK_def CHECK_def)
  moreover have "snd (make_tasks cfg g (Suc i) ps) \<noteq> Raise e" using Cons by simp
  ultimately show ?case by (auto split: run.split)
qed simp

lemma run_generation_no_exception:
  assumes "length (in_args g) = length (out_args g)"
  shows "fst (run_generation tool g waited sched s) \<noteq> Raise e"
  using make_tasks_no_exception [of 0 "in_args g" g "tool_build tool" e] assms
  by (auto simp: run_generation_def execute_def join_result_def Let_def split: prod.split)

lemma separate_outputs:
  assumes "separate (alone_scope g c)"
  shows "distinct (map (in_dir (resdir_abs_path g)) (out_args g))"
    and "p \<in> set (out_args g) \<Longrightarrow> p' \<in> set (out_args g) \<Longrightarrow> \<not> is_temporary (in_dir (resdir_abs_path g) p) (in_dir (resdir_abs_path g) p')"
proof -
  have own: "owned (alone_scope g c) p (in_dir (resdir_abs_path g) p)" for p by (simp add: owned_alone)
  have apart: "\<not> (owned (alone_scope g c) p q \<and> owned (alone_scope g c) p' q)"
    if "p \<in> set (out_args g)" "p' \<in> set (out_args g)" "p \<noteq> p'" for p p' q
    using assms that unfolding separate_def by simp
  have "inj_on (in_dir (resdir_abs_path g)) (set (out_args g))"
    by (rule inj_onI) (metis own apart)
  then show "distinct (map (in_dir (resdir_abs_path g)) (out_args g))"
    using assms by (simp add: distinct_map separate_def)
  show "\<not> is_temporary (in_dir (resdir_abs_path g) p) (in_dir (resdir_abs_path g) p')"
    if "p \<in> set (out_args g)" "p' \<in> set (out_args g)"
  proof (cases "p = p'")
    case True
    then show ?thesis by (simp add: not_own_temporary)
  next
    case False
    then show ?thesis using apart [OF that False] own by (auto simp: owned_alone)
  qed
qed

context posix
begin

text \<open>Any number of threads, at any moment.\<close>

lemma run_generation_untorn:
  assumes tool: "tool_os tool = os" "\<not> custom_generator g"
    and abs: "is_absolute (srcdir_abs_path g)" "is_absolute (resdir_abs_path g)" "is_absolute (cwd s)"
    and sep: "separate (shared_scope g (cwd s))" and len: "length (in_args g) = length (out_args g)"
  shows "ensures (run_generation tool g waited sched) s (\<lambda>r t. \<forall>q.
    (\<forall>p \<in> set (out_args g). \<forall>d \<in> scope_outs (shared_scope g (cwd s)). \<not> is_temporary (in_dir d p) q) \<longrightarrow> content t q = content s q \<or>
    (\<exists>i < length (in_args g). \<exists>d \<in> scope_outs (shared_scope g (cwd s)). q = in_dir d (out_args g ! i) \<and>
       content t q \<in> Some ` task_codes tool content cwd (shared_scope g (cwd s)) s (task_of g i)))"
proof -
  obtain n where n: "fst (make_tasks (tool_build tool) g 0 (in_args g)) = map (task_of g) [0..<n]" "n \<le> length (in_args g)"
    using make_tasks_tasks [OF len] by metis
  let ?ts = "map (task_of g) [0..<n]"
  have made: "make_tasks (tool_build tool) g 0 (in_args g) = (?ts, snd (make_tasks (tool_build tool) g 0 (in_args g)))"
    using n(1) by (metis prod.collapse)
  note facts = tasks_facts [OF len n(2)]
  have "distinct (map task_out ?ts)" using sep by (intro facts(3)) (simp add: separate_def)
  note law = execute_tasks_law [OF tool abs sep this facts(2), of "threads_arg g" waited sched]
  have less: "k \<in> set ?ts \<Longrightarrow> \<exists>i < length (in_args g). k = task_of g i" for k
    using n(2) unfolding facts(1) by (meson imageE lessThan_iff order_less_le_trans)
  show ?thesis
    unfolding ensures_run_generation [OF made]
  proof (rule ensures_mono [OF law], intro allI impI, elim conjE)
    fix r t q
    assume u: "untorn tool content cwd (shared_scope g (cwd s)) s ?ts t"
      and q: "\<forall>p \<in> set (out_args g). \<forall>d \<in> scope_outs (shared_scope g (cwd s)). \<not> is_temporary (in_dir d p) q"
    have "\<forall>k \<in> set ?ts. \<forall>d \<in> scope_outs (shared_scope g (cwd s)). \<not> is_temporary (in_dir d (task_out k)) q"
      using q facts(2) by blast
    with u have "content t q = content s q \<or> (\<exists>k \<in> set ?ts. \<exists>d \<in> scope_outs (shared_scope g (cwd s)). q = in_dir d (task_out k) \<and>
        content t q \<in> Some ` task_codes tool content cwd (shared_scope g (cwd s)) s k)"
      unfolding untorn_def by blast
    then show "content t q = content s q \<or>
        (\<exists>i < length (in_args g). \<exists>d \<in> scope_outs (shared_scope g (cwd s)). q = in_dir d (out_args g ! i) \<and>
         content t q \<in> Some ` task_codes tool content cwd (shared_scope g (cwd s)) s (task_of g i))"
      using less by (metis task_of_simps(2))
  qed
qed

text \<open>The current directory stays within three directories, and one thread leaves it as it was.\<close>

lemma run_tasks_cwd:
  assumes "tool_os tool = os" "\<not> custom_generator g" "is_absolute (srcdir_abs_path g)" "is_absolute (resdir_abs_path g)"
  shows "is_absolute (cwd s) \<Longrightarrow> ensures (run_tasks tool g waited ts) s (\<lambda>r t. r = Ret () \<longrightarrow> cwd t = cwd s)"
proof (induction ts arbitrary: s)
  case (Cons k ts)
  have rest: "ensures (run_tasks tool g waited ts) u (\<lambda>r t. r = Ret () \<longrightarrow> cwd t = cwd s)" if "cwd u = cwd s" for u
    using Cons.IH [of u] Cons.prems that by simp
  show ?case
    unfolding run_tasks.simps ensures_bind
    by (rule ensures_mono [OF run_task_law [OF assms Cons.prems]]) (use rest in auto)
qed (simp add: ensures_simps)

lemma run_generation_confined:
  assumes tool: "tool_os tool = os" "\<not> custom_generator g"
    and abs: "is_absolute (srcdir_abs_path g)" "is_absolute (resdir_abs_path g)" "is_absolute (cwd s)"
    and sep: "separate (shared_scope g (cwd s))" and len: "length (in_args g) = length (out_args g)"
    and run: "run_generation tool g waited sched s = (r, t)"
  shows "moment content cwd (shared_scope g (cwd s)) s t \<and> (threads_arg g = 1 \<longrightarrow> r = Ret () \<longrightarrow> cwd t = cwd s)"
proof -
  obtain n where n: "fst (make_tasks (tool_build tool) g 0 (in_args g)) = map (task_of g) [0..<n]" "n \<le> length (in_args g)"
    using make_tasks_tasks [OF len] by metis
  let ?ts = "map (task_of g) [0..<n]" and ?q = "snd (make_tasks (tool_build tool) g 0 (in_args g))"
  have made: "make_tasks (tool_build tool) g 0 (in_args g) = (?ts, ?q)"
    using n(1) by (metis prod.collapse)
  note facts = tasks_facts [OF len n(2)]
  have "distinct (map task_out ?ts)" using sep by (intro facts(3)) (simp add: separate_def)
  from execute_tasks_law [OF tool abs sep this facts(2), of "threads_arg g" waited sched]
  have "ensures (run_generation tool g waited sched) s (\<lambda>r t. moment content cwd (shared_scope g (cwd s)) s t)"
    unfolding ensures_run_generation [OF made] by (rule ensures_mono) simp
  then have "moment content cwd (shared_scope g (cwd s)) s t" using run by (rule ensuresD)
  moreover have "cwd t = cwd s" if one: "threads_arg g = 1" and r: "r = Ret ()"
  proof -
    have "?q = Ret ()" using run r by (auto simp: run_generation_def split: prod.splits if_splits)
    from run_generation_alone [OF one this run] have "run_tasks tool g waited (fst (make_tasks (tool_build tool) g 0 (in_args g))) s = (r, t)"
      using r by simp
    with ensuresD [OF run_tasks_cwd [OF tool abs] this] show ?thesis using r by simp
  qed
  ultimately show ?thesis by simp
qed

text \<open>A run that returns has translated every template.\<close>

lemma run_generation_complete:
  assumes tool: "tool_os tool = os" "\<not> custom_generator g"
    and abs: "is_absolute (srcdir_abs_path g)" "is_absolute (resdir_abs_path g)" "is_absolute (cwd s)"
    and sep: "separate (scope_of g (cwd s))" and len: "length (in_args g) = length (out_args g)"
    and run: "run_generation tool g waited sched s = (Ret (), t)" and i: "i < length (in_args g)"
  shows "translated tool content cwd (scope_of g (cwd s)) s (task_of g i) t"
proof -
  obtain n where n: "fst (make_tasks (tool_build tool) g 0 (in_args g)) = map (task_of g) [0..<n]" "n \<le> length (in_args g)"
      "snd (make_tasks (tool_build tool) g 0 (in_args g)) = Ret () \<Longrightarrow> n = length (in_args g)"
    using make_tasks_tasks [OF len] by metis
  let ?ts = "map (task_of g) [0..<length (in_args g)]" and ?q = "snd (make_tasks (tool_build tool) g 0 (in_args g))"
  have q: "?q = Ret ()"
    using run by (auto simp: run_generation_def split: prod.splits if_splits)
  have made: "make_tasks (tool_build tool) g 0 (in_args g) = (?ts, Ret ())"
    using n q by (metis prod.collapse)
  note facts = tasks_facts [OF len order_refl]
  have k: "task_of g i \<in> set ?ts" using i by auto
  show ?thesis
  proof (cases "threads_arg g = 1")
    case True
    have "run_tasks tool g waited (fst (make_tasks (tool_build tool) g 0 (in_args g))) s = (Ret (), t)"
      by (rule run_generation_alone [OF True q run]) simp
    then have ts: "run_tasks tool g waited ?ts s = (Ret (), t)" using made by simp
    have alone: "separate (alone_scope g (cwd s))" using sep True by (simp add: scope_of_def)
    have m: "moment content cwd (alone_scope g (cwd s)) s s" by (simp add: moment_def)
    have "map (output_path g) ?ts = map (in_dir (resdir_abs_path g)) (out_args g)"
      using len by (intro nth_equalityI) (simp_all add: output_path_def)
    then have d: "distinct (map (output_path g) ?ts)" using separate_outputs(1) [OF alone] by simp
    have "\<forall>j \<in> set ?ts. \<forall>k \<in> set ?ts. \<not> is_temporary (output_path g j) (output_path g k)"
      unfolding output_path_def using separate_outputs(2) [OF alone] facts(2) by blast
    from ensuresD [OF run_tasks_complete [OF tool abs m facts(2) d this] ts] k
    obtain code where "code = [] \<or> content t (output_path g (task_of g i)) = Some code"
      "translation tool content cwd (alone_scope g (cwd s)) s (in_dir (srcdir_abs_path g) (task_in (task_of g i))) code" by blast
    then show ?thesis using True by (auto simp: translated_def task_codes_def scope_of_def output_path_def)
  next
    case False
    then have shared: "separate (shared_scope g (cwd s))" "scope_of g (cwd s) = shared_scope g (cwd s)"
      using sep by (simp_all add: scope_of_def)
    have "distinct (map task_out ?ts)" using shared(1) by (intro facts(3)) (simp add: separate_def)
    from execute_tasks_law [OF tool abs shared(1) this facts(2), of "threads_arg g" waited sched]
    have "ensures (run_generation tool g waited sched) s (\<lambda>r t. r = Ret () \<longrightarrow>
        (\<forall>k \<in> set ?ts. translated tool content cwd (shared_scope g (cwd s)) s k t))"
      unfolding ensures_run_generation [OF made] by (rule ensures_mono) auto
    from ensuresD [OF this run] k show ?thesis unfolding shared(2) by blast
  qed
qed

text \<open>Every schedule that gives each thread its turn often enough comes to the end.\<close>

lemma run_generation_returns:
  assumes tool: "tool_os tool = os" "\<not> custom_generator g"
    and abs: "is_absolute (srcdir_abs_path g)" "is_absolute (resdir_abs_path g)" "is_absolute (cwd s)"
    and sep: "separate (shared_scope g (cwd s))" and len: "length (in_args g) = length (out_args g)"
    and threads: "0 < threads_arg g" and m: "19 * length (in_args g) \<le> m"
    and engine: "\<And>i. i < length (in_args g) \<Longrightarrow> \<not> endless tool content cwd (shared_scope g (cwd s)) s (task_of g i)"
  shows "ensures (run_generation tool g waited (round_robin (threads_arg g) m)) s (\<lambda>r t. r \<noteq> Pending)"
proof -
  obtain n where n: "fst (make_tasks (tool_build tool) g 0 (in_args g)) = map (task_of g) [0..<n]" "n \<le> length (in_args g)"
    using make_tasks_tasks [OF len] by metis
  let ?ts = "map (task_of g) [0..<n]"
  have made: "make_tasks (tool_build tool) g 0 (in_args g) = (?ts, snd (make_tasks (tool_build tool) g 0 (in_args g)))"
    using n(1) by (metis prod.collapse)
  note facts = tasks_facts [OF len n(2)]
  have "distinct (map task_out ?ts)" using sep by (intro facts(3)) (simp add: separate_def)
  note law = execute_tasks_law [OF tool abs sep this facts(2), of "threads_arg g" waited "round_robin (threads_arg g) m"]
  have "\<forall>k. within (task_steps tool g waited k) 17" by (simp add: within_task)
  from execute_round_robin [OF this threads, of ?ts m s] n(2) m
  have "ensures (execute (threads_arg g) (task_steps tool g waited) (round_robin (threads_arg g) m) ?ts) s (\<lambda>r t. r \<noteq> Pending \<or>
      waits (run_threads (task_steps tool g waited) (round_robin (threads_arg g) m) (new_executor (threads_arg g) ?ts s)))" by simp
  from ensures_conj [OF this law]
  have "ensures (execute (threads_arg g) (task_steps tool g waited) (round_robin (threads_arg g) m) ?ts) s (\<lambda>r t. r \<noteq> Pending)"
    by (rule ensures_mono) (use engine n(2) in auto)
  then show ?thesis
    unfolding ensures_run_generation [OF made] by (rule ensures_mono) (simp add: make_tasks_returns)
qed

end

text \<open>Only the files of the first state matter.\<close>

lemma translated_same:
  assumes "content u = content s"
  shows "translated tool content cwd sc u k t \<longleftrightarrow> translated tool content cwd sc s k t"
  using assms by (simp add: translated_def task_codes_def translation_def moment_def)

text \<open>
  The names do not depend on the directory a thread finds itself in: there is one thread, or one directory,
  or all names are absolute.
\<close>

definition race_free :: "config \<Rightarrow> string \<Rightarrow> bool" where
  "race_free g cwd \<longleftrightarrow> threads_arg g = 1 \<or> cwd = srcdir_abs_path g \<and> srcdir_abs_path g = resdir_abs_path g \<or>
     (\<forall>p \<in> set (in_args g) \<union> set (out_args g). is_absolute p)"

lemma race_free_translated:
  assumes "translated tool content c (scope_of g cwd) s (task_of g i) t" "race_free g cwd"
    and "i < length (in_args g)" "length (in_args g) = length (out_args g)"
  shows "\<exists>code. translation tool content c (scope_of g cwd) s (in_dir (srcdir_abs_path g) (in_args g ! i)) code \<and>
    (code = [] \<or> content t (in_dir (resdir_abs_path g) (out_args g ! i)) = Some code)"
proof -
  have "scope_outs (scope_of g cwd) \<noteq> {}" by (simp add: scope_of_def)
  with assms(1) obtain code d d' where code: "d \<in> scope_ins (scope_of g cwd)" "d' \<in> scope_outs (scope_of g cwd)"
    "translation tool content c (scope_of g cwd) s (in_dir d (in_args g ! i)) code"
    "code = [] \<or> content t (in_dir d' (out_args g ! i)) = Some code"
    by (auto simp: translated_def task_codes_def)
  have "in_dir d (in_args g ! i) = in_dir (srcdir_abs_path g) (in_args g ! i)"
    "in_dir d' (out_args g ! i) = in_dir (resdir_abs_path g) (out_args g ! i)"
    using assms(2-4) code(1,2) unfolding race_free_def scope_of_def by (auto simp: in_dir_def split: if_splits)
  with code show ?thesis by metis
qed

end
