(* ===== verification/Cxtpl_Runs.thy ===== *)
theory Cxtpl_Runs
  imports Cxtpl_Generation
begin

text \<open>
  Runs of \<open>run_generation\<close> on the disk without faults, evaluated step by step, and the properties of
  \<open>run_generation\<close> with these runs as their examples. The templates have the text \<open>hi\<close>.
\<close>

section \<open>The operations of a disk without faults\<close>

definition hi_code :: string where
  "hi_code = raw_code (ASCIIToUTF16 ''hi'')"

definition plain_disk :: "(string \<Rightarrow> string option) \<Rightarrow> string \<Rightarrow> (int \<Rightarrow> string option) \<Rightarrow> (int \<Rightarrow> string) \<Rightarrow> nat \<Rightarrow> string list \<Rightarrow> disk" where
  "plain_disk m cwd ws rs n dirs = \<lparr>disk_files = m, disk_dirs = dirs, disk_cwd = cwd,
     disk_writers = ws, disk_readers = rs, disk_next_fd = n, disk_random = [], disk_faults = []\<rparr>"

named_theorems disk_simps \<open>operations on a disk without faults\<close>

lemma hi_code [disk_simps]: "hi_code \<noteq> []" "template_result example_tool ''hi'' d = (success hi_code, d)"
proof -
  show "hi_code \<noteq> []" unfolding hi_code_def by code_simp
  show "template_result example_tool ''hi'' d = (success hi_code, d)"
    using template_result_hi [of d] by (simp add: template_result_def hi_code_def)
qed

lemma example_tool_simps [disk_simps]: "tool_os example_tool = disk_os" "cling_is_on example_tool = False"
  by (simp_all add: example_tool_def)

lemma plain_disk_ops [disk_simps]:
  "disk_faults d = [] \<Longrightarrow> os_current_path disk_os d = (Ret (disk_cwd d), d)"
  "disk_faults d = [] \<Longrightarrow> is_absolute p \<Longrightarrow> os_set_current_path disk_os p d = (Ret (), d\<lparr>disk_cwd := p\<rparr>)"
  "disk_faults d = [] \<Longrightarrow> is_absolute p \<Longrightarrow> absolute_path disk_os p d = (Ret p, d)"
  "disk_faults d = [] \<Longrightarrow> \<not> is_absolute p \<Longrightarrow> absolute_path disk_os p d = (Ret (path_join (disk_cwd d) p), d)"
  "disk_faults d = [] \<Longrightarrow> folly_File disk_os p d = disk_open_file p d"
  "disk_faults d = [] \<Longrightarrow> disk_files d p = Some c \<Longrightarrow>
     os_rename disk_os p q d = (Ret (), d\<lparr>disk_files := (disk_files d)(p := None, q \<mapsto> c)\<rparr>)"
  "disk_faults d = [] \<Longrightarrow> os_create_directories disk_os p d = (Ret (p \<notin> set (disk_dirs d)), d\<lparr>disk_dirs := ancestors p @ disk_dirs d\<rparr>)"
  by (simp_all add: disk_os_def disk_simple_def absolute_path_def io_return_def io_bind_def)

lemma plain_disk_read [disk_simps]:
  assumes "disk_faults d = []" "disk_readers d fd = ''hi''"
  shows "read_opened disk_os fd d = (Ret ''hi'', d\<lparr>disk_readers := (disk_readers d)(fd := [])\<rparr>)"
proof -
  let ?t = "d\<lparr>disk_readers := (disk_readers d)(fd := [])\<rparr>"
  have "read_loop disk_os fd ''hi'' ?t = Some (Ret ''hi'', ?t)"
    using assms(1) by (subst read_loop.simps) (simp add: disk_os_def disk_read_def fun_upd_idem)
  then have "read_loop disk_os fd [] d = Some (Ret ''hi'', ?t)"
    using assms by (subst read_loop.simps) (simp add: disk_os_def disk_read_def)
  then show ?thesis using assms(1) by (simp add: read_opened_def read_all_def io_bind_def io_return_def disk_os_def disk_simple_def)
qed

lemma plain_disk_random [disk_simps]:
  "disk_random d = [] \<Longrightarrow> randomString disk_os 10 10 random_range d = (Ret (replicate 10 (CHR ''a'')), d)"
proof -
  assume d: "disk_random d = []"
  have "random_chars disk_os random_range n d = (Ret (replicate n (CHR ''a'')), d)" for n
    by (induction n) (simp_all add: io_bind_def io_return_def disk_os_def d random_range_def)
  then show ?thesis by (simp add: randomString_def io_bind_def io_return_def disk_os_def d)
qed

lemma plain_disk_write [disk_simps]:
  "disk_faults d = [] \<Longrightarrow> parent_path p \<in> set (disk_dirs d) \<Longrightarrow> writeStringToFile disk_os c p d =
     (Ret True, d\<lparr>disk_next_fd := Suc (disk_next_fd d), disk_writers := (disk_writers d)(int (3 + disk_next_fd d) \<mapsto> p),
        disk_files := (disk_files d)(p \<mapsto> c)\<rparr>)"
  by (simp add: writeStringToFile_def writeToFile_def io_bind_def io_return_def disk_os_def
      disk_simple_def disk_create_def disk_append_def Let_def)

lemma plain_disk_remove [disk_simps]:
  "disk_faults d = [] \<Longrightarrow> p \<noteq> [] \<Longrightarrow> disk_files d p = None \<Longrightarrow> remove_temporary disk_os p d = (Ret (), d)"
  by (simp add: remove_temporary_def io_bind_def io_return_def disk_os_def disk_simple_def)

lemma example_dirs [disk_simps]: "is_absolute ''/src''" "is_absolute ''/out''"
  by (simp_all add: is_absolute_def)

section \<open>The steps of a task\<close>

text \<open>Where a task can be interrupted: before it enters the output directory, and after.\<close>

definition entering :: "string \<Rightarrow> (disk, unit) prog" where
  "entering q = prog_catch (prog_finally (write_relative_steps disk_os ''/out'' hi_code q)
     (call (os_set_current_path disk_os ''/src''))) (Done Terminated)"

definition resolving :: "string \<Rightarrow> (disk, unit) prog" where
  "resolving q = prog_catch (prog_finally
     (prog_bind (call (absolute_path disk_os q)) (\<lambda>out_abs_path.
      prog_bind (atomicallyWrite_steps disk_os hi_code out_abs_path) (\<lambda>ok.
        if \<not> ok then Done Terminated else Done (Ret ()))))
     (call (os_set_current_path disk_os ''/src''))) (Done Terminated)"

lemmas eval_steps = step_simps disk_simps plain_disk_def io_bind_def disk_open_file_def Let_def after_cleanup_def ended_def

lemma steps_read:
  assumes "m (path_join ''/src'' (task_in k)) = Some ''hi''" "\<not> is_absolute (task_in k)"
    and "srcdir_abs_path g = ''/src''" "resdir_abs_path g = ''/out''" "generator_path_arg g = None"
  shows "steps_of 8 (task_steps example_tool g (\<lambda>_. 0) k) (plain_disk m ''/src'' ws rs n dirs) =
    Some (entering (task_out k), plain_disk m ''/src'' ws (rs(int (3 + n) := [])) (Suc n) dirs)"
  using assms by (simp add: eval_steps entering_def task_steps_def processTemplate_steps_def
      readFile_steps_def read_relative_steps_def custom_generator_def write_result_steps_def)

lemma steps_enter: "steps_of 2 (entering q) (plain_disk m c ws rs n dirs) = Some (resolving q, plain_disk m ''/out'' ws rs n dirs)"
  by (simp add: eval_steps entering_def write_relative_steps_def resolving_def)

lemma steps_write:
  assumes "path_join c q = p" "\<not> is_absolute q" "parent_path p \<noteq> []" "parent_path p \<in> set dirs"
    and "temporary_path p (replicate 10 (CHR ''a'')) = tmp" "parent_path tmp \<in> set dirs" "tmp \<noteq> []" "tmp \<noteq> p"
  shows "steps_of 7 (resolving q) (plain_disk m c ws rs n dirs) =
    Some (Done (Ret ()), plain_disk (m(tmp := None, p \<mapsto> hi_code)) ''/src'' (ws(int (3 + n) \<mapsto> tmp)) rs (Suc n) (ancestors (parent_path p) @ dirs))"
  using assms
  by (simp add: eval_steps resolving_def atomicallyWrite_steps_def replace_through_steps_def fun_upd_twist)

section \<open>Two runs\<close>

lemma one_idle_thread: "replicate 1 None = [None]"
  by simp

lemma two_idle_threads: "replicate 2 None = [None, None]"
  by (simp add: numeral_2_eq_2)

lemma run_generation_two:
  assumes "make_tasks (tool_build tool) g 0 (in_args g) = (tasks, Ret ())" "threads_arg g = n"
    and "run_threads (task_steps tool g waited) sched (new_executor n tasks s) = e"
  shows "run_generation tool g waited sched s = (join_result e, exec_state e)"
  using assms by (simp add: run_generation_def execute_def Let_def)

definition one_template :: config where
  "one_template = example_config [(''a.cxtpl'', ''a.cpp'')]"

definition two_templates :: config where
  "two_templates = example_config [(''a.cxtpl'', ''a.cpp''), (''b.cxtpl'', ''b.cpp'')]"

definition start_disk :: disk where
  "start_disk = plain_disk [''/src/a.cxtpl'' \<mapsto> ''hi'', ''/src/b.cxtpl'' \<mapsto> ''hi''] ''/src'' Map.empty (\<lambda>_. []) 0 [''/'', ''/out'', ''/src'']"

lemma example_tasks:
  "make_tasks (tool_build example_tool) one_template 0 (in_args one_template) = ([task_of one_template 0], Ret ())"
  "make_tasks (tool_build example_tool) two_templates 0 (in_args two_templates) = ([task_of two_templates 0, task_of two_templates 1], Ret ())"
  by (simp_all add: one_template_def two_templates_def example_config_def make_task_def DCHECK_def vec_at_def task_of_def)

lemma example_names:
  "path_join ''/src'' ''a.cxtpl'' = ''/src/a.cxtpl''" "path_join ''/src'' ''b.cxtpl'' = ''/src/b.cxtpl''"
  "\<not> is_absolute ''a.cxtpl''" "\<not> is_absolute ''b.cxtpl''" "\<not> is_absolute ''a.cpp''" "\<not> is_absolute ''b.cpp''"
  "path_join ''/out'' ''a.cpp'' = ''/out/a.cpp''" "path_join ''/src'' ''b.cpp'' = ''/src/b.cpp''"
  "parent_path ''/out/a.cpp'' = ''/out''" "parent_path ''/src/b.cpp'' = ''/src''"
  "temporary_path ''/out/a.cpp'' (replicate 10 (CHR ''a'')) = ''/out/a.cpp.temp-aaaaaaaaaa''"
  "temporary_path ''/src/b.cpp'' (replicate 10 (CHR ''a'')) = ''/src/b.cpp.temp-aaaaaaaaaa''"
  "parent_path ''/out/a.cpp.temp-aaaaaaaaaa'' = ''/out''" "parent_path ''/src/b.cpp.temp-aaaaaaaaaa'' = ''/src''"
  by code_simp+

text \<open>One template: the first of two threads does all of it, without interruption.\<close>

definition first_thread :: "nat list" where
  "first_thread = [0] @ replicate 8 0 @ replicate 2 0 @ replicate 7 0 @ [0]"

definition example_files :: "string \<Rightarrow> string option" where
  "example_files = [''/src/a.cxtpl'' \<mapsto> ''hi'', ''/src/b.cxtpl'' \<mapsto> ''hi'']"

lemma read_example:
  assumes "task_in k \<in> {''a.cxtpl'', ''b.cxtpl''}" "task_out k = q"
    and "srcdir_abs_path g = ''/src''" "resdir_abs_path g = ''/out''" "generator_path_arg g = None"
  shows "steps_of 8 (task_steps example_tool g (\<lambda>_. 0) k) (plain_disk example_files ''/src'' ws rs n dirs) =
    Some (entering q, plain_disk example_files ''/src'' ws (rs(int (3 + n) := [])) (Suc n) dirs)"
  using steps_read [of example_files k g ws rs n dirs] assms by (auto simp: example_names example_files_def)

lemma one_template_steps:
  assumes "g \<in> {one_template, one_template\<lparr>threads_arg := 1\<rparr>}" "k = task_of one_template 0"
  obtains d1 d2 d3 where "steps_of 8 (task_steps example_tool g (\<lambda>_. 0) k) start_disk = Some (entering ''a.cpp'', d1)"
    "steps_of 2 (entering ''a.cpp'') d1 = Some (resolving ''a.cpp'', d2)"
    "steps_of 7 (resolving ''a.cpp'') d2 = Some (Done (Ret ()), d3)" "disk_files d3 ''/out/a.cpp'' = Some hi_code"
proof -
  let ?dirs = "[''/'', ''/out'', ''/src'']" and ?tmp = "''/out/a.cpp.temp-aaaaaaaaaa''"
  define d1 where "d1 = plain_disk example_files ''/src'' Map.empty ((\<lambda>_. [])(int (3 + 0) := [])) (Suc 0) ?dirs"
  define d2 where "d2 = plain_disk example_files ''/out'' Map.empty ((\<lambda>_. [])(int (3 + 0) := [])) (Suc 0) ?dirs"
  define d3 where "d3 = plain_disk (example_files(?tmp := None, ''/out/a.cpp'' \<mapsto> hi_code)) ''/src'' [int (3 + Suc 0) \<mapsto> ?tmp]
    ((\<lambda>_. [])(int (3 + 0) := [])) (Suc (Suc 0)) (ancestors ''/out'' @ ?dirs)"
  show thesis
  proof (rule that)
    show "steps_of 8 (task_steps example_tool g (\<lambda>_. 0) k) start_disk = Some (entering ''a.cpp'', d1)"
      unfolding d1_def start_disk_def example_files_def [symmetric]
      by (rule read_example) (use assms in \<open>auto simp: one_template_def example_config_def\<close>)
    show "steps_of 2 (entering ''a.cpp'') d1 = Some (resolving ''a.cpp'', d2)"
      unfolding d1_def d2_def by (rule steps_enter)
    show "steps_of 7 (resolving ''a.cpp'') d2 = Some (Done (Ret ()), d3)"
      unfolding d2_def d3_def
      using steps_write [of "''/out''" "''a.cpp''" "''/out/a.cpp''" ?dirs ?tmp] by (simp add: example_names)
    show "disk_files d3 ''/out/a.cpp'' = Some hi_code" by (simp add: d3_def plain_disk_def)
  qed
qed

lemma one_template_run:
  assumes "g \<in> {one_template, one_template\<lparr>threads_arg := 1\<rparr>}"
  shows "\<exists>t. run_generation example_tool g (\<lambda>_. 0) first_thread start_disk = (Ret (), t) \<and>
     disk_files t ''/out/a.cpp'' = Some hi_code"
proof -
  let ?k = "task_of one_template 0" and ?b = "task_steps example_tool g (\<lambda>_. 0)"
  from one_template_steps [OF assms refl] obtain d1 d2 d3 where
    d: "steps_of 8 (?b ?k) start_disk = Some (entering ''a.cpp'', d1)" "steps_of 2 (entering ''a.cpp'') d1 = Some (resolving ''a.cpp'', d2)"
      "steps_of 7 (resolving ''a.cpp'') d2 = Some (Done (Ret ()), d3)" "disk_files d3 ''/out/a.cpp'' = Some hi_code" .
  have tasks: "make_tasks (tool_build example_tool) g 0 (in_args g) = ([?k], Ret ())" "threads_arg g = 1 \<or> threads_arg g = 2"
    using assms by (auto simp: one_template_def example_config_def make_task_def DCHECK_def vec_at_def task_of_def task_timeout_def)
  have "\<exists>ths. run_threads ?b first_thread (new_executor (threads_arg g) [?k] start_disk) = executor_at d3 [] ths [(?k, Ret ())] \<and>
      (\<forall>th \<in> set ths. th = None)"
    using tasks(2)
  proof
    assume "threads_arg g = 1"
    then have "run_threads ?b first_thread (new_executor (threads_arg g) [?k] start_disk) = executor_at d3 [] [None] [(?k, Ret ())]"
      unfolding first_thread_def executor_at_new run_threads_simps(3)
      by (simp only: one_idle_thread run_one d(1-3))
    then show ?thesis by (intro exI [of _ "[None]"]) simp
  next
    assume "threads_arg g = 2"
    then have "run_threads ?b first_thread (new_executor (threads_arg g) [?k] start_disk) = executor_at d3 [] [None, None] [(?k, Ret ())]"
      unfolding first_thread_def executor_at_new run_threads_simps(3)
      by (simp only: two_idle_threads run_two d(1-3))
    then show ?thesis by (intro exI [of _ "[None, None]"]) simp
  qed
  then obtain ths where ths: "run_threads ?b first_thread (new_executor (threads_arg g) [?k] start_disk) =
      executor_at d3 [] ths [(?k, Ret ())]" "\<forall>th \<in> set ths. th = None" by blast
  have "run_generation example_tool g (\<lambda>_. 0) first_thread start_disk = (Ret (), d3)"
    using run_generation_two [OF tasks(1) refl ths(1)] joined_at [OF ths(2)] by (simp add: executor_at_def)
  then show ?thesis using d(4) by blast
qed

text \<open>
  Two templates, two threads, names relative to two directories: the second thread is in the output directory when the first
  leaves it for the source directory, so the second output is written there, and the run returns all the same.
\<close>

definition race :: "nat list" where
  "race = ([0] @ replicate 8 0) @ ([1] @ replicate 8 1) @ replicate 2 1 @
     (replicate 2 0 @ replicate 7 0 @ [0]) @ (replicate 7 1 @ [1])"

lemma two_templates_run:
  "\<exists>t. run_generation example_tool two_templates (\<lambda>_. 0) race start_disk = (Ret (), t) \<and>
     disk_files t ''/out/b.cpp'' = None \<and> disk_files t ''/src/b.cpp'' = Some hi_code"
proof -
  let ?j = "task_of two_templates 0" and ?k = "task_of two_templates 1" and ?b = "task_steps example_tool two_templates (\<lambda>_. 0)"
  let ?dirs = "[''/'', ''/out'', ''/src'']" and ?dirs2 = "ancestors ''/out'' @ [''/'', ''/out'', ''/src'']"
  let ?tmpa = "''/out/a.cpp.temp-aaaaaaaaaa''" and ?tmpb = "''/src/b.cpp.temp-aaaaaaaaaa''"
  let ?rs1 = "(\<lambda>_. [])(int (3 + 0) := [])" and ?m2 = "example_files(''/out/a.cpp.temp-aaaaaaaaaa'' := None, ''/out/a.cpp'' \<mapsto> hi_code)"
  let ?rs2 = "?rs1(int (3 + Suc 0) := [])" and ?ws2 = "[int (3 + Suc (Suc 0)) \<mapsto> ''/out/a.cpp.temp-aaaaaaaaaa'']"
  define d1 where "d1 = plain_disk example_files ''/src'' Map.empty ?rs1 (Suc 0) ?dirs"
  define d2 where "d2 = plain_disk example_files ''/src'' Map.empty ?rs2 (Suc (Suc 0)) ?dirs"
  define d3 where "d3 = plain_disk example_files ''/out'' Map.empty ?rs2 (Suc (Suc 0)) ?dirs"
  define d4 where "d4 = plain_disk ?m2 ''/src'' ?ws2 ?rs2 (Suc (Suc (Suc 0))) ?dirs2"
  define d5 where "d5 = plain_disk (?m2(?tmpb := None, ''/src/b.cpp'' \<mapsto> hi_code)) ''/src'' (?ws2(int (3 + Suc (Suc (Suc 0))) \<mapsto> ?tmpb))
    ?rs2 (Suc (Suc (Suc (Suc 0)))) (ancestors ''/src'' @ ?dirs2)"
  have "steps_of 8 (?b ?j) start_disk = Some (entering ''a.cpp'', d1)"
    unfolding d1_def start_disk_def example_files_def [symmetric] two_templates_def
    by (rule read_example) (simp_all add: example_config_def)
  moreover have "steps_of 8 (?b ?k) d1 = Some (entering ''b.cpp'', d2)"
    unfolding d1_def d2_def two_templates_def by (rule read_example) (simp_all add: example_config_def)
  moreover have "steps_of 2 (entering ''b.cpp'') d2 = Some (resolving ''b.cpp'', d3)"
    unfolding d2_def d3_def by (rule steps_enter)
  moreover have "steps_of 2 (entering ''a.cpp'') d3 = Some (resolving ''a.cpp'', d3)"
    unfolding d3_def by (rule steps_enter)
  moreover have "steps_of 7 (resolving ''a.cpp'') d3 = Some (Done (Ret ()), d4)"
    unfolding d3_def d4_def
    using steps_write [of "''/out''" "''a.cpp''" "''/out/a.cpp''" ?dirs ?tmpa] by (simp add: example_names)
  moreover have "steps_of 7 (resolving ''b.cpp'') d4 = Some (Done (Ret ()), d5)"
    unfolding d4_def d5_def
    using steps_write [of "''/src''" "''b.cpp''" "''/src/b.cpp''" ?dirs2 ?tmpb] by (simp add: example_names)
  ultimately have "run_threads ?b race (new_executor 2 [?j, ?k] start_disk) =
      executor_at d5 [] [None, None] [(?k, Ret ()), (?j, Ret ())]"
    unfolding race_def executor_at_new run_threads_simps(3)
    by (simp only: two_idle_threads run_two)
  then have "run_generation example_tool two_templates (\<lambda>_. 0) race start_disk =
      (join_result (executor_at d5 [] [None, None] [(?k, Ret ()), (?j, Ret ())]),
       exec_state (executor_at d5 [] [None, None] [(?k, Ret ()), (?j, Ret ())]))"
    by (intro run_generation_two [OF example_tasks(2)]) (simp_all add: two_templates_def example_config_def)
  then have "run_generation example_tool two_templates (\<lambda>_. 0) race start_disk = (Ret (), d5)"
    by (simp add: joined_at) (simp add: executor_at_def)
  moreover have "disk_files d5 ''/out/b.cpp'' = None \<and> disk_files d5 ''/src/b.cpp'' = Some hi_code"
    by (simp add: d5_def plain_disk_def example_files_def)
  ultimately show ?thesis by blast
qed

section \<open>Properties\<close>

text \<open>What the example configurations have in common.\<close>

lemma example_facts:
  assumes "g \<in> {one_template, two_templates, one_template\<lparr>threads_arg := 1\<rparr>}"
  shows "\<not> custom_generator g" "is_absolute (srcdir_abs_path g)" "is_absolute (resdir_abs_path g)" "is_absolute (disk_cwd start_disk)"
    and "length (in_args g) = length (out_args g)" "tool_os example_tool = disk_os"
    and "set (out_args g) \<subseteq> {''a.cpp'', ''b.cpp''}" "set (in_args g) \<subseteq> {''a.cxtpl'', ''b.cxtpl''}"
    and "separate (shared_scope g c)" "separate (scope_of g c)"
proof -
  show "\<not> custom_generator g" "is_absolute (srcdir_abs_path g)" "is_absolute (resdir_abs_path g)" "is_absolute (disk_cwd start_disk)"
    "length (in_args g) = length (out_args g)" "tool_os example_tool = disk_os"
    using assms by (auto simp: one_template_def two_templates_def example_config_def custom_generator_def is_absolute_def
        start_disk_def plain_disk_def example_tool_def)
  show names: "set (out_args g) \<subseteq> {''a.cpp'', ''b.cpp''}" and "set (in_args g) \<subseteq> {''a.cxtpl'', ''b.cxtpl''}"
    using assms by (auto simp: one_template_def two_templates_def example_config_def)
  have outs: "distinct (out_args g)" using assms by (auto simp: one_template_def two_templates_def example_config_def)
  have plain: "p \<in> set (out_args g) \<Longrightarrow> plain_name p" "p' \<in> set (out_args g) \<Longrightarrow> \<not> temporary_name p p'" for p p'
    using names by (auto simp: plain_name_def intro!: temporary_name_length)
  have "separate sc" if "scope_names sc = out_args g" for sc
    by (rule separate_plain) (use outs plain in \<open>simp_all add: that\<close>)
  then show "separate (shared_scope g c)" "separate (scope_of g c)" by simp_all
qed

lemma example_not_endless:
  assumes "g \<in> {one_template, two_templates, one_template\<lparr>threads_arg := 1\<rparr>}" "i < length (in_args g)"
  shows "\<not> endless example_tool disk_files disk_cwd (shared_scope g (disk_cwd start_disk)) start_disk (task_of g i)"
proof
  assume "endless example_tool disk_files disk_cwd (shared_scope g (disk_cwd start_disk)) start_disk (task_of g i)"
  then obtain d v u src where d: "d \<in> scope_ins (shared_scope g (disk_cwd start_disk))"
    and v: "moment disk_files disk_cwd (shared_scope g (disk_cwd start_disk)) start_disk v"
    and src: "disk_files v (in_dir d (in_args g ! i)) = Some src" and pending: "fst (template_result example_tool src u) = Pending"
    by (auto simp: endless_def)
  have names: "in_args g ! i \<in> {''a.cxtpl'', ''b.cxtpl''}" "set (out_args g) \<subseteq> {''a.cpp'', ''b.cpp''}"
    using example_facts(7,8) [OF assms(1)] assms(2) nth_mem by blast+
  have "disk_files v (in_dir d (in_args g ! i)) = disk_files start_disk (in_dir d (in_args g ! i))"
    by (rule moment_other_file [OF v]) (use names in \<open>auto simp: plain_name_def intro!: temporary_name_length\<close>)
  moreover have "d \<in> {''/src'', ''/out''}"
    using d assms(1) by (auto simp: start_disk_def plain_disk_def one_template_def two_templates_def example_config_def)
  moreover have "in_dir ''/out'' ''a.cxtpl'' = ''/out/a.cxtpl''" "in_dir ''/out'' ''b.cxtpl'' = ''/out/b.cxtpl''" by code_simp+
  ultimately have "src = ''hi''"
    using src names(1) by (auto simp: start_disk_def plain_disk_def split: if_splits)
  with pending show False by (simp add: hi_code)
qed





text \<open>
  C24: with any number of threads, in any interleaving and at any moment, the current directory is that of the start, the source
  directory or the output directory, and a file that is neither an output nor a temporary file of one in these directories is
  as it was. A run on one thread that returns leaves the current directory as it found it.
\<close>

theorem threads_confined:
  assumes "posix os content cwd writing unread" "tool_os tool = os" "\<not> custom_generator g"
    and "is_absolute (srcdir_abs_path g)" "is_absolute (resdir_abs_path g)" "is_absolute (cwd s)"
    and "separate (shared_scope g (cwd s))" "length (in_args g) = length (out_args g)"
    and dirs: "dirs = {cwd s, srcdir_abs_path g, resdir_abs_path g}"
    and run: "run_generation tool g waited sched s = (r, t)"
  shows "cwd t \<in> dirs \<and> (threads_arg g = 1 \<longrightarrow> r = Ret () \<longrightarrow> cwd t = cwd s) \<and>
    (\<forall>q. (\<forall>p \<in> set (out_args g). \<forall>d \<in> dirs. q \<noteq> in_dir d p \<and> \<not> is_temporary (in_dir d p) q) \<longrightarrow> content t q = content s q)"
proof -
  from posix.run_generation_confined [OF assms(1-8) run]
  have m: "moment content cwd (shared_scope g (cwd s)) s t" and one: "threads_arg g = 1 \<longrightarrow> r = Ret () \<longrightarrow> cwd t = cwd s" by simp_all
  have "content t q = content s q" if "\<forall>p \<in> set (out_args g). \<forall>d \<in> dirs. q \<noteq> in_dir d p \<and> \<not> is_temporary (in_dir d p) q" for q
  proof -
    have "\<forall>p \<in> set (out_args g). \<not> owned (shared_scope g (cwd s)) p q"
      unfolding owned_def shared_scope_simps using that dirs by blast
    then show ?thesis using m by (simp add: moment_def)
  qed
  moreover have "cwd t \<in> dirs" using m by (simp add: moment_def dirs)
  ultimately show ?thesis using one by simp
qed

theorem threads_confined_witness:
  "disk_cwd (snd (run_generation example_tool two_templates (\<lambda>_. 0) (take 25 race) start_disk)) \<in> {''/src'', ''/out''}"
proof -
  let ?run = "run_generation example_tool two_templates (\<lambda>_. 0) (take 25 race) start_disk"
  have g: "two_templates \<in> {one_template, two_templates, one_template\<lparr>threads_arg := 1\<rparr>}" by simp
  note facts = example_facts [OF g]
  from threads_confined [OF disk.posix_axioms facts(6,1-4,9,5) refl surjective_pairing, of "\<lambda>_. 0" "take 25 race"]
  have "disk_cwd (snd ?run) \<in> {disk_cwd start_disk, srcdir_abs_path two_templates, resdir_abs_path two_templates}" by blast
  then show ?thesis by (simp add: start_disk_def plain_disk_def two_templates_def example_config_def)
qed

text \<open>
  C25: with one thread, a run that comes to its end is the sequence of its tasks: the same result and the same files as when each
  template is processed to its end before the next one is begun.
\<close>

theorem one_thread_in_order:
  assumes "threads_arg g = 1" "make_tasks (tool_build tool) g 0 (in_args g) = (tasks, Ret ())"
    and "run_generation tool g waited sched s = (r, t)" "r \<noteq> Pending"
  shows "run_tasks tool g waited tasks s = (r, t)"
  using run_generation_alone [OF assms(1) _ assms(3,4)] assms(2) by simp

lemma one_thread_returns:
  "fst (run_generation example_tool (one_template\<lparr>threads_arg := 1\<rparr>) (\<lambda>_. 0) (round_robin 1 19) start_disk) \<noteq> Pending"
proof -
  let ?g = "one_template\<lparr>threads_arg := 1\<rparr>"
  have g: "?g \<in> {one_template, two_templates, one_template\<lparr>threads_arg := 1\<rparr>}" by simp
  note facts = example_facts [OF g]
  have "ensures (run_generation example_tool ?g (\<lambda>_. 0) (round_robin (threads_arg ?g) 19)) start_disk (\<lambda>r t. r \<noteq> Pending)"
    by (rule disk.run_generation_returns [OF facts(6,1-4,9,5) _ _ example_not_endless [OF g]])
      (simp_all add: one_template_def example_config_def)
  then show ?thesis by (simp add: ensures_def split: prod.splits)
qed

theorem one_thread_in_order_witness:
  "run_generation example_tool (one_template\<lparr>threads_arg := 1\<rparr>) (\<lambda>_. 0) (round_robin 1 19) start_disk =
   run_tasks example_tool (one_template\<lparr>threads_arg := 1\<rparr>) (\<lambda>_. 0) [task_of one_template 0] start_disk"
proof -
  let ?g = "one_template\<lparr>threads_arg := 1\<rparr>"
  have tasks: "make_tasks (tool_build example_tool) ?g 0 (in_args ?g) = ([task_of one_template 0], Ret ())"
    by (simp add: one_template_def example_config_def make_task_def DCHECK_def vec_at_def task_of_def task_timeout_def)
  have "threads_arg ?g = 1" by simp
  from one_thread_in_order [OF this tasks surjective_pairing one_thread_returns] show ?thesis by simp
qed

text \<open>
  C26: two threads and names relative to two directories: there is an interleaving in which the run returns as if all were well,
  but the output of a template is not in the output directory; it has been written into the source directory.
\<close>

theorem threads_lose_output:
  "\<exists>sched t. run_generation example_tool two_templates (\<lambda>_. 0) sched start_disk = (Ret (), t) \<and>
     in_dir (resdir_abs_path two_templates) ''b.cpp'' = ''/out/b.cpp'' \<and> disk_files t ''/out/b.cpp'' = None \<and>
     in_dir (srcdir_abs_path two_templates) ''b.cpp'' = ''/src/b.cpp'' \<and> disk_files t ''/src/b.cpp'' = Some hi_code"
proof -
  have "in_dir ''/out'' ''b.cpp'' = ''/out/b.cpp''" "in_dir ''/src'' ''b.cpp'' = ''/src/b.cpp''" by code_simp+
  then show ?thesis using two_templates_run by (auto simp: two_templates_def example_config_def)
qed



end
