(* ===== verification/Cxtpl_Args.thy ===== *)
theory Cxtpl_Args
  imports Cxtpl_Prelude
begin

text \<open>
  The arguments of the command line tool (\<open>tool/src/main_native.cpp\<close>): \<open>startsWith\<close>, \<open>removePrefix\<close>, the
  options forwarded to Cling, and \<open>fix_inputs\<close>, which splits every argument at blanks unless they are in
  quotes. \<open>std::quoted\<close> and \<open>operator>>\<close> are modelled on the characters that are left in the stream.
\<close>

section \<open>Prefixes\<close>

text \<open>\<open>in.compare(0, n, prefix)\<close> compares the first \<open>n\<close> characters of \<open>in\<close>, or all of a shorter one.\<close>

definition startsWith :: "string \<Rightarrow> string \<Rightarrow> bool" where
  "startsWith inp prefix_text \<longleftrightarrow> take (length prefix_text) inp = prefix_text"

definition removePrefix_arg :: "string \<Rightarrow> string \<Rightarrow> string run" where
  "removePrefix_arg from_text prefix_text = str_substr from_text (length prefix_text) (length from_text)"

section \<open>Options forwarded to Cling\<close>

text \<open>An option that the parser did not know: its key and its values.\<close>

definition extra_arg_prefix :: string where
  "extra_arg_prefix = ''-extra-arg=''"

definition forward_value :: "string \<Rightarrow> string \<Rightarrow> string list run" where
  "forward_value key val =
     (let combined_for_clang = key @ val in
      if combined_for_clang = [] then Ret []
      else if startsWith combined_for_clang extra_arg_prefix then
        run_bind (removePrefix_arg combined_for_clang extra_arg_prefix) (\<lambda>combined_for_cling.
          if combined_for_cling = [] then Ret [] else Ret [combined_for_cling])
      else Ret [])"

fun forward_options :: "(string \<times> string list) list \<Rightarrow> string list run" where
  "forward_options [] = Ret []"
| "forward_options ((key, []) # opts) = forward_options opts"
| "forward_options ((key, v # vs) # opts) =
     run_bind (forward_value key v) (\<lambda>args.
     run_bind (forward_options ((key, vs) # opts)) (\<lambda>more. Ret (args @ more)))"

lemma forward_options_Ret:
  "forward_options opts =
     Ret [drop (length extra_arg_prefix) arg. (key, vals) \<leftarrow> opts, arg \<leftarrow> map ((@) key) vals,
       startsWith arg extra_arg_prefix \<and> arg \<noteq> extra_arg_prefix]"
proof (induction opts rule: forward_options.induct)
  case (3 key v vs opts)
  have "forward_value key v = Ret (if startsWith (key @ v) extra_arg_prefix \<and> key @ v \<noteq> extra_arg_prefix
      then [drop (length extra_arg_prefix) (key @ v)] else [])"
  proof (cases "startsWith (key @ v) extra_arg_prefix")
    case True
    then obtain rest where rest: "key @ v = extra_arg_prefix @ rest"
      unfolding startsWith_def by (metis append_take_drop_id)
    have "removePrefix_arg (extra_arg_prefix @ rest) extra_arg_prefix = Ret rest"
      by (simp add: removePrefix_arg_def str_substr_def)
    then show ?thesis
      using True unfolding forward_value_def rest Let_def by (simp add: extra_arg_prefix_def)
  qed (auto simp: forward_value_def Let_def)
  then show ?case using 3 by simp
qed simp_all

section \<open>Splitting at blanks\<close>

definition isspace :: "char \<Rightarrow> bool" where
  "isspace c \<longleftrightarrow> c \<in> {CHR '' '', CHR 0x09, CHR 0x0A, CHR 0x0B, CHR 0x0C, CHR 0x0D}"

text \<open>
  The loop of \<open>operator>>\<close> for \<open>std::quoted\<close> after the opening quote: a backslash takes the next character
  as it is, a quote ends the string. When the stream ends first, the extraction fails (\<open>None\<close>).
\<close>

fun quoted_body :: "string \<Rightarrow> (string \<times> string) option" where
  "quoted_body [] = None"
| "quoted_body (c # cs) =
     (if c = CHR 0x5C then
        (case cs of [] \<Rightarrow> None
         | d # ds \<Rightarrow> map_option (\<lambda>(s, rest). (d # s, rest)) (quoted_body ds))
      else if c = CHR 0x22 then Some ([], cs)
      else map_option (\<lambda>(s, rest). (c # s, rest)) (quoted_body cs))"

text \<open>\<open>iss >> std::quoted(s)\<close>: the string and the rest of the stream, \<open>None\<close> when the stream is exhausted.\<close>

definition extract_quoted :: "string \<Rightarrow> (string \<times> string) option" where
  "extract_quoted stream =
     (case dropWhile isspace stream of
        [] \<Rightarrow> None
      | c # cs \<Rightarrow>
          if c = CHR 0x22 then quoted_body cs
          else Some (takeWhile (\<lambda>d. \<not> isspace d) (c # cs), dropWhile (\<lambda>d. \<not> isspace d) (c # cs)))"

lemma quoted_body_length: "quoted_body cs = Some (s, rest) \<Longrightarrow> length rest < length cs"
proof (induction cs arbitrary: s rest rule: quoted_body.induct)
  case (2 c cs)
  then show ?case by (fastforce split: if_splits list.splits)
qed simp

lemma extract_quoted_length:
  assumes "extract_quoted stream = Some (s, rest)"
  shows "length rest < length stream"
proof -
  obtain c cs where d: "dropWhile isspace stream = c # cs" "\<not> isspace c"
    using assms by (cases "dropWhile isspace stream") (auto simp: extract_quoted_def dropWhile_eq_Cons_conv)
  have le: "length (c # cs) \<le> length stream" by (metis d(1) length_dropWhile_le)
  show ?thesis
  proof (cases "c = CHR 0x22")
    case True
    then have "quoted_body cs = Some (s, rest)" using assms d by (simp add: extract_quoted_def)
    from quoted_body_length [OF this] le show ?thesis by simp
  next
    case False
    then have "rest = dropWhile (\<lambda>d. \<not> isspace d) cs" using assms d by (simp add: extract_quoted_def)
    then have "length rest \<le> length cs" by (simp add: length_dropWhile_le)
    with le show ?thesis by simp
  qed
qed

function split_quoted :: "string \<Rightarrow> string list" where
  "split_quoted stream =
     (case extract_quoted stream of
        None \<Rightarrow> []
      | Some (s, rest) \<Rightarrow> if s \<noteq> [] then s # split_quoted rest else split_quoted rest)"
  by pat_completeness auto
termination
  by (relation "measure length") (auto dest: extract_quoted_length)

declare split_quoted.simps [simp del]

definition fix_inputs :: "string list \<Rightarrow> string list" where
  "fix_inputs args = concat (map split_quoted args)"

section \<open>What \<open>fix_inputs\<close> reads back\<close>

text \<open>\<open>os << std::quoted(s)\<close>: quotes around the string, a backslash before quotes and backslashes.\<close>

fun escape :: "string \<Rightarrow> string" where
  "escape [] = []"
| "escape (c # cs) = (if c = CHR 0x5C \<or> c = CHR 0x22 then CHR 0x5C # c # escape cs else c # escape cs)"

definition quote :: "string \<Rightarrow> string" where
  "quote s = CHR 0x22 # escape s @ [CHR 0x22]"

lemma quoted_body_escape: "quoted_body (escape s @ CHR 0x22 # rest) = Some (s, rest)"
  by (induction s) auto

lemma extract_quote: "extract_quoted (quote s @ rest) = Some (s, rest)"
  by (simp add: extract_quoted_def quote_def isspace_def quoted_body_escape)

lemma extract_blank: "isspace c \<Longrightarrow> extract_quoted (c # cs) = extract_quoted cs"
  by (simp add: extract_quoted_def)

lemma split_quoted_blank: "isspace c \<Longrightarrow> split_quoted (c # cs) = split_quoted cs"
  by (simp add: split_quoted.simps [of "c # cs"] split_quoted.simps [of cs] extract_blank)

lemma split_quoted_Nil [simp]: "split_quoted [] = []"
  by (subst split_quoted.simps) (simp add: extract_quoted_def)

lemma split_quote: "s \<noteq> [] \<Longrightarrow> split_quoted (quote s @ rest) = s # split_quoted rest"
  by (subst split_quoted.simps) (simp add: extract_quote)

definition plain_word :: "string \<Rightarrow> bool" where
  "plain_word s \<longleftrightarrow> s \<noteq> [] \<and> (\<forall>c \<in> set s. \<not> isspace c) \<and> hd s \<noteq> CHR 0x22"

lemma split_plain:
  assumes "plain_word s" "rest = [] \<or> isspace (hd rest)"
  shows "split_quoted (s @ rest) = s # split_quoted rest"
proof -
  obtain c cs where s: "s = c # cs" "\<not> isspace c" "\<forall>d\<in>set cs. \<not> isspace d" "c \<noteq> CHR 0x22"
    using assms(1) by (cases s) (auto simp: plain_word_def)
  have "takeWhile (\<lambda>d. \<not> isspace d) (cs @ rest) = cs" "dropWhile (\<lambda>d. \<not> isspace d) (cs @ rest) = rest"
    using s(3) assms(2) by (cases rest; simp add: takeWhile_append dropWhile_append)+
  then show ?thesis using s by (subst split_quoted.simps) (simp add: extract_quoted_def)
qed

text \<open>How a user writes a list of file names: each plain or quoted, with blanks between them.\<close>

definition written_as :: "string \<Rightarrow> string \<Rightarrow> bool" where
  "written_as w name \<longleftrightarrow> name \<noteq> [] \<and> (w = quote name \<or> w = name \<and> plain_word name)"

fun write_names :: "(string \<times> string) list \<Rightarrow> string" where
  "write_names [] = []"
| "write_names ((w, blanks) # rest) = w @ blanks @ write_names rest"

lemma split_blanks: "\<forall>c\<in>set bs. isspace c \<Longrightarrow> split_quoted (bs @ rest) = split_quoted rest"
  by (induction bs) (simp_all add: split_quoted_blank)

section \<open>Properties\<close>



text \<open>C21: an argument with a quote that is not closed loses everything from this quote on, without an error.\<close>

theorem fix_inputs_unclosed_quote:
  assumes "plain_word name"
  shows "fix_inputs [name @ '' '' @ CHR 0x22 # escape s] = [name]"
proof -
  have none: "quoted_body (escape s) = None" by (induction s) auto
  have "split_quoted (name @ '' '' @ CHR 0x22 # escape s) = name # split_quoted ('' '' @ CHR 0x22 # escape s)"
    by (rule split_plain [OF assms]) (simp add: isspace_def)
  also have "split_quoted ('' '' @ CHR 0x22 # escape s) = []"
    by (subst split_quoted.simps) (simp add: extract_quoted_def isspace_def none)
  finally show ?thesis by (simp add: fix_inputs_def)
qed

theorem fix_inputs_unclosed_quote_witness:
  "fix_inputs [''a.cxtpl '' @ [CHR 0x22] @ ''b c''] = [''a.cxtpl'']"
  using fix_inputs_unclosed_quote [of "''a.cxtpl''" "''b c''"] by (simp add: plain_word_def isspace_def)

text \<open>
  C22: exactly the values that follow \<open>-extra-arg=\<close> and are not empty are forwarded to Cling, in order; the
  removal of the prefix never throws.
\<close>

theorem forward_options_exact:
  "forward_options opts =
     Ret [drop (length extra_arg_prefix) arg. (key, vals) \<leftarrow> opts, arg \<leftarrow> map ((@) key) vals,
       startsWith arg extra_arg_prefix \<and> arg \<noteq> extra_arg_prefix]"
  by (rule forward_options_Ret)

end
