(* ===== verification/Cxtpl_Main.thy ===== *)
theory Cxtpl_Main
  imports Cxtpl_Runs Cxtpl_Args
begin

text \<open>
  The function \<open>main\<close> of the command line tool (\<open>tool/src/main_native.cpp\<close>): from the parsed command line to
  the exit code. What \<open>boost::program_options\<close> parses is a parameter, a record of the options or an
  exception. The times the tasks wait and the schedule of the threads are parameters. The value of a run is the exit
  code; \<open>Terminated\<close> is an aborted process.
\<close>

section \<open>The command line\<close>

record cmdline =
  opt_help :: bool
  opt_version :: bool
  opt_threads :: nat
  opt_log :: "string option"
  opt_global_timeout :: int
  opt_single_task_timeout :: int
  opt_resdir :: "string option"
  opt_srcdir :: "string option"
  opt_input_files :: "string list"
  opt_generator_path :: "string option"
  opt_output_files :: "string list"
  opt_unregistered :: "(string \<times> string list) list"

definition EXIT_SUCCESS :: int where
  "EXIT_SUCCESS = 0"

definition EXIT_FAILURE :: int where
  "EXIT_FAILURE = 1"

text \<open>A string option that is given and not empty.\<close>

definition given :: "string option \<Rightarrow> string option" where
  "given arg = (case arg of None \<Rightarrow> None | Some [] \<Rightarrow> None | Some path \<Rightarrow> Some path)"

definition initial_config :: "cmdline \<Rightarrow> config" where
  "initial_config vm =
     (let g = \<lparr>in_args = opt_input_files vm, out_args = opt_output_files vm, srcdir_abs_path = [], resdir_abs_path = [],
            generator_path_arg = opt_generator_path vm, threads_arg = opt_threads vm,
            single_task_timeout = (if opt_single_task_timeout vm \<noteq> 0 then Some (opt_single_task_timeout vm) else None),
            global_timeout = (if opt_global_timeout vm \<noteq> 0 then Some (opt_global_timeout vm) else None)\<rparr>
      in if custom_generator g then g\<lparr>threads_arg := 1\<rparr> else g)"

text \<open>
  The custom generator is read before the source directory is set, so its path is relative to the current
  directory; the source of the generator is run once.
\<close>

definition load_generator :: "'s tool \<Rightarrow> config \<Rightarrow> string list \<Rightarrow> ('s, unit) io" where
  "load_generator tool g extra_args =
     (if \<not> cling_is_on tool then io_terminate
      else io_bind (readFile (tool_os tool) (srcdir_abs_path g) (case generator_path_arg g of None \<Rightarrow> [] | Some p \<Rightarrow> p))
        (\<lambda>generator_file_contents.
         io_bind (createInterpreter (tool_cling tool) extra_args) (\<lambda>_.
           if generator_file_contents \<noteq> [] then processCode (tool_cling tool) generator_file_contents
           else if debug (tool_build tool) then io_terminate else io_return ())))"

text \<open>
  The part of \<open>main\<close> inside its \<open>try\<close>: \<open>Inl\<close> of an exit code or \<open>Inr\<close> of the configuration. The branch
  that would make up output names is behind a check that has already returned.
\<close>

definition main_arguments :: "'s tool \<Rightarrow> string list \<Rightarrow> cmdline run \<Rightarrow> ('s, int + cmdline \<times> config) io" where
  "main_arguments tool argv parsed =
     io_bind (io_run parsed) (\<lambda>vm.
     io_bind (init_tool (tool_startup tool) argv (opt_log vm)) (\<lambda>_.
     io_bind (io_run (if cling_is_on tool then forward_options (opt_unregistered vm) else Ret [])) (\<lambda>extra_args.
       if opt_help vm then io_return (Inl EXIT_SUCCESS)
       else if opt_version vm then io_return (Inl EXIT_SUCCESS)
       else
         let g = initial_config vm in
         io_bind (if custom_generator g then load_generator tool g extra_args else io_return ()) (\<lambda>_.
           if in_args g = [] then io_return (Inl EXIT_FAILURE)
           else if out_args g = [] then io_return (Inl EXIT_FAILURE)
           else
             let g = g\<lparr>in_args := fix_inputs (in_args g), out_args := fix_inputs (out_args g)\<rparr> in
             if length (in_args g) \<noteq> length (out_args g) then io_return (Inl EXIT_FAILURE)
             else io_return (Inr (vm, g))))))"

text \<open>The directories: the source directory becomes the current one before the output directory is made absolute.\<close>

definition main_srcdir :: "'s os \<Rightarrow> string option \<Rightarrow> ('s, int + string) io" where
  "main_srcdir os srcdir_arg =
     io_bind (io_bind (os_current_path os) (absolute_path os)) (\<lambda>current.
       case given srcdir_arg of
         None \<Rightarrow> io_return (Inr current)
       | Some srcdir \<Rightarrow>
           io_bind (absolute_path os srcdir) (\<lambda>srcdir_abs_path.
           io_bind (os_is_directory os srcdir_abs_path) (\<lambda>is_dir.
             if \<not> is_dir then io_return (Inl EXIT_FAILURE)
             else io_bind (os_set_current_path os srcdir) (\<lambda>_. io_return (Inr srcdir_abs_path)))))"

definition main_resdir :: "'s os \<Rightarrow> string option \<Rightarrow> ('s, string) io" where
  "main_resdir os resdir_arg =
     io_bind (io_bind (os_current_path os) (absolute_path os)) (\<lambda>current.
       case given resdir_arg of
         None \<Rightarrow> io_return current
       | Some resdir \<Rightarrow>
           io_bind (absolute_path os resdir) (\<lambda>resdir_abs_path.
           io_bind (os_is_directory os resdir_abs_path) (\<lambda>is_dir.
             if \<not> is_dir then io_bind (os_create_directories os resdir_abs_path) (\<lambda>_. io_return resdir_abs_path)
             else io_return resdir_abs_path)))"

definition main_generation :: "'s tool \<Rightarrow> (task \<Rightarrow> int) \<Rightarrow> nat list \<Rightarrow> cmdline \<Rightarrow> config \<Rightarrow> ('s, int) io" where
  "main_generation tool waited sched vm g =
     io_bind (initialize_icu (tool_build tool) (tool_startup tool)) (\<lambda>_.
     io_bind (main_srcdir (tool_os tool) (opt_srcdir vm)) (\<lambda>src.
       case src of
         Inl code \<Rightarrow> io_return code
       | Inr srcdir \<Rightarrow>
           io_bind (main_resdir (tool_os tool) (opt_resdir vm)) (\<lambda>resdir.
           io_bind (run_generation tool (g\<lparr>srcdir_abs_path := srcdir, resdir_abs_path := resdir\<rparr>) waited sched) (\<lambda>_.
             io_return EXIT_SUCCESS))))"

text \<open>The catch clauses of \<open>main\<close>, and an exception that leaves \<open>main\<close>.\<close>

definition catch_all :: "('s, 'a) io \<Rightarrow> 'a \<Rightarrow> ('s, 'a) io" where
  "catch_all m x = (\<lambda>s. case m s of (Raise e, t) \<Rightarrow> (Ret x, t) | rt \<Rightarrow> rt)"

definition uncaught :: "('s, 'a) io \<Rightarrow> ('s, 'a) io" where
  "uncaught m = (\<lambda>s. case m s of (Raise e, t) \<Rightarrow> (Terminated, t) | rt \<Rightarrow> rt)"

definition tool_main :: "'s tool \<Rightarrow> (task \<Rightarrow> int) \<Rightarrow> nat list \<Rightarrow> string list \<Rightarrow> cmdline run \<Rightarrow> ('s, int) io" where
  "tool_main tool waited sched argv parsed =
     uncaught (io_bind (catch_all (main_arguments tool argv parsed) (Inl EXIT_FAILURE)) (\<lambda>r.
       case r of
         Inl code \<Rightarrow> io_return code
       | Inr (vm, g) \<Rightarrow> main_generation tool waited sched vm g))"

lemma ensures_catch_all [ensures_simps]:
  "ensures (catch_all m x) s Q \<longleftrightarrow> ensures m s (\<lambda>r t. case r of Raise e \<Rightarrow> Q (Ret x) t | _ \<Rightarrow> Q r t)"
  by (auto simp: ensures_def catch_all_def split: prod.split run.split)

lemma ensures_uncaught [ensures_simps]:
  "ensures (uncaught m) s Q \<longleftrightarrow> ensures m s (\<lambda>r t. case r of Raise e \<Rightarrow> Q Terminated t | _ \<Rightarrow> Q r t)"
  by (auto simp: ensures_def uncaught_def split: prod.split run.split)

section \<open>What \<open>main\<close> does with its arguments\<close>

text \<open>A directory option against the current directory, and the configuration of a run.\<close>

definition dir_of :: "string \<Rightarrow> string option \<Rightarrow> string" where
  "dir_of cwd arg = (case given arg of None \<Rightarrow> cwd | Some dir \<Rightarrow> in_dir cwd dir)"

definition final_config :: "cmdline \<Rightarrow> string \<Rightarrow> config" where
  "final_config vm cwd =
     (initial_config vm)\<lparr>in_args := fix_inputs (opt_input_files vm), out_args := fix_inputs (opt_output_files vm),
        srcdir_abs_path := dir_of cwd (opt_srcdir vm), resdir_abs_path := dir_of (dir_of cwd (opt_srcdir vm)) (opt_resdir vm)\<rparr>"

definition bad_arguments :: "cmdline \<Rightarrow> bool" where
  "bad_arguments vm \<longleftrightarrow> opt_input_files vm = [] \<or> opt_output_files vm = [] \<or>
     length (fix_inputs (opt_input_files vm)) \<noteq> length (fix_inputs (opt_output_files vm))"

lemma is_absolute_join: "is_absolute cwd \<Longrightarrow> is_absolute (path_join cwd p)"
  by (cases cwd) (auto simp: is_absolute_def path_join_def)

lemma is_absolute_in_dir: "is_absolute cwd \<Longrightarrow> is_absolute (in_dir cwd p)"
  by (simp add: in_dir_def is_absolute_join)

lemma is_absolute_dir_of: "is_absolute cwd \<Longrightarrow> is_absolute (dir_of cwd arg)"
  by (simp add: dir_of_def is_absolute_in_dir split: option.split)

lemma initial_config_args [simp]:
  "in_args (initial_config vm) = opt_input_files vm" "out_args (initial_config vm) = opt_output_files vm"
  "generator_path_arg (initial_config vm) = opt_generator_path vm"
  by (simp_all add: initial_config_def Let_def)

lemma main_arguments_eq:
  assumes "\<not> custom_generator (initial_config vm)"
  shows "main_arguments tool argv (Ret vm) =
    io_bind (init_tool (tool_startup tool) argv (opt_log vm)) (\<lambda>_.
      io_return (if opt_help vm \<or> opt_version vm then Inl EXIT_SUCCESS
       else if bad_arguments vm then Inl EXIT_FAILURE
       else Inr (vm, (initial_config vm)\<lparr>in_args := fix_inputs (opt_input_files vm), out_args := fix_inputs (opt_output_files vm)\<rparr>)))"
  using assms
  by (auto simp: main_arguments_def io_bind_def io_run_def io_return_def bad_arguments_def Let_def
      forward_options_Ret fun_eq_iff split: prod.split run.split)

context posix
begin

lemma absolute_path_in_dir:
  "ensures (absolute_path os p) s (\<lambda>r t. content t = content s \<and> cwd t = cwd s \<and>
     (r = Raise System_error \<or> r = Ret (in_dir (cwd s) p)))"
  unfolding in_dir_def by (rule absolute_path_law)

lemma current_directory_law:
  assumes "is_absolute (cwd s)"
  shows "ensures (io_bind (os_current_path os) (absolute_path os)) s (\<lambda>r t. content t = content s \<and> cwd t = cwd s \<and>
    (r = Ret (cwd s) \<or> r = Raise System_error))"
  unfolding ensures_bind
  by (rule ensures_mono [OF current_path_law]) (use assms in \<open>auto simp: absolute_path_def ensures_simps\<close>)

lemma main_srcdir_law:
  assumes "is_absolute (cwd s)"
  shows "ensures (main_srcdir os arg) s (\<lambda>r t. content t = content s \<and>
    (r = Raise System_error \<or> r = Ret (Inl EXIT_FAILURE) \<or> r = Ret (Inr (dir_of (cwd s) arg)) \<and> cwd t = dir_of (cwd s) arg))"
proof (cases "given arg")
  case None
  then show ?thesis
    unfolding main_srcdir_def ensures_bind [of "io_bind _ _"]
    by (intro ensures_mono [OF current_directory_law [OF assms]]) (auto simp: dir_of_def ensures_simps)
next
  case (Some dir)
  define Q where "Q = (\<lambda>r t. content t = content s \<and>
    (r = Raise System_error \<or> r = Ret (Inl EXIT_FAILURE) \<or> r = Ret (Inr (in_dir (cwd s) dir)) \<and> cwd t = in_dir (cwd s) dir))"
  have Q_raise: "content u = content s \<Longrightarrow> Q (Raise System_error) u" for u by (simp add: Q_def)
  have chdir: "ensures (io_bind (os_set_current_path os dir) (\<lambda>_. io_return (Inr (in_dir (cwd s) dir)))) u Q"
    if "content u = content s" "cwd u = cwd s" for u
    unfolding ensures_bind
    by (rule ensures_mono [OF chdir_law]) (use that in \<open>auto simp: ensures_simps Q_def in_dir_def\<close>)
  have checked: "ensures (io_bind (os_is_directory os (in_dir (cwd s) dir)) (\<lambda>is_dir. if \<not> is_dir then io_return (Inl EXIT_FAILURE)
      else io_bind (os_set_current_path os dir) (\<lambda>_. io_return (Inr (in_dir (cwd s) dir))))) u Q"
    if "content u = content s" "cwd u = cwd s" for u
    unfolding ensures_bind [of "os_is_directory os _"]
    by (rule ensures_mono [OF is_directory_law]) (use that Q_raise chdir in \<open>auto simp: ensures_return Q_def\<close>)
  have absolute: "ensures (io_bind (absolute_path os dir) (\<lambda>p. io_bind (os_is_directory os p)
      (\<lambda>is_dir. if \<not> is_dir then io_return (Inl EXIT_FAILURE)
      else io_bind (os_set_current_path os dir) (\<lambda>_. io_return (Inr p))))) u Q"
    if "content u = content s" "cwd u = cwd s" for u
    unfolding ensures_bind [of "absolute_path os _"]
    by (rule ensures_mono [OF absolute_path_in_dir]) (use that Q_raise checked in auto)
  have "ensures (main_srcdir os arg) s Q"
    unfolding main_srcdir_def Some option.case ensures_bind [of "io_bind _ _"]
    by (rule ensures_mono [OF current_directory_law [OF assms]]) (auto intro: absolute Q_raise)
  then show ?thesis unfolding Q_def dir_of_def Some option.case .
qed

lemma main_resdir_law:
  assumes "is_absolute (cwd s)"
  shows "ensures (main_resdir os arg) s (\<lambda>r t. content t = content s \<and>
    (r = Raise System_error \<or> r = Ret (dir_of (cwd s) arg) \<and> cwd t = cwd s))"
proof (cases "given arg")
  case None
  then show ?thesis
    unfolding main_resdir_def ensures_bind [of "io_bind _ _"]
    by (intro ensures_mono [OF current_directory_law [OF assms]]) (auto simp: dir_of_def ensures_simps)
next
  case (Some dir)
  define Q where "Q = (\<lambda>r t. content t = content s \<and>
    (r = Raise System_error \<or> r = Ret (in_dir (cwd s) dir) \<and> cwd t = cwd s))"
  have Q_raise: "content u = content s \<Longrightarrow> Q (Raise System_error) u" for u by (simp add: Q_def)
  have created: "ensures (io_bind (os_create_directories os (in_dir (cwd s) dir)) (\<lambda>_. io_return (in_dir (cwd s) dir))) u Q"
    if "content u = content s" "cwd u = cwd s" for u
    unfolding ensures_bind
    by (rule ensures_mono [OF create_directories_law]) (use that in \<open>auto simp: ensures_simps Q_def\<close>)
  have checked: "ensures (io_bind (os_is_directory os (in_dir (cwd s) dir)) (\<lambda>is_dir. if \<not> is_dir
      then io_bind (os_create_directories os (in_dir (cwd s) dir)) (\<lambda>_. io_return (in_dir (cwd s) dir))
      else io_return (in_dir (cwd s) dir))) u Q"
    if "content u = content s" "cwd u = cwd s" for u
    unfolding ensures_bind [of "os_is_directory os _"]
    by (rule ensures_mono [OF is_directory_law]) (use that Q_raise created in \<open>auto simp: ensures_return Q_def\<close>)
  have absolute: "ensures (io_bind (absolute_path os dir) (\<lambda>p. io_bind (os_is_directory os p)
      (\<lambda>is_dir. if \<not> is_dir then io_bind (os_create_directories os p) (\<lambda>_. io_return p) else io_return p))) u Q"
    if "content u = content s" "cwd u = cwd s" for u
    unfolding ensures_bind [of "absolute_path os _"]
    by (rule ensures_mono [OF absolute_path_in_dir]) (use that Q_raise checked in auto)
  have "ensures (main_resdir os arg) s Q"
    unfolding main_resdir_def Some option.case ensures_bind [of "io_bind _ _"]
    by (rule ensures_mono [OF current_directory_law [OF assms]]) (auto intro: absolute Q_raise)
  then show ?thesis unfolding Q_def dir_of_def Some option.case .
qed

lemma main_generation_law:
  fixes vm :: cmdline and g :: config and s :: 's
  defines "h \<equiv> g\<lparr>srcdir_abs_path := dir_of (cwd s) (opt_srcdir vm), resdir_abs_path := dir_of (dir_of (cwd s) (opt_srcdir vm)) (opt_resdir vm)\<rparr>"
  assumes "tool_os tool = os" "\<not> custom_generator g" "is_absolute (cwd s)"
    and quiet: "quiet_startup (tool_startup tool) content cwd"
    and len: "length (in_args g) = length (out_args g)"
    and sep: "separate (scope_of h (srcdir_abs_path h))"
  shows "ensures (main_generation tool waited sched vm g) s (\<lambda>r t. r = Ret EXIT_SUCCESS \<longrightarrow>
    (\<forall>i < length (in_args g). translated tool content cwd (scope_of h (srcdir_abs_path h)) s (task_of h i) t))"
proof -
  define Q where "Q = (\<lambda>r t. r = Ret EXIT_SUCCESS \<longrightarrow>
    (\<forall>i < length (in_args g). translated tool content cwd (scope_of h (srcdir_abs_path h)) s (task_of h i) t))"
  have Q_other: "r \<noteq> Ret EXIT_SUCCESS \<Longrightarrow> Q r u" for r u by (simp add: Q_def)
  have h: "in_args h = in_args g" "out_args h = out_args g" "\<not> custom_generator h"
    "is_absolute (srcdir_abs_path h)" "is_absolute (resdir_abs_path h)"
    using assms(3,4) by (simp_all add: h_def custom_generator_def is_absolute_dir_of)
  have run: "ensures (io_bind (run_generation tool h waited sched) (\<lambda>_. io_return EXIT_SUCCESS)) u Q"
    if u: "cwd u = srcdir_abs_path h" "content u = content s" for u
  proof -
    have "is_absolute (cwd u)" "separate (scope_of h (cwd u))" "length (in_args h) = length (out_args h)"
      using u sep len h by simp_all
    note complete = run_generation_complete [OF assms(2) h(3-5) this]
    have "ensures (run_generation tool h waited sched) u (\<lambda>r t. r = Ret () \<longrightarrow> Q (Ret EXIT_SUCCESS) t)"
      unfolding ensures_def
    proof (clarsimp simp: Q_def split: prod.split)
      fix t i
      assume "run_generation tool h waited sched u = (Ret (), t)" "i < length (in_args g)"
      then have "translated tool content cwd (scope_of h (cwd u)) u (task_of h i) t" by (intro complete) (simp_all add: h)
      then show "translated tool content cwd (scope_of h (srcdir_abs_path h)) s (task_of h i) t"
        unfolding u(1) by (simp add: translated_same [OF u(2)])
    qed
    then show ?thesis unfolding ensures_bind
      by (rule ensures_mono) (auto simp: ensures_return Q_other split: run.split)
  qed
  have dirs: "ensures (io_bind (main_resdir os (opt_resdir vm)) (\<lambda>resdir.
      io_bind (run_generation tool (g\<lparr>srcdir_abs_path := dir_of (cwd s) (opt_srcdir vm), resdir_abs_path := resdir\<rparr>) waited sched) (\<lambda>_.
        io_return EXIT_SUCCESS))) u Q" if u: "cwd u = dir_of (cwd s) (opt_srcdir vm)" "content u = content s" for u
  proof -
    have abs: "is_absolute (cwd u)" using u assms(4) by (simp add: is_absolute_dir_of)
    have ran: "ensures (io_bind (run_generation tool (g\<lparr>srcdir_abs_path := dir_of (cwd s) (opt_srcdir vm),
        resdir_abs_path := dir_of (dir_of (cwd s) (opt_srcdir vm)) (opt_resdir vm)\<rparr>) waited sched) (\<lambda>_. io_return EXIT_SUCCESS)) v Q"
      if "cwd v = dir_of (cwd s) (opt_srcdir vm)" "content v = content s" for v
      by (rule run [unfolded h_def]) (use that in simp_all)
    show ?thesis unfolding ensures_bind [of "main_resdir _ _"]
      by (rule ensures_mono [OF main_resdir_law [OF abs]]) (use u ran in \<open>auto simp: Q_other\<close>)
  qed
  have neq: "EXIT_FAILURE \<noteq> EXIT_SUCCESS" by (simp add: EXIT_FAILURE_def EXIT_SUCCESS_def)
  have src: "ensures (io_bind (main_srcdir os (opt_srcdir vm)) (\<lambda>src. case src of Inl code \<Rightarrow> io_return code
      | Inr srcdir \<Rightarrow> io_bind (main_resdir os (opt_resdir vm)) (\<lambda>resdir.
          io_bind (run_generation tool (g\<lparr>srcdir_abs_path := srcdir, resdir_abs_path := resdir\<rparr>) waited sched) (\<lambda>_.
            io_return EXIT_SUCCESS)))) u Q" if "cwd u = cwd s" "content u = content s" for u
  proof -
    have "is_absolute (cwd u)" using that assms(4) by simp
    from main_srcdir_law [OF this] show ?thesis
      unfolding ensures_bind [of "main_srcdir _ _"]
      by (rule ensures_mono) (use that neq in \<open>auto simp: ensures_return Q_other intro: dirs\<close>)
  qed
  have "ensures (main_generation tool waited sched vm g) s Q"
    unfolding main_generation_def assms(2) ensures_bind [of "initialize_icu _ _"]
    by (rule ensures_mono [OF quiet_startup.initialize_icu_law [OF quiet]]) (auto simp: Q_other intro: src split: run.split)
  then show ?thesis unfolding Q_def .
qed

end

lemma tool_main_arguments:
  assumes "\<not> custom_generator (initial_config vm)"
  shows "tool_main tool waited sched argv (Ret vm) s =
    (case init_tool (tool_startup tool) argv (opt_log vm) s of
       (Ret _, u) \<Rightarrow>
         if opt_help vm \<or> opt_version vm then (Ret EXIT_SUCCESS, u)
         else if bad_arguments vm then (Ret EXIT_FAILURE, u)
         else uncaught (main_generation tool waited sched vm ((initial_config vm)
           \<lparr>in_args := fix_inputs (opt_input_files vm), out_args := fix_inputs (opt_output_files vm)\<rparr>)) u
     | (Raise e, u) \<Rightarrow> (Ret EXIT_FAILURE, u)
     | (Terminated, u) \<Rightarrow> (Terminated, u)
     | (Pending, u) \<Rightarrow> (Pending, u))"
  by (simp add: tool_main_def uncaught_def io_bind_def catch_all_def main_arguments_eq [OF assms] io_return_def split: prod.split run.split)

section \<open>Properties\<close>


definition example_cmdline :: "string list \<Rightarrow> string list \<Rightarrow> cmdline" where
  "example_cmdline ins outs = \<lparr>opt_help = False, opt_version = False, opt_threads = 2, opt_log = None,
     opt_global_timeout = 0, opt_single_task_timeout = 0, opt_resdir = Some ''/out'', opt_srcdir = Some ''/src'',
     opt_input_files = ins, opt_generator_path = None, opt_output_files = outs, opt_unregistered = []\<rparr>"


lemma main_translates:
  assumes "posix os content cwd writing unread" "tool_os tool = os" "\<not> custom_generator (initial_config vm)" "is_absolute (cwd s)"
    and quiet: "quiet_startup (tool_startup tool) content cwd"
    and g: "g = final_config vm (cwd s)" and sc: "sc = scope_of g (srcdir_abs_path g)"
    and "separate sc" "race_free g (srcdir_abs_path g)"
    and run: "tool_main tool waited sched argv (Ret vm) s = (Ret EXIT_SUCCESS, t)" "\<not> opt_help vm" "\<not> opt_version vm"
  shows "length (in_args g) = length (out_args g) \<and>
    (\<forall>i < length (in_args g). \<exists>code. translation tool content cwd sc s (in_dir (srcdir_abs_path g) (in_args g ! i)) code \<and>
      (code = [] \<or> content t (in_dir (resdir_abs_path g) (out_args g ! i)) = Some code))"
proof -
  let ?g = "(initial_config vm)\<lparr>in_args := fix_inputs (opt_input_files vm), out_args := fix_inputs (opt_output_files vm)\<rparr>"
  have neq: "EXIT_FAILURE \<noteq> EXIT_SUCCESS" by (simp add: EXIT_FAILURE_def EXIT_SUCCESS_def)
  obtain u where args: "\<not> bad_arguments vm" and init: "init_tool (tool_startup tool) argv (opt_log vm) s = (Ret (), u)"
    and gen: "uncaught (main_generation tool waited sched vm ?g) u = (Ret EXIT_SUCCESS, t)"
    using run neq by (auto simp: tool_main_arguments [OF assms(3)] split: prod.splits run.splits if_splits)
  have same_files: "content u = content s" "cwd u = cwd s"
    using ensuresD [OF quiet_startup.init_tool_law [OF quiet] init] by simp_all
  have len: "length (in_args g) = length (out_args g)"
    using args by (simp add: g final_config_def bad_arguments_def)
  have ran: "main_generation tool waited sched vm ?g u = (Ret EXIT_SUCCESS, t)"
    using gen by (auto simp: uncaught_def split: prod.splits run.splits)
  have h: "?g\<lparr>srcdir_abs_path := dir_of (cwd s) (opt_srcdir vm),
      resdir_abs_path := dir_of (dir_of (cwd s) (opt_srcdir vm)) (opt_resdir vm)\<rparr> = g"
    by (simp add: g final_config_def)
  have same: "\<not> custom_generator ?g" "in_args ?g = in_args g" "out_args ?g = out_args g"
    using assms(3) by (simp_all add: g final_config_def custom_generator_def)
  have sep: "separate (scope_of g (srcdir_abs_path g))" using assms(8) sc by simp
  have abs: "is_absolute (cwd u)" using assms(4) same_files by simp
  have law: "ensures (main_generation tool waited sched vm ?g) u (\<lambda>r t. r = Ret EXIT_SUCCESS \<longrightarrow>
      (\<forall>i < length (in_args ?g). translated tool content cwd (scope_of g (srcdir_abs_path g)) u (task_of g i) t))"
    by (rule posix.main_generation_law [OF assms(1,2) same(1) abs quiet, of vm waited sched, unfolded same_files(2) h])
      (simp only: same len, rule sep)
  have "\<forall>i < length (in_args ?g). translated tool content cwd (scope_of g (srcdir_abs_path g)) u (task_of g i) t"
    by (rule mp [OF ensuresD [OF law ran] refl])
  then have translated: "translated tool content cwd (scope_of g (srcdir_abs_path g)) s (task_of g i) t" if "i < length (in_args g)" for i
    using that unfolding same(2) translated_same [OF same_files(1), symmetric] by blast
  show ?thesis
    unfolding sc using len race_free_translated [OF translated assms(9) _ len] by (intro conjI allI impI) assumption+
qed


lemma main_directories:
  assumes "d = plain_disk m ''/'' ws rs n [''/'', ''/out'', ''/src'']"
  shows "main_srcdir disk_os (Some ''/src'') d = (Ret (Inr ''/src''), d\<lparr>disk_cwd := ''/src''\<rparr>)"
    "main_resdir disk_os (Some ''/out'') (d\<lparr>disk_cwd := ''/src''\<rparr>) = (Ret ''/out'', d\<lparr>disk_cwd := ''/src''\<rparr>)"
  by (simp_all add: assms main_srcdir_def main_resdir_def given_def io_bind_def io_return_def
      absolute_path_def is_absolute_def disk_os_def disk_simple_def plain_disk_def)

text \<open>One thread, names relative to the two directories.\<close>

definition example_vm :: cmdline where
  "example_vm = (example_cmdline [''a.cxtpl''] [''a.cpp''])\<lparr>opt_threads := 1\<rparr>"

lemma example_vm_config:
  "final_config example_vm ''/'' = one_template\<lparr>threads_arg := 1\<rparr>" "\<not> bad_arguments example_vm"
  "\<not> custom_generator (initial_config example_vm)"
proof -
  have "fix_inputs [''a.cxtpl''] = [''a.cxtpl'']" "fix_inputs [''a.cpp''] = [''a.cpp'']" by code_simp+
  moreover have "dir_of ''/'' (Some ''/src'') = ''/src''" "dir_of ''/src'' (Some ''/out'') = ''/out''" by code_simp+
  ultimately show "final_config example_vm ''/'' = one_template\<lparr>threads_arg := 1\<rparr>"
    by (simp add: final_config_def example_vm_def example_cmdline_def initial_config_def one_template_def example_config_def
        custom_generator_def Let_def)
  show "\<not> bad_arguments example_vm" by code_simp
  show "\<not> custom_generator (initial_config example_vm)" by (simp add: custom_generator_def example_vm_def example_cmdline_def)
qed

text \<open>The run of \<open>main\<close> on it.\<close>

abbreviation main_disk :: disk where
  "main_disk \<equiv> start_disk\<lparr>disk_cwd := ''/''\<rparr>"

lemma example_main_run:
  "\<exists>t. tool_main example_tool (\<lambda>_. 0) first_thread [''CXTPL_tool''] (Ret example_vm) main_disk = (Ret EXIT_SUCCESS, t)"
proof -
  let ?g = "one_template\<lparr>threads_arg := 1\<rparr>"
  have start: "main_disk\<lparr>disk_cwd := ''/src''\<rparr> = start_disk"
    by (simp add: start_disk_def plain_disk_def)
  have g: "?g \<in> {one_template, two_templates, one_template\<lparr>threads_arg := 1\<rparr>}" by simp
  note facts = example_facts [OF g]
  obtain t where t: "run_generation example_tool ?g (\<lambda>_. 0) first_thread start_disk = (Ret (), t)"
    using one_template_run [of ?g] by blast
  have "main_disk = plain_disk (disk_files start_disk) ''/'' Map.empty (\<lambda>_. []) 0 [''/'', ''/out'', ''/src'']"
    by (simp add: start_disk_def plain_disk_def)
  note main = main_directories [OF this, unfolded start]
  have vm: "opt_srcdir example_vm = Some ''/src''" "opt_resdir example_vm = Some ''/out''" "\<not> opt_help example_vm"
    "\<not> opt_version example_vm" "opt_log example_vm = None"
    by (simp_all add: example_vm_def example_cmdline_def)
  let ?h = "(initial_config example_vm)\<lparr>in_args := fix_inputs (opt_input_files example_vm), out_args := fix_inputs (opt_output_files example_vm)\<rparr>"
  have h: "?h\<lparr>srcdir_abs_path := ''/src'', resdir_abs_path := ''/out''\<rparr> = ?g"
  proof -
    have "dir_of ''/'' (Some ''/src'') = ''/src''" "dir_of ''/src'' (Some ''/out'') = ''/out''" by code_simp+
    then show ?thesis unfolding example_vm_config(1) [symmetric] by (simp add: final_config_def vm)
  qed
  have startup: "tool_startup example_tool = plain_startup" by (simp add: example_tool_def)
  have "main_generation example_tool (\<lambda>_. 0) first_thread example_vm ?h main_disk = (Ret EXIT_SUCCESS, t)"
    unfolding main_generation_def vm facts(6)
    using main t by (simp add: io_bind_def h io_return_def startup)
  then show ?thesis
    by (simp add: tool_main_arguments [OF example_vm_config(3)] vm example_vm_config(2) uncaught_def startup)
qed

lemma example_main_facts:
  "posix disk_os disk_files disk_cwd disk_writers disk_readers" "tool_os example_tool = disk_os" "\<not> custom_generator (initial_config example_vm)"
  "is_absolute (disk_cwd main_disk)" "quiet_startup (tool_startup example_tool) disk_files disk_cwd"
  "one_template\<lparr>threads_arg := 1\<rparr> = final_config example_vm (disk_cwd main_disk)"
  "separate (scope_of (one_template\<lparr>threads_arg := 1\<rparr>) (srcdir_abs_path (one_template\<lparr>threads_arg := 1\<rparr>)))"
  "race_free (one_template\<lparr>threads_arg := 1\<rparr>) (srcdir_abs_path (one_template\<lparr>threads_arg := 1\<rparr>))"
  "\<not> opt_help example_vm" "\<not> opt_version example_vm"
proof -
  have g: "one_template\<lparr>threads_arg := 1\<rparr> \<in> {one_template, two_templates, one_template\<lparr>threads_arg := 1\<rparr>}" by simp
  note facts = example_facts [OF g]
  have src: "srcdir_abs_path (one_template\<lparr>threads_arg := 1\<rparr>) = ''/src''" by (simp add: one_template_def example_config_def)
  show "posix disk_os disk_files disk_cwd disk_writers disk_readers" by (rule disk.posix_axioms)
  show "tool_os example_tool = disk_os" by (rule facts(6))
  show "\<not> custom_generator (initial_config example_vm)" by (rule example_vm_config(3))
  show "is_absolute (disk_cwd main_disk)" by (simp add: is_absolute_def)
  show "quiet_startup (tool_startup example_tool) disk_files disk_cwd"
    using plain_startup.quiet_startup_axioms by (simp add: example_tool_def)
  show "one_template\<lparr>threads_arg := 1\<rparr> = final_config example_vm (disk_cwd main_disk)" using example_vm_config(1) by simp
  show "separate (scope_of (one_template\<lparr>threads_arg := 1\<rparr>) (srcdir_abs_path (one_template\<lparr>threads_arg := 1\<rparr>)))"
    using facts(10) unfolding src .
  show "race_free (one_template\<lparr>threads_arg := 1\<rparr>) (srcdir_abs_path (one_template\<lparr>threads_arg := 1\<rparr>))" by (simp add: race_free_def)
  show "\<not> opt_help example_vm" "\<not> opt_version example_vm" by (simp_all add: example_vm_def example_cmdline_def)
qed

lemma example_main_paths:
  "srcdir_abs_path (one_template\<lparr>threads_arg := 1\<rparr>) = ''/src''" "in_dir ''/src'' ''a.cxtpl'' = ''/src/a.cxtpl''"
  "resdir_abs_path (one_template\<lparr>threads_arg := 1\<rparr>) = ''/out''" "in_dir ''/out'' ''a.cpp'' = ''/out/a.cpp''"
  "in_args (one_template\<lparr>threads_arg := 1\<rparr>) = [''a.cxtpl'']" "out_args (one_template\<lparr>threads_arg := 1\<rparr>) = [''a.cpp'']"
proof -
  show "in_dir ''/src'' ''a.cxtpl'' = ''/src/a.cxtpl''" "in_dir ''/out'' ''a.cpp'' = ''/out/a.cpp''" by code_simp+
qed (simp_all add: one_template_def example_config_def)


section \<open>Every way a run of \<open>main\<close> can end\<close>

text \<open>All values a computation can return satisfy a predicate, from every state.\<close>

definition returns_only :: "('a \<Rightarrow> bool) \<Rightarrow> ('s, 'a) io \<Rightarrow> bool" where
  "returns_only P m \<longleftrightarrow> (\<forall>s x t. m s = (Ret x, t) \<longrightarrow> P x)"

named_theorems returns_intros

lemma returns_bind [returns_intros]: "(\<And>x. returns_only P (k x)) \<Longrightarrow> returns_only P (io_bind m k)"
  by (auto simp: returns_only_def io_bind_def split: prod.splits run.splits)

lemma returns_return [returns_intros]: "P x \<Longrightarrow> returns_only P (io_return x)"
  by (simp add: returns_only_def io_return_def)

lemma returns_if [returns_intros]:
  "(b \<Longrightarrow> returns_only P m) \<Longrightarrow> (\<not> b \<Longrightarrow> returns_only P n) \<Longrightarrow> returns_only P (if b then m else n)"
  by simp

lemma returns_option [returns_intros]:
  "returns_only P m \<Longrightarrow> (\<And>x. returns_only P (k x)) \<Longrightarrow> returns_only P (case arg of None \<Rightarrow> m | Some x \<Rightarrow> k x)"
  by (simp split: option.split)

lemma returns_then:
  "returns_only P m \<Longrightarrow> (\<And>x. P x \<Longrightarrow> returns_only Q (k x)) \<Longrightarrow> returns_only Q (io_bind m k)"
  unfolding returns_only_def io_bind_def by (clarsimp split: prod.splits run.splits) blast

definition exit_or :: "int + 'a \<Rightarrow> bool" where
  "exit_or r = (case r of Inl code \<Rightarrow> code \<in> {EXIT_SUCCESS, EXIT_FAILURE} | Inr x \<Rightarrow> True)"

lemma exit_or_simps [simp]: "exit_or (Inl EXIT_SUCCESS)" "exit_or (Inl EXIT_FAILURE)" "exit_or (Inr x)"
  by (simp_all add: exit_or_def)

lemma main_arguments_returns: "returns_only exit_or (main_arguments tool argv parsed)"
  unfolding main_arguments_def Let_def by (intro returns_intros) simp_all

lemma main_srcdir_returns: "returns_only exit_or (main_srcdir os arg)"
  unfolding main_srcdir_def by (intro returns_intros) simp_all

lemma main_generation_returns:
  "returns_only (\<lambda>code. code \<in> {EXIT_SUCCESS, EXIT_FAILURE}) (main_generation tool waited sched vm g)"
  unfolding main_generation_def
proof (rule returns_bind, rule returns_then [OF main_srcdir_returns], goal_cases)
  case (1 _ src)
  then show ?case by (cases src) (auto intro!: returns_intros simp: exit_or_def)
qed


end
