(* ===== verification/Cxtpl_Workers.thy ===== *)
theory Cxtpl_Workers
  imports Cxtpl_Tool_Files "HOL-Library.Multiset"
begin

text \<open>
  The threads of \<open>run_generation\<close> (\<open>tool/src/main_native.cpp\<close>) and the one current directory they share.
  Each task saves the current directory, enters the source directory, makes the name of its template
  absolute, restores the directory, and does the same with the output directory and the name of its
  output. The steps of different threads interleave freely. This is the abstraction of the threads to the current directory: what the files
  hold, and what fails, is in \<open>Cxtpl_Threads\<close> and \<open>Cxtpl_Generation\<close>.
\<close>

section \<open>One thread\<close>

datatype phase =
    Idle
  | Read_save | Read_enter | Read_resolve | Read_restore
  | Write_save | Write_enter | Write_resolve | Write_restore

text \<open>The phases in the order in which a thread passes through them.\<close>

primrec phase_index :: "phase \<Rightarrow> nat" where
  "phase_index Idle = 0"
| "phase_index Read_save = 1"
| "phase_index Read_enter = 2"
| "phase_index Read_resolve = 3"
| "phase_index Read_restore = 4"
| "phase_index Write_save = 5"
| "phase_index Write_enter = 6"
| "phase_index Write_resolve = 7"
| "phase_index Write_restore = 8"

instantiation phase :: linorder
begin

definition less_eq_phase :: "phase \<Rightarrow> phase \<Rightarrow> bool" where
  "less_eq_phase p q \<longleftrightarrow> phase_index p \<le> phase_index q"

definition less_phase :: "phase \<Rightarrow> phase \<Rightarrow> bool" where
  "less_phase p q \<longleftrightarrow> phase_index p < phase_index q"

instance
proof
  fix p q :: phase
  show "p \<le> q \<Longrightarrow> q \<le> p \<Longrightarrow> p = q"
    by (cases p; cases q) (simp_all add: less_eq_phase_def)
qed (auto simp: less_eq_phase_def less_phase_def)

end

lemmas phase_order [simp] = less_eq_phase_def less_phase_def

type_synonym job = "string \<times> string"

record worker =
  worker_phase :: phase
  worker_job :: job
  worker_prev :: string
  worker_read :: string
  worker_write :: string

text \<open>
  The next access of a thread to the current directory \<open>cwd\<close>: in \<open>readFile\<close> and in \<open>processTemplate\<close>,
  the value captured by \<open>cleanup\<close>, the change of directory, the call of \<open>absolute\<close>, the run of \<open>cleanup\<close>.
\<close>

fun advance :: "string \<Rightarrow> string \<Rightarrow> string \<Rightarrow> worker \<Rightarrow> worker \<times> string" where
  "advance srcdir resdir cwd w =
     (case worker_phase w of
        Idle \<Rightarrow> (w, cwd)
      | Read_save \<Rightarrow> (w\<lparr>worker_prev := cwd, worker_phase := Read_enter\<rparr>, cwd)
      | Read_enter \<Rightarrow> (w\<lparr>worker_phase := Read_resolve\<rparr>, srcdir)
      | Read_resolve \<Rightarrow> (w\<lparr>worker_read := in_dir cwd (fst (worker_job w)), worker_phase := Read_restore\<rparr>, cwd)
      | Read_restore \<Rightarrow> (w\<lparr>worker_phase := Write_save\<rparr>, worker_prev w)
      | Write_save \<Rightarrow> (w\<lparr>worker_prev := cwd, worker_phase := Write_enter\<rparr>, cwd)
      | Write_enter \<Rightarrow> (w\<lparr>worker_phase := Write_resolve\<rparr>, resdir)
      | Write_resolve \<Rightarrow> (w\<lparr>worker_write := in_dir cwd (snd (worker_job w)), worker_phase := Write_restore\<rparr>, cwd)
      | Write_restore \<Rightarrow> (w\<lparr>worker_phase := Idle\<rparr>, worker_prev w))"

declare advance.simps [simp del]

section \<open>The pool\<close>

record pool_state =
  process_cwd :: string
  pool_queue :: "job list"
  pool_workers :: "worker list"
  pool_done :: "(job \<times> string \<times> string) list"

definition new_worker :: worker where
  "new_worker = \<lparr>worker_phase = Idle, worker_job = ([], []), worker_prev = [], worker_read = [], worker_write = []\<rparr>"

definition start_pool :: "nat \<Rightarrow> string \<Rightarrow> job list \<Rightarrow> pool_state" where
  "start_pool threads cwd jobs =
     \<lparr>process_cwd = cwd, pool_queue = jobs, pool_workers = replicate threads new_worker, pool_done = []\<rparr>"

text \<open>
  A thread takes the next task, makes its next access to the current directory, or ends its task: after
  the last access, or before the write when the template gives no code.
\<close>

inductive pool_step :: "string \<Rightarrow> string \<Rightarrow> pool_state \<Rightarrow> pool_state \<Rightarrow> bool" for srcdir resdir where
  take_task: "i < length (pool_workers s) \<Longrightarrow> pool_workers s ! i = w \<Longrightarrow> worker_phase w = Idle \<Longrightarrow> pool_queue s = j # js \<Longrightarrow>
    pool_step srcdir resdir s (s\<lparr>pool_queue := js, pool_workers := (pool_workers s)[i := w\<lparr>worker_phase := Read_save, worker_job := j\<rparr>]\<rparr>)"
| act: "i < length (pool_workers s) \<Longrightarrow> pool_workers s ! i = w \<Longrightarrow> worker_phase w \<noteq> Idle \<Longrightarrow> worker_phase w \<noteq> Write_restore \<Longrightarrow>
    advance srcdir resdir (process_cwd s) w = (w', cwd') \<Longrightarrow>
    pool_step srcdir resdir s (s\<lparr>process_cwd := cwd', pool_workers := (pool_workers s)[i := w']\<rparr>)"
| finish: "i < length (pool_workers s) \<Longrightarrow> pool_workers s ! i = w \<Longrightarrow> worker_phase w = Write_restore \<Longrightarrow>
    advance srcdir resdir (process_cwd s) w = (w', cwd') \<Longrightarrow>
    pool_step srcdir resdir s (s\<lparr>process_cwd := cwd', pool_workers := (pool_workers s)[i := w'],
      pool_done := (worker_job w, worker_read w, worker_write w) # pool_done s\<rparr>)"
| no_code: "i < length (pool_workers s) \<Longrightarrow> pool_workers s ! i = w \<Longrightarrow> worker_phase w = Write_save \<Longrightarrow>
    pool_step srcdir resdir s (s\<lparr>pool_workers := (pool_workers s)[i := w\<lparr>worker_phase := Idle\<rparr>],
      pool_done := (worker_job w, worker_read w, in_dir resdir (snd (worker_job w))) # pool_done s\<rparr>)"

inductive_cases pool_stepE: "pool_step srcdir resdir s t"

inductive reachable_pool :: "string \<Rightarrow> string \<Rightarrow> pool_state \<Rightarrow> pool_state \<Rightarrow> bool" for srcdir resdir s where
  start: "reachable_pool srcdir resdir s s"
| step: "reachable_pool srcdir resdir s t \<Longrightarrow> pool_step srcdir resdir t u \<Longrightarrow> reachable_pool srcdir resdir s u"

section \<open>Where a thread looks\<close>

text \<open>The invariant: only the two directories are ever entered, saved or used.\<close>

definition worker_ok :: "string \<Rightarrow> string \<Rightarrow> worker \<Rightarrow> bool" where
  "worker_ok srcdir resdir w \<longleftrightarrow>
     (Read_save < worker_phase w \<longrightarrow> worker_prev w \<in> {srcdir, resdir}) \<and>
     (Read_restore \<le> worker_phase w \<longrightarrow>
        worker_read w \<in> {in_dir srcdir (fst (worker_job w)), in_dir resdir (fst (worker_job w))}) \<and>
     (worker_phase w = Write_restore \<longrightarrow>
        worker_write w \<in> {in_dir srcdir (snd (worker_job w)), in_dir resdir (snd (worker_job w))})"

definition pool_ok :: "string \<Rightarrow> string \<Rightarrow> pool_state \<Rightarrow> bool" where
  "pool_ok srcdir resdir s \<longleftrightarrow> process_cwd s \<in> {srcdir, resdir} \<and>
     (\<forall>w \<in> set (pool_workers s). worker_ok srcdir resdir w) \<and>
     (\<forall>(job, r, w) \<in> set (pool_done s). r \<in> {in_dir srcdir (fst job), in_dir resdir (fst job)} \<and>
        w \<in> {in_dir srcdir (snd job), in_dir resdir (snd job)})"

lemma advance_ok:
  assumes "worker_ok srcdir resdir w" "cwd \<in> {srcdir, resdir}" "advance srcdir resdir cwd w = (w', cwd')"
  shows "worker_ok srcdir resdir w' \<and> cwd' \<in> {srcdir, resdir}"
  using assms by (cases "worker_phase w") (auto simp: worker_ok_def advance.simps)

lemma update_all: "\<forall>w \<in> set ws. P w \<Longrightarrow> P w' \<Longrightarrow> \<forall>w \<in> set (ws[i := w']). P w"
  by (auto dest!: subsetD [OF set_update_subset_insert])

lemma pool_ok_update:
  assumes "pool_ok srcdir resdir s" "cwd \<in> {srcdir, resdir}" "worker_ok srcdir resdir w'"
  shows "pool_ok srcdir resdir (s\<lparr>process_cwd := cwd, pool_workers := (pool_workers s)[i := w']\<rparr>)"
proof -
  have "\<forall>w \<in> set ((pool_workers s)[i := w']). worker_ok srcdir resdir w"
    by (rule update_all) (use assms in \<open>simp_all add: pool_ok_def\<close>)
  then show ?thesis using assms(1,2) by (simp add: pool_ok_def)
qed

lemma pool_ok_done:
  assumes "pool_ok srcdir resdir s" "r \<in> {in_dir srcdir (fst job), in_dir resdir (fst job)}"
    "w \<in> {in_dir srcdir (snd job), in_dir resdir (snd job)}"
  shows "pool_ok srcdir resdir (s\<lparr>pool_done := (job, r, w) # pool_done s\<rparr>)"
  using assms by (simp add: pool_ok_def)

lemma pool_ok_queue: "pool_ok srcdir resdir s \<Longrightarrow> pool_ok srcdir resdir (s\<lparr>pool_queue := js\<rparr>)"
  by (simp add: pool_ok_def)

lemma pool_step_ok: "pool_step srcdir resdir s t \<Longrightarrow> pool_ok srcdir resdir s \<Longrightarrow> pool_ok srcdir resdir t"
proof (induction rule: pool_step.induct)
  case (take_task i s w j js)
  have "worker_ok srcdir resdir (w\<lparr>worker_phase := Read_save, worker_job := j\<rparr>)"
    by (simp add: worker_ok_def)
  moreover have "process_cwd s \<in> {srcdir, resdir}" using take_task.prems by (simp add: pool_ok_def)
  ultimately show ?case
    using pool_ok_update [OF pool_ok_queue [OF take_task.prems], of "process_cwd s"] by simp
next
  case (act i s w w' cwd')
  then have "w \<in> set (pool_workers s)" by auto
  with act.prems have "worker_ok srcdir resdir w" "process_cwd s \<in> {srcdir, resdir}" unfolding pool_ok_def by blast+
  from advance_ok [OF this act.hyps(5)] show ?case by (intro pool_ok_update [OF act.prems]) simp_all
next
  case (finish i s w w' cwd')
  then have "w \<in> set (pool_workers s)" by auto
  with finish.prems have w: "worker_ok srcdir resdir w" "process_cwd s \<in> {srcdir, resdir}" unfolding pool_ok_def by blast+
  have rw: "worker_read w \<in> {in_dir srcdir (fst (worker_job w)), in_dir resdir (fst (worker_job w))}"
    "worker_write w \<in> {in_dir srcdir (snd (worker_job w)), in_dir resdir (snd (worker_job w))}"
    using w(1) finish.hyps(3) by (simp_all add: worker_ok_def)
  from advance_ok [OF w finish.hyps(4)] pool_ok_done [OF pool_ok_update [OF finish.prems] rw] show ?case by simp
next
  case (no_code i s w)
  then have "w \<in> set (pool_workers s)" by auto
  with no_code.prems have w: "worker_ok srcdir resdir w" "process_cwd s \<in> {srcdir, resdir}" unfolding pool_ok_def by blast+
  have ok: "worker_ok srcdir resdir (w\<lparr>worker_phase := Idle\<rparr>)" by (simp add: worker_ok_def)
  have r: "worker_read w \<in> {in_dir srcdir (fst (worker_job w)), in_dir resdir (fst (worker_job w))}"
    using w(1) no_code.hyps(3) by (simp add: worker_ok_def)
  show ?case
    using pool_ok_done [OF pool_ok_update [OF no_code.prems w(2) ok] r, of "in_dir resdir (snd (worker_job w))"] by simp
qed

lemma start_pool_ok: "cwd \<in> {srcdir, resdir} \<Longrightarrow> pool_ok srcdir resdir (start_pool n cwd jobs)"
  by (auto simp: pool_ok_def start_pool_def worker_ok_def new_worker_def)

lemma reachable_pool_ok:
  "reachable_pool srcdir resdir s t \<Longrightarrow> pool_ok srcdir resdir s \<Longrightarrow> pool_ok srcdir resdir t"
  by (induction rule: reachable_pool.induct) (auto intro: pool_step_ok)

section \<open>One thread has the directory for itself\<close>

definition alone_ok :: "string \<Rightarrow> string \<Rightarrow> string \<Rightarrow> pool_state \<Rightarrow> bool" where
  "alone_ok srcdir resdir cwd s \<longleftrightarrow> (\<exists>w. pool_workers s = [w] \<and>
     (case worker_phase w of
        Idle \<Rightarrow> process_cwd s = cwd
      | Read_save \<Rightarrow> process_cwd s = cwd
      | Read_enter \<Rightarrow> process_cwd s = cwd \<and> worker_prev w = cwd
      | Read_resolve \<Rightarrow> process_cwd s = srcdir \<and> worker_prev w = cwd
      | Read_restore \<Rightarrow> process_cwd s = srcdir \<and> worker_prev w = cwd
      | Write_save \<Rightarrow> process_cwd s = cwd
      | Write_enter \<Rightarrow> process_cwd s = cwd \<and> worker_prev w = cwd
      | Write_resolve \<Rightarrow> process_cwd s = resdir \<and> worker_prev w = cwd
      | Write_restore \<Rightarrow> process_cwd s = resdir \<and> worker_prev w = cwd) \<and>
     (Read_restore \<le> worker_phase w \<longrightarrow>
        worker_read w = in_dir srcdir (fst (worker_job w))) \<and>
     (worker_phase w = Write_restore \<longrightarrow> worker_write w = in_dir resdir (snd (worker_job w)))) \<and>
     (\<forall>(job, r, w) \<in> set (pool_done s). r = in_dir srcdir (fst job) \<and> w = in_dir resdir (snd job))"

lemma pool_step_alone: "pool_step srcdir resdir s t \<Longrightarrow> alone_ok srcdir resdir cwd s \<Longrightarrow> alone_ok srcdir resdir cwd t"
proof (induction rule: pool_step.induct)
  case (act i s w w' cwd')
  then show ?case
    by (cases "worker_phase w") (auto simp: alone_ok_def advance.simps)
qed (auto simp: alone_ok_def advance.simps)

lemma reachable_alone:
  "reachable_pool srcdir resdir s t \<Longrightarrow> alone_ok srcdir resdir cwd s \<Longrightarrow> alone_ok srcdir resdir cwd t"
  by (induction rule: reachable_pool.induct) (auto intro: pool_step_alone)

section \<open>Every task comes to its end\<close>

text \<open>How many accesses a thread has left.\<close>

definition remaining :: "phase \<Rightarrow> nat" where
  "remaining p = (if p = Idle then 0 else 9 - phase_index p)"

lemma remaining_simps [simp]: "remaining Idle = 0" "remaining Read_save = 8" "remaining Write_save = 4"
  by (simp_all add: remaining_def)

definition pool_work :: "pool_state \<Rightarrow> nat" where
  "pool_work s = 9 * length (pool_queue s) + sum_list (map (\<lambda>w. remaining (worker_phase w)) (pool_workers s))"

text \<open>The tasks of a pool: waiting, in a thread, done.\<close>

definition running_job :: "worker \<Rightarrow> job multiset" where
  "running_job w = (if worker_phase w = Idle then {#} else {#worker_job w#})"

definition pool_tasks :: "pool_state \<Rightarrow> job multiset" where
  "pool_tasks s = mset (pool_queue s) + sum_list (map running_job (pool_workers s)) + mset (map fst (pool_done s))"

lemma sum_list_update_eq:
  "i < length ws \<Longrightarrow> sum_list (map f (ws[i := w])) + f (ws ! i) = sum_list (map f ws) + f w"
  for f :: "'a \<Rightarrow> 'b::comm_monoid_add"
proof (induction ws arbitrary: i)
  case (Cons v ws)
  show ?case
  proof (cases i)
    case (Suc k)
    with Cons have "sum_list (map f (ws[k := w])) + f (ws ! k) = sum_list (map f ws) + f w" by simp
    then show ?thesis by (simp add: Suc add.assoc)
  qed (simp add: add.commute add.left_commute)
qed simp

lemma advance_phase:
  "worker_phase w \<noteq> Idle \<Longrightarrow> advance srcdir resdir cwd w = (w', cwd') \<Longrightarrow>
     remaining (worker_phase w) = Suc (remaining (worker_phase w')) \<and>
     (worker_phase w' = Idle \<longleftrightarrow> worker_phase w = Write_restore) \<and> worker_job w' = worker_job w"
  by (cases "worker_phase w") (auto simp: advance.simps remaining_def)

lemma pool_step_work: "pool_step srcdir resdir s t \<Longrightarrow> pool_work t < pool_work s"
proof (induction rule: pool_step.induct)
  case (take_task i s w j js)
  then show ?case
    using sum_list_update_eq [of i "pool_workers s" "\<lambda>w. remaining (worker_phase w)" "w\<lparr>worker_phase := Read_save, worker_job := j\<rparr>"]
    by (simp add: pool_work_def)
next
  case (act i s w w' cwd')
  then show ?case
    using sum_list_update_eq [of i "pool_workers s" "\<lambda>w. remaining (worker_phase w)" w'] advance_phase [OF act.hyps(3,5)]
    by (simp add: pool_work_def)
next
  case (finish i s w w' cwd')
  then have "worker_phase w \<noteq> Idle" by simp
  from finish advance_phase [OF this finish.hyps(4)] show ?case
    using sum_list_update_eq [of i "pool_workers s" "\<lambda>w. remaining (worker_phase w)" w'] by (simp add: pool_work_def)
next
  case (no_code i s w)
  then show ?case
    using sum_list_update_eq [of i "pool_workers s" "\<lambda>w. remaining (worker_phase w)" "w\<lparr>worker_phase := Idle\<rparr>"]
    by (simp add: pool_work_def)
qed

lemma pool_step_tasks: "pool_step srcdir resdir s t \<Longrightarrow> pool_tasks t = pool_tasks s"
proof (induction rule: pool_step.induct)
  case (take_task i s w j js)
  then show ?case
    using sum_list_update_eq [of i "pool_workers s" running_job "w\<lparr>worker_phase := Read_save, worker_job := j\<rparr>"]
    by (simp add: pool_tasks_def running_job_def)
next
  case (act i s w w' cwd')
  then show ?case
    using sum_list_update_eq [of i "pool_workers s" running_job w'] advance_phase [OF act.hyps(3,5)]
    by (simp add: pool_tasks_def running_job_def)
next
  case (finish i s w w' cwd')
  then have "worker_phase w \<noteq> Idle" by simp
  from finish advance_phase [OF this finish.hyps(4)] show ?case
    using sum_list_update_eq [of i "pool_workers s" running_job w'] by (simp add: pool_tasks_def running_job_def)
next
  case (no_code i s w)
  then show ?case
    using sum_list_update_eq [of i "pool_workers s" running_job "w\<lparr>worker_phase := Idle\<rparr>"]
    by (simp add: pool_tasks_def running_job_def)
qed

lemma reachable_tasks: "reachable_pool srcdir resdir s t \<Longrightarrow> pool_tasks t = pool_tasks s"
  by (induction rule: reachable_pool.induct) (auto dest: pool_step_tasks)

lemma step_workers: "pool_step srcdir resdir s t \<Longrightarrow> length (pool_workers t) = length (pool_workers s)"
  by (induction rule: pool_step.induct) auto

lemma reachable_workers: "reachable_pool srcdir resdir s t \<Longrightarrow> length (pool_workers t) = length (pool_workers s)"
  by (induction rule: reachable_pool.induct) (auto dest: step_workers)

text \<open>A pool that has a thread only stops when nothing is left to do.\<close>

lemma pool_stuck:
  assumes "pool_workers s \<noteq> []" "\<And>t. \<not> pool_step srcdir resdir s t"
  shows "pool_queue s = [] \<and> (\<forall>w \<in> set (pool_workers s). worker_phase w = Idle)"
proof -
  have idle: "worker_phase w = Idle" if w: "w \<in> set (pool_workers s)" for w
  proof (rule ccontr)
    assume active: "worker_phase w \<noteq> Idle"
    from w obtain i where i: "i < length (pool_workers s)" "pool_workers s ! i = w" by (auto simp: in_set_conv_nth)
    obtain w' cwd' where "advance srcdir resdir (process_cwd s) w = (w', cwd')" by fastforce
    with i active assms(2) show False by (metis pool_step.act pool_step.finish)
  qed
  moreover have "pool_queue s = []"
  proof (rule ccontr)
    assume "pool_queue s \<noteq> []"
    then obtain j js where "pool_queue s = j # js" by (cases "pool_queue s") auto
    moreover have "0 < length (pool_workers s)" "worker_phase (pool_workers s ! 0) = Idle"
      using assms(1) idle by auto
    ultimately show False using assms(2) pool_step.take_task [OF _ refl] by metis
  qed
  ultimately show ?thesis by blast
qed

text \<open>A schedule: which thread moves next. Its run is a run of the pool.\<close>

definition move :: "string \<Rightarrow> string \<Rightarrow> pool_state \<Rightarrow> nat \<Rightarrow> pool_state" where
  "move srcdir resdir s i =
     (if i < length (pool_workers s) then
        let w = pool_workers s ! i; (w', cwd') = advance srcdir resdir (process_cwd s) w in
        if worker_phase w = Idle then
          (case pool_queue s of
             [] \<Rightarrow> s
           | j # js \<Rightarrow> s\<lparr>pool_queue := js, pool_workers := (pool_workers s)[i := w\<lparr>worker_phase := Read_save, worker_job := j\<rparr>]\<rparr>)
        else if worker_phase w = Write_restore then
          s\<lparr>process_cwd := cwd', pool_workers := (pool_workers s)[i := w'],
            pool_done := (worker_job w, worker_read w, worker_write w) # pool_done s\<rparr>
        else s\<lparr>process_cwd := cwd', pool_workers := (pool_workers s)[i := w']\<rparr>
      else s)"

lemma move_reachable: "reachable_pool srcdir resdir s t \<Longrightarrow> reachable_pool srcdir resdir s (move srcdir resdir t i)"
  by (auto simp: move_def Let_def split: prod.split list.split
      intro: reachable_pool.step pool_step.take_task [OF _ refl] pool_step.act [OF _ refl] pool_step.finish [OF _ refl])

lemma moves_reachable: "reachable_pool srcdir resdir s t \<Longrightarrow> reachable_pool srcdir resdir s (foldl (move srcdir resdir) t is)"
  by (induction "is" arbitrary: t) (auto intro: move_reachable)

section \<open>Properties\<close>

text \<open>
  With any number of threads and any interleaving, a pool that starts in the source directory looks
  up templates and outputs only in the source or in the output directory; so when both are the same, as
  they are without the option for the output directory, every name is resolved as it should.
\<close>

theorem threads_share_directory:
  assumes "reachable_pool srcdir resdir (start_pool threads srcdir jobs) t" "(job, r, w) \<in> set (pool_done t)"
  shows "r \<in> {in_dir srcdir (fst job), in_dir resdir (fst job)} \<and> w \<in> {in_dir srcdir (snd job), in_dir resdir (snd job)}"
proof -
  have "pool_ok srcdir resdir t" by (rule reachable_pool_ok [OF assms(1)]) (simp add: start_pool_ok)
  then show ?thesis using assms(2) unfolding pool_ok_def by fast
qed

definition example_moves :: "nat list" where
  "example_moves = [0, 0, 0, 0, 0, 0, 1, 1, 1, 0, 1, 1, 1, 1, 1, 1]"

definition example_pool :: "string \<Rightarrow> string \<Rightarrow> pool_state" where
  "example_pool srcdir resdir =
     foldl (move srcdir resdir) (start_pool 2 srcdir [(''a.cxtpl'', ''a.cpp''), (''b.cxtpl'', ''b.cpp'')]) example_moves"

lemma example_pool_reachable:
  "reachable_pool srcdir resdir (start_pool 2 srcdir [(''a.cxtpl'', ''a.cpp''), (''b.cxtpl'', ''b.cpp'')]) (example_pool srcdir resdir)"
  unfolding example_pool_def by (rule moves_reachable) (rule reachable_pool.start)

theorem threads_share_directory_witness:
  "\<exists>r w. (((''b.cxtpl'', ''b.cpp''), r, w) \<in> set (pool_done (example_pool ''/work'' ''/work''))) \<and>
     r = ''/work/b.cxtpl'' \<and> w = ''/work/b.cpp''"
proof -
  have "map fst (pool_done (example_pool ''/work'' ''/work'')) = [(''b.cxtpl'', ''b.cpp'')]" by code_simp
  then obtain r w where rw: "((''b.cxtpl'', ''b.cpp''), r, w) \<in> set (pool_done (example_pool ''/work'' ''/work''))"
    by auto
  have "in_dir ''/work'' ''b.cxtpl'' = ''/work/b.cxtpl''" "in_dir ''/work'' ''b.cpp'' = ''/work/b.cpp''" by code_simp+
  with threads_share_directory [OF example_pool_reachable rw] rw show ?thesis by auto
qed

text \<open>A single thread resolves every template in the source directory and every output in the output directory.\<close>

theorem one_thread_resolves:
  assumes "reachable_pool srcdir resdir (start_pool 1 cwd jobs) t" "(job, r, w) \<in> set (pool_done t)"
  shows "r = in_dir srcdir (fst job) \<and> w = in_dir resdir (snd job)"
proof -
  have "alone_ok srcdir resdir cwd (start_pool 1 cwd jobs)" by (simp add: alone_ok_def start_pool_def new_worker_def)
  from reachable_alone [OF assms(1) this] assms(2) show ?thesis unfolding alone_ok_def by fast
qed

definition single_pool :: pool_state where
  "single_pool = foldl (move ''/src'' ''/out'') (start_pool 1 ''/src'' [(''a.cxtpl'', ''a.cpp'')]) (replicate 9 0)"

theorem one_thread_resolves_witness:
  "\<exists>r w. ((''a.cxtpl'', ''a.cpp''), r, w) \<in> set (pool_done single_pool) \<and> r = ''/src/a.cxtpl'' \<and> w = ''/out/a.cpp''"
proof -
  have reach: "reachable_pool ''/src'' ''/out'' (start_pool 1 ''/src'' [(''a.cxtpl'', ''a.cpp'')]) single_pool"
    unfolding single_pool_def by (rule moves_reachable) (rule reachable_pool.start)
  have "map fst (pool_done single_pool) = [(''a.cxtpl'', ''a.cpp'')]" by code_simp
  then obtain r w where rw: "((''a.cxtpl'', ''a.cpp''), r, w) \<in> set (pool_done single_pool)"
    by auto
  have "in_dir ''/src'' ''a.cxtpl'' = ''/src/a.cxtpl''" "in_dir ''/out'' ''a.cpp'' = ''/out/a.cpp''" by code_simp+
  with one_thread_resolves [OF reach rw] rw show ?thesis by auto
qed

text \<open>
  With two threads and two directories there is an interleaving in which a template is read from the
  output directory: the other thread enters it between the change of directory and the call of \<open>absolute\<close>.
\<close>

theorem threads_race_on_directory:
  "\<exists>t w. reachable_pool ''/src'' ''/out'' (start_pool 2 ''/src'' [(''a.cxtpl'', ''a.cpp''), (''b.cxtpl'', ''b.cpp'')]) t \<and>
     ((''b.cxtpl'', ''b.cpp''), ''/out/b.cxtpl'', w) \<in> set (pool_done t)"
proof -
  have "pool_done (example_pool ''/src'' ''/out'') = [((''b.cxtpl'', ''b.cpp''), ''/out/b.cxtpl'', ''/out/b.cpp'')]" by code_simp
  then show ?thesis using example_pool_reachable [of "''/src''" "''/out''"] by (metis list.set_intros(1))
qed

text \<open>
  The pool comes to an end: no run has more steps than nine for each task, and a pool with at least
  one thread that cannot move has done every task, each as often as it was added.
\<close>

theorem pool_runs_all_tasks:
  assumes "reachable_pool srcdir resdir (start_pool threads cwd jobs) t" "0 < threads"
  shows "(\<forall>u. pool_step srcdir resdir t u \<longrightarrow> pool_work u < pool_work t) \<and>
    pool_work (start_pool threads cwd jobs) = 9 * length jobs \<and>
    ((\<forall>u. \<not> pool_step srcdir resdir t u) \<longrightarrow> mset (map fst (pool_done t)) = mset jobs)"
proof (intro conjI impI allI)
  show "pool_work u < pool_work t" if "pool_step srcdir resdir t u" for u using that by (rule pool_step_work)
  show "pool_work (start_pool threads cwd jobs) = 9 * length jobs"
    by (simp add: pool_work_def start_pool_def new_worker_def sum_list_replicate)
  assume stuck: "\<forall>u. \<not> pool_step srcdir resdir t u"
  have "pool_workers t \<noteq> []" using reachable_workers [OF assms(1)] assms(2) by (auto simp: start_pool_def)
  from pool_stuck [OF this] stuck have idle: "pool_queue t = []" "\<forall>w \<in> set (pool_workers t). worker_phase w = Idle" by blast+
  have zero: "sum_list (map running_job ws) = {#}" if "\<forall>w \<in> set ws. worker_phase w = Idle" for ws
    using that by (induction ws) (auto simp: running_job_def)
  have "pool_tasks t = mset jobs"
    using reachable_tasks [OF assms(1)] zero [of "replicate threads new_worker"]
    by (simp add: pool_tasks_def start_pool_def new_worker_def)
  then show "mset (map fst (pool_done t)) = mset jobs" using idle zero by (simp add: pool_tasks_def)
qed

theorem pool_runs_all_tasks_witness:
  "mset (map fst (pool_done single_pool)) = {#(''a.cxtpl'', ''a.cpp'')#}"
proof -
  have reach: "reachable_pool ''/src'' ''/out'' (start_pool 1 ''/src'' [(''a.cxtpl'', ''a.cpp'')]) single_pool"
    unfolding single_pool_def by (rule moves_reachable) (rule reachable_pool.start)
  have "pool_work single_pool = 0" by code_simp
  then have "\<forall>u. \<not> pool_step ''/src'' ''/out'' single_pool u" using pool_step_work by fastforce
  with pool_runs_all_tasks [OF reach] show ?thesis by simp
qed

end
