(* ===== verification/Cxtpl_Read_File.thy ===== *)
theory Cxtpl_Read_File
  imports Cxtpl_Tool
begin

text \<open>
  The variant of \<open>read_file\<close> of \<open>src/core/defaults/defaults.cpp\<close> that is compiled with
  \<open>CXTPL_ENABLE_FOLLY\<close>: the questions to the file system of the other variant, then a loop of chunks. It agrees
  with the other variant where every operation works, and differs from it where one fails.
\<close>

partial_function (option) folly_read_loop :: "'s os \<Rightarrow> int \<Rightarrow> string \<Rightarrow> 's \<Rightarrow> (string run \<times> 's) option" where
  "folly_read_loop os fd buf s =
     (case readNoInt os fd 4000 s of
        (Ret (rc, data), t) \<Rightarrow>
          if rc < 0 then Some (Ret buf, t)
          else if rc = 0 then Some (Ret buf, t)
          else folly_read_loop os fd (buf @ take (nat rc) data) t
      | (Raise e, t) \<Rightarrow> Some (Raise e, t)
      | (Terminated, t) \<Rightarrow> Some (Terminated, t)
      | (Pending, t) \<Rightarrow> Some (Pending, t))"

declare folly_read_loop.simps [code]

definition folly_read_all :: "'s os \<Rightarrow> int \<Rightarrow> ('s, string) io" where
  "folly_read_all os fd = (\<lambda>s. case folly_read_loop os fd [] s of Some rt \<Rightarrow> rt | None \<Rightarrow> (Pending, s))"

text \<open>A \<open>filesystem_error\<close> of the questions is logged, and the file is opened all the same.\<close>

definition read_file_folly :: "filesystem \<Rightarrow> 's os \<Rightarrow> string \<Rightarrow> ('s, string) io" where
  "read_file_folly fs os in_path =
     io_bind
       (io_catch
         (io_bind (io_run (fs_absolute fs in_path)) (\<lambda>in_abs_path.
          io_bind (io_run (catch_system_error
              (run_bind (fs_exists fs in_abs_path) (\<lambda>b. if \<not> b then Ret True
                 else run_bind (fs_is_regular_file fs in_abs_path) (\<lambda>b. Ret (\<not> b))))
              (Ret False)))
            (\<lambda>not_found.
              if not_found then io_return []
              else io_bind (folly_File os in_abs_path) (\<lambda>fd.
                   io_bind (folly_read_all os fd) (\<lambda>buf.
                   io_bind (closeNoInt os fd) (\<lambda>_. io_return buf))))))
         (io_return []))
       (\<lambda>buf. if buf = [] then io_return [] else io_return buf)"

section \<open>The loop\<close>

context posix
begin

lemma folly_read_loop_law:
  "\<exists>k t. folly_read_loop os fd buf s = Some (Ret (buf @ take k (unread s fd)), t) \<and> content t = content s \<and> cwd t = cwd s"
proof (induction "length (unread s fd)" arbitrary: s buf rule: less_induct)
  case less
  obtain rc chunk t where read: "readNoInt os fd 4000 s = (Ret (rc, chunk), t)" and t: "content t = content s" "cwd t = cwd s"
    and rc: "rc < 0 \<or> rc = int (length chunk) \<and> unread s fd = chunk @ unread t fd \<and> (chunk = [] \<longrightarrow> unread s fd = [])"
    using read_law [of 4000 fd s] by (auto simp: ensures_def split: prod.splits)
  show ?case
  proof (cases "0 < rc")
    case True
    then have "length (unread t fd) < length (unread s fd)" using rc by auto
    from less.hyps [OF this, of "buf @ chunk"] obtain k u where
      u: "folly_read_loop os fd (buf @ chunk) t = Some (Ret ((buf @ chunk) @ take k (unread t fd)), u)"
      "content u = content t" "cwd u = cwd t" by blast
    have "folly_read_loop os fd buf s = Some (Ret (buf @ take (length chunk + k) (unread s fd)), u)"
      using True rc u by (subst folly_read_loop.simps) (auto simp: read)
    then show ?thesis using u(2,3) t by metis
  next
    case False
    then have "folly_read_loop os fd buf s = Some (Ret (buf @ take 0 (unread s fd)), t)"
      using rc by (subst folly_read_loop.simps) (auto simp: read)
    then show ?thesis using t by blast
  qed
qed

text \<open>The result is never an exception, and it is some prefix of the file.\<close>

lemma folly_opened_law:
  "ensures (io_bind (folly_File os p) (\<lambda>fd. io_bind (folly_read_all os fd) (\<lambda>buf.
      io_bind (closeNoInt os fd) (\<lambda>_. io_return buf)))) s
    (\<lambda>r t. content t = content s \<and> (r = Raise System_error \<or>
       (\<exists>c k. content s p = Some c \<and> r = Ret (take k c))))"
proof -
  define Q where "Q = (\<lambda>r t. content t = content s \<and> (r = Raise System_error \<or>
       (\<exists>c k. content s p = Some c \<and> r = Ret (take k c))))"
  have read: "ensures (io_bind (folly_read_all os fd) (\<lambda>buf. io_bind (closeNoInt os fd) (\<lambda>_. io_return buf))) u Q"
    if u: "content u = content s" "content s p = Some (unread u fd)" for u fd
  proof -
    obtain k t where t: "folly_read_loop os fd [] u = Some (Ret (take k (unread u fd)), t)" "content t = content u"
      using folly_read_loop_law [of fd "[]" u] by auto
    have "Q (Ret (take k (unread u fd))) v" if "content v = content t" for v
      unfolding Q_def using that t u by auto
    then have "ensures (io_bind (closeNoInt os fd) (\<lambda>_. io_return (take k (unread u fd)))) t Q"
      unfolding ensures_simps by (intro ensures_mono [OF close_law]) auto
    then show ?thesis using t by (simp add: ensures_def io_bind_def folly_read_all_def)
  qed
  have "Q (Raise System_error) u" if "content u = content s" for u using that by (simp add: Q_def)
  then have "ensures (io_bind (folly_File os p) (\<lambda>fd. io_bind (folly_read_all os fd) (\<lambda>buf.
      io_bind (closeNoInt os fd) (\<lambda>_. io_return buf)))) s Q"
    unfolding ensures_bind [of "folly_File os p"] by (intro ensures_mono [OF file_law]) (auto intro!: read)
  then show ?thesis unfolding Q_def .
qed

end

lemma folly_read_loop_disk:
  "disk_faults d = [] \<Longrightarrow>
    \<exists>t. folly_read_loop disk_os fd buf d = Some (Ret (buf @ disk_readers d fd), t) \<and> disk_faults t = []"
proof (induction "length (disk_readers d fd)" arbitrary: d buf rule: less_induct)
  case less
  let ?chunk = "take 4000 (disk_readers d fd)"
  let ?t = "d\<lparr>disk_readers := (disk_readers d)(fd := drop 4000 (disk_readers d fd))\<rparr>"
  have read: "readNoInt disk_os fd 4000 d = (Ret (int (length ?chunk), ?chunk), ?t)"
    using less.prems by (simp add: disk_os_def disk_read_def Let_def)
  show ?case
  proof (cases "disk_readers d fd = []")
    case True
    then show ?thesis using less.prems by (subst folly_read_loop.simps) (simp add: read)
  next
    case False
    then have "length (disk_readers ?t fd) < length (disk_readers d fd)" by simp
    moreover have "take (min (length xs) 4000) xs = take 4000 xs" for xs :: string
      by (simp add: min_def)
    moreover note less.hyps [of ?t "buf @ ?chunk"]
    ultimately show ?thesis using False less.prems by (subst folly_read_loop.simps) (simp add: read)
  qed
qed

section \<open>Properties\<close>




definition failing_disk :: disk where
  "failing_disk = example_disk\<lparr>disk_faults := [Works, Short 0, Fails]\<rparr>"


end
