(* ===== verification/Cxtpl_Plain.thy ===== *)
theory Cxtpl_Plain
  imports Cxtpl_Defaults
begin

text \<open>
  Templates of ASCII characters: what the engine reads for the default tags, at the level of characters, and the
  code that is generated. Each piece is checked by itself, so a long template is checked by evaluation.
\<close>

type_synonym plain_piece = "string \<times> kind \<times> string \<times> string"

definition piece_of :: "plain_piece \<Rightarrow> piece" where
  "piece_of = (\<lambda>(raw, k, code, closer). \<lparr>piece_text = ASCIIToUTF16 raw, piece_kind = k,
     piece_code = ASCIIToUTF16 code, piece_closer = ASCIIToUTF16 closer\<rparr>)"

primrec plain_prefix :: "kind \<Rightarrow> string" where
  "plain_prefix Line = ''~]]''"
| "plain_prefix Block = ''~''"
| "plain_prefix Raw = ''+''"
| "plain_prefix As_string = ''*''"
| "plain_prefix Include = ''include''"

primrec plain_closers :: "kind \<Rightarrow> string list" where
  "plain_closers Line = [[CHR 0x0A], [CHR 0x09], [CHR 0x0D], [CHR 0x0B], [CHR 0x0C]]"
| "plain_closers Block = [''~]]'']"
| "plain_closers Raw = [''+]]'']"
| "plain_closers As_string = [''*]]'']"
| "plain_closers Include = [''include]]'']"

text \<open>
  Whether a piece is read back by the engine whatever follows it: its first opening is that of the tag, no tag
  that is tried before could be meant, and the code ends at the first closing tag that is searched.
\<close>

definition piece_ok :: "plain_piece \<Rightarrow> bool" where
  "piece_ok =
     (\<lambda>(raw, k, code, closer).
        str_find ''[['' (raw @ ''[['') = Some (length raw) \<and>
        list_all (\<lambda>j. length (plain_prefix j) \<le> length (plain_prefix k @ code @ closer) \<and>
            \<not> prefix (plain_prefix j) (plain_prefix k @ code @ closer)) (takeWhile (\<lambda>j. j \<noteq> k) kinds) \<and>
        closer = hd (plain_closers k) \<and>
        str_find closer (code @ closer) = Some (length code))"

definition plain_print :: "plain_piece list \<Rightarrow> string \<Rightarrow> string" where
  "plain_print ps t =
     concat (map (\<lambda>(raw, k, code, closer). raw @ ''[['' @ plain_prefix k @ code @ closer) ps) @ t"

text \<open>The code that is generated for a text and for a tag that is no include.\<close>

definition plain_text_code :: "string \<Rightarrow> string" where
  "plain_text_code raw = (if raw = [] then [CHR 0x0A] else appendToVariableAsRawText raw kOutVarName)"

primrec plain_tag_code :: "kind \<Rightarrow> string \<Rightarrow> string" where
  "plain_tag_code Line code = executeCodeLine code kOutVarName"
| "plain_tag_code Block code = executeCodeMultiline code kOutVarName"
| "plain_tag_code Raw code = appendToVariable code kOutVarName"
| "plain_tag_code As_string code = appendToVariableAsString code kOutVarName"
| "plain_tag_code Include code = []"

definition plain_code :: "plain_piece list \<Rightarrow> string \<Rightarrow> string" where
  "plain_code ps t =
     concat (map (\<lambda>(raw, k, code, _). plain_text_code raw @ plain_tag_code k code) ps) @ plain_text_code t"

definition plain_ok :: "plain_piece list \<Rightarrow> string \<Rightarrow> bool" where
  "plain_ok ps t \<longleftrightarrow> list_all is_ascii8 t \<and>
     list_all (\<lambda>(raw, k, code, _). list_all is_ascii8 raw \<and> list_all is_ascii8 code \<and> k \<noteq> Include) ps"

section \<open>From characters to code units\<close>

lemma byte_inject: "byte c = byte d \<longleftrightarrow> c = d"
  by (metis char_of_byte_byte)

lemma ASCIIToUTF16_inj: "inj (sext8 :: char \<Rightarrow> char16)"
proof (rule injI)
  fix c d assume "(sext8 c :: char16) = sext8 d"
  then have "sint (sext8 c :: char16) = sint (sext8 d :: char16)" by simp
  then have "sint (byte c) = sint (byte d)" by (simp add: sint_up_scast is_up del: signed_scast_eq)
  then show "c = d" by (metis byte_inject signed_word_eqI)
qed

lemma ASCIIToUTF16_inject [simp]: "ASCIIToUTF16 s = ASCIIToUTF16 t \<longleftrightarrow> s = t"
  by (simp add: ASCIIToUTF16_def inj_map_eq_map [OF ASCIIToUTF16_inj])

lemma ASCIIToUTF16_append: "ASCIIToUTF16 (s @ t) = ASCIIToUTF16 s @ ASCIIToUTF16 t"
  by (simp add: ASCIIToUTF16_def)

lemma str_find_map: "inj f \<Longrightarrow> str_find (map f p) (map f s) = str_find p s"
proof (induction s)
  case (Cons c s)
  have "take (length p) (f c # map f s) = map f p \<longleftrightarrow> take (length p) (c # s) = p"
    using Cons.prems by (metis inj_map_eq_map list.map(2) take_map)
  with Cons show ?case by simp
qed simp

lemma str_find_ASCII: "str_find (ASCIIToUTF16 p) (ASCIIToUTF16 s) = str_find p s"
  unfolding ASCIIToUTF16_def by (rule str_find_map [OF ASCIIToUTF16_inj])

lemma occurs_ASCII: "occurs (ASCIIToUTF16 p) (ASCIIToUTF16 s) \<longleftrightarrow> occurs p s"
  by (simp add: occurs_def str_find_ASCII)

lemma prefix_ASCII: "prefix (ASCIIToUTF16 p) (ASCIIToUTF16 s) \<longleftrightarrow> prefix p s"
proof
  assume "prefix (ASCIIToUTF16 p) (ASCIIToUTF16 s)"
  then have "take (length p) (ASCIIToUTF16 s) = ASCIIToUTF16 p" by (auto simp: prefix_def)
  then have "ASCIIToUTF16 (take (length p) s) = ASCIIToUTF16 p" by (simp add: ASCIIToUTF16_def take_map)
  then show "prefix p s" by (metis ASCIIToUTF16_inject take_is_prefix)
qed (auto simp: prefix_def ASCIIToUTF16_append)

lemma default_language_plain:
  "lang_open default_language = ASCIIToUTF16 ''[[''"
  "lang_prefix default_language k = ASCIIToUTF16 (plain_prefix k)"
  "lang_closers default_language k = map ASCIIToUTF16 (plain_closers k)"
  by (simp_all add: default_language_def) (cases k; simp)+

lemma takeWhile_ASCII:
  "takeWhile (\<lambda>d. d \<noteq> ASCIIToUTF16 c) (map ASCIIToUTF16 cs) = map ASCIIToUTF16 (takeWhile (\<lambda>d. d \<noteq> c) cs)"
  by (induction cs) auto

lemma prefix_longer: "length p \<le> length s \<Longrightarrow> prefix p (s @ r) \<longleftrightarrow> prefix p s"
  by (auto simp: prefix_append intro: order.antisym)

lemma plain_canonical:
  "list_all piece_ok ps \<Longrightarrow> str_find ''[['' t = None \<Longrightarrow>
     canonical default_language (map piece_of ps) (ASCIIToUTF16 t) \<and>
     print_template default_language (map piece_of ps) (Tail (ASCIIToUTF16 t)) = ASCIIToUTF16 (plain_print ps t)"
proof (induction ps)
  case Nil
  then show ?case by (simp add: default_language_plain str_find_ASCII print_template_def plain_print_def)
next
  case (Cons q ps)
  obtain raw k code closer where q: "q = (raw, k, code, closer)" by (cases q) auto
  define p where "p = piece_of (raw, k, code, closer)"
  define rest where "rest = plain_print ps t"
  let ?body = "code @ closer @ rest"
  have p: "piece_text p = ASCIIToUTF16 raw" "piece_kind p = k" "piece_code p = ASCIIToUTF16 code"
    "piece_closer p = ASCIIToUTF16 closer"
    by (simp_all add: p_def piece_of_def)
  from Cons have can: "canonical default_language (map piece_of ps) (ASCIIToUTF16 t)"
    and print: "print_template default_language (map piece_of ps) (Tail (ASCIIToUTF16 t)) = ASCIIToUTF16 rest"
    by (simp_all add: rest_def)
  have body: "ASCIIToUTF16 code @ ASCIIToUTF16 closer @
      print_template default_language (map piece_of ps) (Tail (ASCIIToUTF16 t)) = ASCIIToUTF16 ?body"
    by (simp add: print ASCIIToUTF16_append)
  have conds: "str_find ''[['' (raw @ ''[['') = Some (length raw)"
    "list_all (\<lambda>j. length (plain_prefix j) \<le> length (plain_prefix k @ code @ closer) \<and>
       \<not> prefix (plain_prefix j) (plain_prefix k @ code @ closer)) (takeWhile (\<lambda>j. j \<noteq> k) kinds)"
    "closer = hd (plain_closers k)" "str_find closer (code @ closer) = Some (length code)"
    using Cons.prems(1) unfolding q list.pred_inject piece_ok_def prod.case by iprover+
  have first: "list_all (\<lambda>j. \<not> prefix (plain_prefix j) (plain_prefix k @ ?body)) (takeWhile (\<lambda>j. j \<noteq> k) kinds)"
    using conds(2) prefix_longer [of _ "plain_prefix k @ code @ closer" rest] by (auto simp: list_all_iff)
  have closers: "closer \<in> set (plain_closers k)" "takeWhile (\<lambda>d. d \<noteq> closer) (plain_closers k) = []"
    unfolding conds(3) by (cases k; simp)+
  have "canonical default_language (p # map piece_of ps) (ASCIIToUTF16 t)"
    unfolding canonical.simps Let_def p body default_language_plain takeWhile_ASCII ASCIIToUTF16_append [symmetric]
    using conds(1,4) first closers can
    by (simp add: str_find_ASCII prefix_ASCII list.pred_map comp_def)
  moreover have "print_template default_language (p # map piece_of ps) (Tail (ASCIIToUTF16 t)) = ASCIIToUTF16 (plain_print (q # ps) t)"
    using print unfolding rest_def
    by (simp add: print_template_def print_piece_def p q default_language_plain plain_print_def ASCIIToUTF16_def)
  ultimately show ?case by (simp add: p_def q)
qed

lemma is_ascii8_digit7: "is_ascii8 c \<longleftrightarrow> \<not> digit7 c"
  by (cases c) simp

lemma raw_code_plain: "list_all is_ascii8 raw \<Longrightarrow> raw_code (ASCIIToUTF16 raw) = plain_text_code raw"
  by (simp add: append_raw_text_def plain_text_code_def UTF16ToUTF8_ASCII)

lemma render_all_plain:
  "list_all (\<lambda>(raw, k, code, _). list_all is_ascii8 raw \<and> list_all is_ascii8 code \<and> k \<noteq> Include) ps \<Longrightarrow>
     render_all (default_render depth cfg env) (map piece_of ps) =
     success (concat (map (\<lambda>(raw, k, code, _). plain_text_code raw @ plain_tag_code k code) ps))"
proof (induction ps)
  case (Cons p ps)
  obtain raw k code closer where p: "p = (raw, k, code, closer)" by (cases p) auto
  have "default_render depth cfg env k code = success (plain_tag_code k code)"
    using Cons.prems unfolding p by (cases k) (simp_all add: default_render_def)
  then show ?case using Cons unfolding p by (simp add: piece_of_def UTF16ToUTF8_ASCII raw_code_plain)
qed simp

lemma generate_plain:
  assumes "list_all piece_ok ps" "str_find ''[['' t = None" "plain_ok ps t"
    and "plain_print ps t \<noteq> []" "length (plain_print ps t) < 2 ^ 63"
  shows "generate depth cfg env (ASCIIToUTF16 (plain_print ps t)) = success (plain_code ps t)"
proof -
  from plain_canonical [OF assms(1,2)] have "canonical default_language (map piece_of ps) (ASCIIToUTF16 t)"
    "ASCIIToUTF16 (plain_print ps t) = print_template default_language (map piece_of ps) (Tail (ASCIIToUTF16 t))"
    by simp_all
  moreover have "render_all (default_render depth cfg env) (map piece_of ps) =
      success (concat (map (\<lambda>(raw, k, code, _). plain_text_code raw @ plain_tag_code k code) ps))"
    using assms(3) by (intro render_all_plain) (simp add: plain_ok_def)
  moreover have "raw_code (ASCIIToUTF16 t) = plain_text_code t"
    using assms(3) by (intro raw_code_plain) (simp add: plain_ok_def)
  moreover have "ASCIIToUTF16 (plain_print ps t) \<noteq> []" "length (ASCIIToUTF16 (plain_print ps t)) < 2 ^ 63"
    using assms(4,5) by simp_all
  ultimately show ?thesis
    unfolding plain_code_def by (subst default_generate_iff) metis+
qed

lemma latin1_ASCII: "list_all is_ascii8 s \<Longrightarrow> latin1_decode s = ASCIIToUTF16 s"
proof (induction s)
  case (Cons c s)
  then have "(ucast (byte c) :: char16) = of_nat (char_code c)"
    by (simp add: word_unat_eq_iff unat_ucast_eq unat_of_nat)
  with Cons show ?case by (simp add: latin1_decode_def ASCIIToUTF16_def sext8_ascii)
qed (simp add: latin1_decode_def ASCIIToUTF16_def)

section \<open>A line of code at the end of a file\<close>

definition line_ends :: "char16 set" where
  "line_ends = {0x0A, 0x09, 0x0D, 0x0B, 0x0C}"

lemma no_line_closer:
  assumes "set code \<inter> line_ends = {}"
  shows "List.find (\<lambda>c. occurs c code) (lang_closers default_language Line) = None"
proof -
  have "ASCIIToUTF16 [CHR 0x0A] = [0x0A]" "ASCIIToUTF16 [CHR 0x09] = [0x09]" "ASCIIToUTF16 [CHR 0x0D] = [0x0D]"
    "ASCIIToUTF16 [CHR 0x0B] = [0x0B]" "ASCIIToUTF16 [CHR 0x0C] = [0x0C]" by code_simp+
  then show ?thesis
    using assms by (auto simp: default_language_plain occurs_def str_find_single_None line_ends_def)
qed



end
