(* ===== verification/Cxtpl_Examples.thy ===== *)
theory Cxtpl_Examples
  imports Cxtpl_Plain Cxtpl_Main
begin

text \<open>
  The programs under \<open>examples/\<close> that print the result of one template: \<open>examples/simple/src/main_native.cpp\<close>
  runs the engine on a template that stands in its source, \<open>examples/cmake_integration/src/main_native.cpp\<close> runs
  the code that the build has generated. What the clock says is a parameter.
\<close>

section \<open>The program of examples/simple\<close>

fun join_lines :: "string list \<Rightarrow> string" where
  "join_lines [] = []"
| "join_lines [l] = l"
| "join_lines (l # l' # ls) = l @ [CHR 0x0A] @ join_lines (l' # ls)"

definition simple_input :: string where
  "simple_input = join_lines [
     [],
     ''[[~ // parameters begin'',
     [],
     ''const auto headerGuard'',
     ''  = GetWithDefault<std::string>(cxtpl_params, '' @ [CHR 0x22] @ ''headerGuard'' @ [CHR 0x22] @ '', '' @ [CHR 0x22] @ [CHR 0x22] @ '');'',
     [],
     ''const auto generator_path'',
     ''  = GetWithDefault<std::string>(cxtpl_params, '' @ [CHR 0x22] @ ''generator_path'' @ [CHR 0x22] @ '', '' @ [CHR 0x22] @ [CHR 0x22] @ '');'',
     [],
     ''std::vector<std::string> generator_includes'',
     ''  = GetWithDefault<std::vector<std::string>>'',
     ''      (cxtpl_params, '' @ [CHR 0x22] @ ''generator_includes'' @ [CHR 0x22] @ '', std::vector<std::string>{});'',
     [],
     ''reflection::ClassInfoPtr ReflectedBaseTypeclass'',
     ''  = GetWithDefault<reflection::ClassInfoPtr>'',
     ''      (cxtpl_params, '' @ [CHR 0x22] @ ''ReflectedBaseTypeclass'' @ [CHR 0x22] @ '', nullptr);'',
     [],
     ''std::string ImplTypeclassName'',
     ''  = GetWithDefault<std::string>'',
     ''      (cxtpl_params, '' @ [CHR 0x22] @ ''ImplTypeclassName'' @ [CHR 0x22] @ '', '' @ [CHR 0x22] @ [CHR 0x22] @ '');'',
     [],
     ''std::string BaseTypeclassName'',
     ''  = GetWithDefault<std::string>'',
     ''      (cxtpl_params, '' @ [CHR 0x22] @ ''BaseTypeclassName'' @ [CHR 0x22] @ '', '' @ [CHR 0x22] @ [CHR 0x22] @ '');'',
     [],
     ''// parameters end'',
     ''/* no newline */ +]][[~]]'',
     ''// This is generated file. Do not modify directly.'',
     ''// Path to the code generator: [[+ generator_path +]].'',
     [],
     ''[[+ startHeaderGuard(headerGuard) /* no newline */ +]][[~]]'',
     [],
     ''[[~]] for(const auto& fileName: generator_includes) {'',
     ''[[+ fileName +]]'',
     ''[[~]] } // end for'',
     [],
     ''#include <array>'',
     ''#include <functional>'',
     ''#include <memory>'',
     [],
     ''namespace cxxctp {'',
     ''namespace generated {'',
     [],
     ''[[~]]  { // startscope'',
     ''[[~]]    for(const auto& method: ReflectedBaseTypeclass->methods) {'',
     ''[[~]]      const size_t methodParamsSize = method->params.size();'',
     ''[[~]]      const bool needPrint = !method->isImplicit'',
     ''[[~]]          && !method->isOperator'',
     ''[[~]]          && !method->isCtor'',
     ''[[~]]          && !method->isDtor;'',
     ''[[~]]      if(needPrint) {'',
     ''  template<>'',
     ''[[+ method->isExplicitCtor ? '' @ [CHR 0x22] @ ''explicit '' @ [CHR 0x22] @ '' : '' @ [CHR 0x22] @ [CHR 0x22] @ '' +]][[~]] /* no newline */'',
     ''[[+ method->isConstexpr ? '' @ [CHR 0x22] @ ''constexpr '' @ [CHR 0x22] @ '' : '' @ [CHR 0x22] @ [CHR 0x22] @ '' +]][[~]] /* no newline */'',
     ''[[+ method->isStatic ? '' @ [CHR 0x22] @ ''static '' @ [CHR 0x22] @ '' : '' @ [CHR 0x22] @ [CHR 0x22] @ '' +]][[~]] /* no newline */'',
     ''[[+ method->returnType->getPrintedName() +]][[~]] /* no newline */'',
     ''[[+ '' @ [CHR 0x22] @ '' '' @ [CHR 0x22] @ '' +]][[~]] /* no newline */'',
     ''[[+ method->name +]][[~]] /* no newline */'',
     ''< [[+ BaseTypeclassName +]], [[+ ImplTypeclassName +]] >'',
     ''(const [[+ ImplTypeclassName +]]& data[[~]] /* no newline */'',
     ''[[~]] if(methodParamsSize) {'',
     ''[[+   '' @ [CHR 0x22] @ '', '' @ [CHR 0x22] @ '' +]][[~]] /* no newline */'',
     ''[[+ paramsFullDecls(method->params) +]][[~]] /* no newline */'',
     ''[[~]] } // methodParamsSize'',
     '') [[~]] /* no newline */'',
     ''[[+ method->isNoExcept ? '' @ [CHR 0x22] @ ''noexcept '' @ [CHR 0x22] @ '' : '' @ [CHR 0x22] @ [CHR 0x22] @ '' +]][[~]] /* no newline */'',
     '';'',
     ''[[~ /* newline */ +]]'',
     ''[[~]]      } // needPrint'',
     ''[[~]]    } // methods endfor'',
     ''[[~]]  } // endscope'',
     [],
     ''/*template <>'',
     ''[[+ ImplTypeclassName +]]& _tc_model_t<[[+ BaseTypeclassName +]]>::ref_concrete<[[+ ImplTypeclassName +]]>() noexcept;'',
     ''*/'',
     [],
     ''template<>'',
     ''struct _tc_impl_t<[[+ ImplTypeclassName +]], [[+ BaseTypeclassName +]]>'',
     ''    : public _tc_model_t<[[+ BaseTypeclassName +]]> {'',
     ''    typedef [[+ ImplTypeclassName +]] val_type_t;'',
     [],
     ''    // Construct the embedded concrete type.'',
     ''    template<typename... args_t>'',
     ''    _tc_impl_t(args_t&&... args) noexcept : concrete(std::forward<args_t>(args)...) { }'',
     [],
     ''    explicit _tc_impl_t(const [[+ ImplTypeclassName +]]& concrete_arg) noexcept'',
     ''      : concrete(concrete_arg) {}'',
     [],
     ''    /*const size_t getModelTypeIndex() const noexcept override final {'',
     ''        return _tc_registry<[[+ BaseTypeclassName +]]>::'',
     ''            getTypeIndex<[[+ ImplTypeclassName +]]>();'',
     ''    }*/'',
     [],
     [],
     ''[[~]]  { // startscope'',
     ''[[~]]    for(const auto& method: ReflectedBaseTypeclass->methods) {'',
     ''[[~]]      const size_t methodParamsSize = method->params.size();'',
     ''[[~]]      const bool needPrint = !method->isImplicit'',
     ''[[~]]          && !method->isOperator'',
     ''[[~]]          && !method->isCtor'',
     ''[[~]]          && !method->isDtor;'',
     ''[[~]]      if(method->isTemplate()) {'',
     ''template< [[+ templateParamsFullDecls(method->tplParams) +]] >'',
     ''[[~]]      } // method->isTemplate'',
     ''[[~]]      if(needPrint) {'',
     ''[[+ method->isExplicitCtor ? '' @ [CHR 0x22] @ ''explicit '' @ [CHR 0x22] @ '' : '' @ [CHR 0x22] @ [CHR 0x22] @ '' +]][[~]] /* no newline */'',
     ''[[+ method->isConstexpr ? '' @ [CHR 0x22] @ ''constexpr '' @ [CHR 0x22] @ '' : '' @ [CHR 0x22] @ [CHR 0x22] @ '' +]][[~]] /* no newline */'',
     ''[[+ method->isStatic ? '' @ [CHR 0x22] @ ''static '' @ [CHR 0x22] @ '' : '' @ [CHR 0x22] @ [CHR 0x22] @ '' +]][[~]] /* no newline */'',
     ''[[+ method->returnType->getPrintedName() +]][[~]] /* no newline */'',
     ''[[+ '' @ [CHR 0x22] @ '' __'' @ [CHR 0x22] @ '' +]][[~]] /* no newline */'',
     ''[[+ method->name +]][[~]] /* no newline */'',
     ''('',
     ''[[+ paramsFullDecls(method->params) +]][[~]] /* no newline */'',
     '') [[~]] /* no newline */'',
     ''[[+ method->isConst ? '' @ [CHR 0x22] @ ''const '' @ [CHR 0x22] @ '' : '' @ [CHR 0x22] @ [CHR 0x22] @ '' +]][[~]] /* no newline */'',
     ''[[+ method->isNoExcept ? '' @ [CHR 0x22] @ ''noexcept '' @ [CHR 0x22] @ '' : '' @ [CHR 0x22] @ [CHR 0x22] @ '' +]][[~]] /* no newline */'',
     ''override final'',
     ''  {'',
     ''    /// '' @ [CHR 0x5C] @ ''note passes data, not ref'',
     ''    return [[+ method->name +]][[~]] /* no newline */'',
     ''< [[+ BaseTypeclassName +]] >[[~]] /* no newline */'',
     ''([[~]] /* no newline */'',
     ''concrete[[~]] /* no newline */'',
     ''[[+ methodParamsSize ? '' @ [CHR 0x22] @ '', '' @ [CHR 0x22] @ '' : '' @ [CHR 0x22] @ [CHR 0x22] @ '' +]][[~]] /* no newline */'',
     ''[[+ paramsCallDecls(method->params) +]][[~]] /* no newline */'',
     '');'',
     ''  }'',
     ''[[~ /* newline */ +]]'',
     ''[[~]]      } // needPrint'',
     ''[[~]]    } // methods endfor'',
     ''[[~]]  } // endscope'',
     [],
     ''    std::unique_ptr<'',
     ''        _tc_model_t<[[+ BaseTypeclassName +]]>>'',
     ''    clone() noexcept override final {'',
     ''        // Copy-construct a new instance of _tc_impl_t on the heap.'',
     ''        return std::make_unique<_tc_impl_t>(concrete);'',
     ''    }'',
     [],
     ''    std::unique_ptr<'',
     ''        _tc_model_t<[[+ BaseTypeclassName +]]>>'',
     ''    move_clone() noexcept override final {'',
     ''        return std::make_unique<_tc_impl_t>(std::move(concrete));'',
     ''    }'',
     [],
     ''    [[+ ImplTypeclassName +]]* operator->() {'',
     ''        return &concrete;'',
     ''    }'',
     [],
     ''  // Our actual data.'',
     ''  [[+ ImplTypeclassName +]] concrete;'',
     ''};'',
     [],
     ''} // namespace cxxctp'',
     ''} // namespace generated'',
     [],
     ''[[+ endHeaderGuard(headerGuard) /* no newline */ +]][[~]]'',
     [],
     ''    '']"

text \<open>What a program prints and returns.\<close>

record console =
  exit_code :: int
  std_out :: string
  std_err :: string

definition endl :: string where
  "endl = [CHR 0x0A]"

definition done_in :: "int \<Rightarrow> int \<Rightarrow> string" where
  "done_in diff_ms diff_ns =
     ''Done in : '' @ to_string diff_ms @ '' milliseconds ('' @ to_string diff_ns @ '' nanoseconds)'' @ endl"

definition report_error :: "string \<Rightarrow> generator_error_extra_info \<Rightarrow> string" where
  "report_error input err =
     ''=== ERROR START ==='' @ endl @
     ''ERROR message: '' @ error_code_message (make_error_code (ec err)) @ endl @
     ''ERROR category: '' @ '' '' @ code_category (make_error_code (ec err)) @ endl @
     ''ERROR info: '' @ '' '' @ extra_info err @ endl @
     ''input data: '' @ take (min 200 (length input)) input @ ''...'' @ endl @
     ''=== ERROR END ==='' @ endl"

definition simple_run :: "nat \<Rightarrow> build \<Rightarrow> env \<Rightarrow> int \<Rightarrow> int \<Rightarrow> string \<Rightarrow> console run" where
  "simple_run depth cfg env diff_ms diff_ns input =
     (let (printed, clean_contents) = ConvertResponseToUTF16 (converters env) [] input
      in run_bind (generate depth cfg env clean_contents) (\<lambda>genResult.
         case genResult of
           Inl err \<Rightarrow>
             if ec err = EMPTY_INPUT
             then Ret \<lparr>exit_code = EXIT_FAILURE, std_out = printed,
                       std_err = ''ERROR: empty string as Generator input'' @ endl\<rparr>
             else Ret \<lparr>exit_code = EXIT_FAILURE, std_out = printed, std_err = report_error input err\<rparr>
         | Inr genValue \<Rightarrow>
             Ret \<lparr>exit_code = EXIT_SUCCESS,
                  std_out = printed @ ''genResult.value():'' @ endl @ genValue @ endl @ done_in diff_ms diff_ns,
                  std_err = []\<rparr>))"

definition simple_main :: "nat \<Rightarrow> build \<Rightarrow> env \<Rightarrow> int \<Rightarrow> int \<Rightarrow> console run" where
  "simple_main depth cfg env diff_ms diff_ns = simple_run depth cfg env diff_ms diff_ns simple_input"

section \<open>The program of examples/cmake_integration\<close>

text \<open>
  The file that the build generates is a parameter: a function of the two parameters of the template that
  extends \<open>cxtpl_output\<close>.
\<close>

definition integration_main :: "(string \<Rightarrow> string list \<Rightarrow> string \<Rightarrow> string) \<Rightarrow> int \<Rightarrow> int \<Rightarrow> console" where
  "integration_main example_includes diff_ms diff_ns =
     (let cxtpl_output = [];
          generator_path = ''example.cxtpl'';
          generator_includes = [''#include <iostream>'', ''#include <cstring>''];
          cxtpl_output = example_includes generator_path generator_includes cxtpl_output
      in \<lparr>exit_code = EXIT_SUCCESS,
          std_out = ''Result:'' @ endl @ cxtpl_output @ done_in diff_ms diff_ns, std_err = []\<rparr>)"

section \<open>How the engine reads the template of examples/simple\<close>

text \<open>The code between the first two tags: it goes on to the first \<open>~]]\<close>, past \<open>+]]\<close> and the next \<open>[[\<close>.\<close>

definition simple_parameters :: string where
  "simple_parameters =
     '' // parameters begin'' @ [CHR 0x0A] @
     [CHR 0x0A] @
     ''const auto headerGuard'' @ [CHR 0x0A] @
     ''  = GetWithDefault<std::string>(cxtpl_params, '' @ [CHR 0x22] @ ''headerGuard'' @ [CHR 0x22] @ '', '' @ [CHR 0x22] @ [CHR 0x22] @ '');'' @ [CHR 0x0A] @
     [CHR 0x0A] @
     ''const auto generator_path'' @ [CHR 0x0A] @
     ''  = GetWithDefault<std::string>(cxtpl_params, '' @ [CHR 0x22] @ ''generator_path'' @ [CHR 0x22] @ '', '' @ [CHR 0x22] @ [CHR 0x22] @ '');'' @ [CHR 0x0A] @
     [CHR 0x0A] @
     ''std::vector<std::string> generator_includes'' @ [CHR 0x0A] @
     ''  = GetWithDefault<std::vector<std::string>>'' @ [CHR 0x0A] @
     ''      (cxtpl_params, '' @ [CHR 0x22] @ ''generator_includes'' @ [CHR 0x22] @ '', std::vector<std::string>{});'' @ [CHR 0x0A] @
     [CHR 0x0A] @
     ''reflection::ClassInfoPtr ReflectedBaseTypeclass'' @ [CHR 0x0A] @
     ''  = GetWithDefault<reflection::ClassInfoPtr>'' @ [CHR 0x0A] @
     ''      (cxtpl_params, '' @ [CHR 0x22] @ ''ReflectedBaseTypeclass'' @ [CHR 0x22] @ '', nullptr);'' @ [CHR 0x0A] @
     [CHR 0x0A] @
     ''std::string ImplTypeclassName'' @ [CHR 0x0A] @
     ''  = GetWithDefault<std::string>'' @ [CHR 0x0A] @
     ''      (cxtpl_params, '' @ [CHR 0x22] @ ''ImplTypeclassName'' @ [CHR 0x22] @ '', '' @ [CHR 0x22] @ [CHR 0x22] @ '');'' @ [CHR 0x0A] @
     [CHR 0x0A] @
     ''std::string BaseTypeclassName'' @ [CHR 0x0A] @
     ''  = GetWithDefault<std::string>'' @ [CHR 0x0A] @
     ''      (cxtpl_params, '' @ [CHR 0x22] @ ''BaseTypeclassName'' @ [CHR 0x22] @ '', '' @ [CHR 0x22] @ [CHR 0x22] @ '');'' @ [CHR 0x0A] @
     [CHR 0x0A] @
     ''// parameters end'' @ [CHR 0x0A] @
     ''/* no newline */ +]][[''"

definition simple_pieces :: "plain_piece list" where
  "simple_pieces = [
     ([CHR 0x0A], Block, simple_parameters, ''~]]''),
     ([CHR 0x0A] @ ''// This is generated file. Do not modify directly.'' @ [CHR 0x0A] @ ''// Path to the code generator: '', Raw, '' generator_path '', ''+]]''),
     (''.'' @ [CHR 0x0A] @ [CHR 0x0A], Raw, '' startHeaderGuard(headerGuard) /* no newline */ '', ''+]]''),
     ([], Line, [], [CHR 0x0A]),
     ([CHR 0x0A], Line, '' for(const auto& fileName: generator_includes) {'', [CHR 0x0A]),
     ([], Raw, '' fileName '', ''+]]''),
     ([CHR 0x0A], Line, '' } // end for'', [CHR 0x0A]),
     ([CHR 0x0A] @ ''#include <array>'' @ [CHR 0x0A] @ ''#include <functional>'' @ [CHR 0x0A] @ ''#include <memory>'' @ [CHR 0x0A] @ [CHR 0x0A] @ ''namespace cxxctp {'' @ [CHR 0x0A] @ ''namespace generated {'' @ [CHR 0x0A] @ [CHR 0x0A], Line, ''  { // startscope'', [CHR 0x0A]),
     ([], Line, ''    for(const auto& method: ReflectedBaseTypeclass->methods) {'', [CHR 0x0A]),
     ([], Line, ''      const size_t methodParamsSize = method->params.size();'', [CHR 0x0A]),
     ([], Line, ''      const bool needPrint = !method->isImplicit'', [CHR 0x0A]),
     ([], Line, ''          && !method->isOperator'', [CHR 0x0A]),
     ([], Line, ''          && !method->isCtor'', [CHR 0x0A]),
     ([], Line, ''          && !method->isDtor;'', [CHR 0x0A]),
     ([], Line, ''      if(needPrint) {'', [CHR 0x0A]),
     (''  template<>'' @ [CHR 0x0A], Raw, '' method->isExplicitCtor ? '' @ [CHR 0x22] @ ''explicit '' @ [CHR 0x22] @ '' : '' @ [CHR 0x22] @ [CHR 0x22] @ '' '', ''+]]''),
     ([], Line, '' /* no newline */'', [CHR 0x0A]),
     ([], Raw, '' method->isConstexpr ? '' @ [CHR 0x22] @ ''constexpr '' @ [CHR 0x22] @ '' : '' @ [CHR 0x22] @ [CHR 0x22] @ '' '', ''+]]''),
     ([], Line, '' /* no newline */'', [CHR 0x0A]),
     ([], Raw, '' method->isStatic ? '' @ [CHR 0x22] @ ''static '' @ [CHR 0x22] @ '' : '' @ [CHR 0x22] @ [CHR 0x22] @ '' '', ''+]]''),
     ([], Line, '' /* no newline */'', [CHR 0x0A]),
     ([], Raw, '' method->returnType->getPrintedName() '', ''+]]''),
     ([], Line, '' /* no newline */'', [CHR 0x0A]),
     ([], Raw, '' '' @ [CHR 0x22] @ '' '' @ [CHR 0x22] @ '' '', ''+]]''),
     ([], Line, '' /* no newline */'', [CHR 0x0A]),
     ([], Raw, '' method->name '', ''+]]''),
     ([], Line, '' /* no newline */'', [CHR 0x0A]),
     (''< '', Raw, '' BaseTypeclassName '', ''+]]''),
     ('', '', Raw, '' ImplTypeclassName '', ''+]]''),
     ('' >'' @ [CHR 0x0A] @ ''(const '', Raw, '' ImplTypeclassName '', ''+]]''),
     (''& data'', Line, '' /* no newline */'', [CHR 0x0A]),
     ([], Line, '' if(methodParamsSize) {'', [CHR 0x0A]),
     ([], Raw, ''   '' @ [CHR 0x22] @ '', '' @ [CHR 0x22] @ '' '', ''+]]''),
     ([], Line, '' /* no newline */'', [CHR 0x0A]),
     ([], Raw, '' paramsFullDecls(method->params) '', ''+]]''),
     ([], Line, '' /* no newline */'', [CHR 0x0A]),
     ([], Line, '' } // methodParamsSize'', [CHR 0x0A]),
     ('') '', Line, '' /* no newline */'', [CHR 0x0A]),
     ([], Raw, '' method->isNoExcept ? '' @ [CHR 0x22] @ ''noexcept '' @ [CHR 0x22] @ '' : '' @ [CHR 0x22] @ [CHR 0x22] @ '' '', ''+]]''),
     ([], Line, '' /* no newline */'', [CHR 0x0A]),
     ('';'' @ [CHR 0x0A], Block, '' /* newline */ +]]'' @ [CHR 0x0A] @ ''[['', ''~]]''),
     (''      } // needPrint'' @ [CHR 0x0A], Line, ''    } // methods endfor'', [CHR 0x0A]),
     ([], Line, ''  } // endscope'', [CHR 0x0A]),
     ([CHR 0x0A] @ ''/*template <>'' @ [CHR 0x0A], Raw, '' ImplTypeclassName '', ''+]]''),
     (''& _tc_model_t<'', Raw, '' BaseTypeclassName '', ''+]]''),
     (''>::ref_concrete<'', Raw, '' ImplTypeclassName '', ''+]]''),
     (''>() noexcept;'' @ [CHR 0x0A] @ ''*/'' @ [CHR 0x0A] @ [CHR 0x0A] @ ''template<>'' @ [CHR 0x0A] @ ''struct _tc_impl_t<'', Raw, '' ImplTypeclassName '', ''+]]''),
     ('', '', Raw, '' BaseTypeclassName '', ''+]]''),
     (''>'' @ [CHR 0x0A] @ ''    : public _tc_model_t<'', Raw, '' BaseTypeclassName '', ''+]]''),
     (''> {'' @ [CHR 0x0A] @ ''    typedef '', Raw, '' ImplTypeclassName '', ''+]]''),
     ('' val_type_t;'' @ [CHR 0x0A] @ [CHR 0x0A] @ ''    // Construct the embedded concrete type.'' @ [CHR 0x0A] @ ''    template<typename... args_t>'' @ [CHR 0x0A] @ ''    _tc_impl_t(args_t&&... args) noexcept : concrete(std::forward<args_t>(args)...) { }'' @ [CHR 0x0A] @ [CHR 0x0A] @ ''    explicit _tc_impl_t(const '', Raw, '' ImplTypeclassName '', ''+]]''),
     (''& concrete_arg) noexcept'' @ [CHR 0x0A] @ ''      : concrete(concrete_arg) {}'' @ [CHR 0x0A] @ [CHR 0x0A] @ ''    /*const size_t getModelTypeIndex() const noexcept override final {'' @ [CHR 0x0A] @ ''        return _tc_registry<'', Raw, '' BaseTypeclassName '', ''+]]''),
     (''>::'' @ [CHR 0x0A] @ ''            getTypeIndex<'', Raw, '' ImplTypeclassName '', ''+]]''),
     (''>();'' @ [CHR 0x0A] @ ''    }*/'' @ [CHR 0x0A] @ [CHR 0x0A] @ [CHR 0x0A], Line, ''  { // startscope'', [CHR 0x0A]),
     ([], Line, ''    for(const auto& method: ReflectedBaseTypeclass->methods) {'', [CHR 0x0A]),
     ([], Line, ''      const size_t methodParamsSize = method->params.size();'', [CHR 0x0A]),
     ([], Line, ''      const bool needPrint = !method->isImplicit'', [CHR 0x0A]),
     ([], Line, ''          && !method->isOperator'', [CHR 0x0A]),
     ([], Line, ''          && !method->isCtor'', [CHR 0x0A]),
     ([], Line, ''          && !method->isDtor;'', [CHR 0x0A]),
     ([], Line, ''      if(method->isTemplate()) {'', [CHR 0x0A]),
     (''template< '', Raw, '' templateParamsFullDecls(method->tplParams) '', ''+]]''),
     ('' >'' @ [CHR 0x0A], Line, ''      } // method->isTemplate'', [CHR 0x0A]),
     ([], Line, ''      if(needPrint) {'', [CHR 0x0A]),
     ([], Raw, '' method->isExplicitCtor ? '' @ [CHR 0x22] @ ''explicit '' @ [CHR 0x22] @ '' : '' @ [CHR 0x22] @ [CHR 0x22] @ '' '', ''+]]''),
     ([], Line, '' /* no newline */'', [CHR 0x0A]),
     ([], Raw, '' method->isConstexpr ? '' @ [CHR 0x22] @ ''constexpr '' @ [CHR 0x22] @ '' : '' @ [CHR 0x22] @ [CHR 0x22] @ '' '', ''+]]''),
     ([], Line, '' /* no newline */'', [CHR 0x0A]),
     ([], Raw, '' method->isStatic ? '' @ [CHR 0x22] @ ''static '' @ [CHR 0x22] @ '' : '' @ [CHR 0x22] @ [CHR 0x22] @ '' '', ''+]]''),
     ([], Line, '' /* no newline */'', [CHR 0x0A]),
     ([], Raw, '' method->returnType->getPrintedName() '', ''+]]''),
     ([], Line, '' /* no newline */'', [CHR 0x0A]),
     ([], Raw, '' '' @ [CHR 0x22] @ '' __'' @ [CHR 0x22] @ '' '', ''+]]''),
     ([], Line, '' /* no newline */'', [CHR 0x0A]),
     ([], Raw, '' method->name '', ''+]]''),
     ([], Line, '' /* no newline */'', [CHR 0x0A]),
     (''('' @ [CHR 0x0A], Raw, '' paramsFullDecls(method->params) '', ''+]]''),
     ([], Line, '' /* no newline */'', [CHR 0x0A]),
     ('') '', Line, '' /* no newline */'', [CHR 0x0A]),
     ([], Raw, '' method->isConst ? '' @ [CHR 0x22] @ ''const '' @ [CHR 0x22] @ '' : '' @ [CHR 0x22] @ [CHR 0x22] @ '' '', ''+]]''),
     ([], Line, '' /* no newline */'', [CHR 0x0A]),
     ([], Raw, '' method->isNoExcept ? '' @ [CHR 0x22] @ ''noexcept '' @ [CHR 0x22] @ '' : '' @ [CHR 0x22] @ [CHR 0x22] @ '' '', ''+]]''),
     ([], Line, '' /* no newline */'', [CHR 0x0A]),
     (''override final'' @ [CHR 0x0A] @ ''  {'' @ [CHR 0x0A] @ ''    /// '' @ [CHR 0x5C] @ ''note passes data, not ref'' @ [CHR 0x0A] @ ''    return '', Raw, '' method->name '', ''+]]''),
     ([], Line, '' /* no newline */'', [CHR 0x0A]),
     (''< '', Raw, '' BaseTypeclassName '', ''+]]''),
     ('' >'', Line, '' /* no newline */'', [CHR 0x0A]),
     (''('', Line, '' /* no newline */'', [CHR 0x0A]),
     (''concrete'', Line, '' /* no newline */'', [CHR 0x0A]),
     ([], Raw, '' methodParamsSize ? '' @ [CHR 0x22] @ '', '' @ [CHR 0x22] @ '' : '' @ [CHR 0x22] @ [CHR 0x22] @ '' '', ''+]]''),
     ([], Line, '' /* no newline */'', [CHR 0x0A]),
     ([], Raw, '' paramsCallDecls(method->params) '', ''+]]''),
     ([], Line, '' /* no newline */'', [CHR 0x0A]),
     ('');'' @ [CHR 0x0A] @ ''  }'' @ [CHR 0x0A], Block, '' /* newline */ +]]'' @ [CHR 0x0A] @ ''[['', ''~]]''),
     (''      } // needPrint'' @ [CHR 0x0A], Line, ''    } // methods endfor'', [CHR 0x0A]),
     ([], Line, ''  } // endscope'', [CHR 0x0A]),
     ([CHR 0x0A] @ ''    std::unique_ptr<'' @ [CHR 0x0A] @ ''        _tc_model_t<'', Raw, '' BaseTypeclassName '', ''+]]''),
     (''>>'' @ [CHR 0x0A] @ ''    clone() noexcept override final {'' @ [CHR 0x0A] @ ''        // Copy-construct a new instance of _tc_impl_t on the heap.'' @ [CHR 0x0A] @ ''        return std::make_unique<_tc_impl_t>(concrete);'' @ [CHR 0x0A] @ ''    }'' @ [CHR 0x0A] @ [CHR 0x0A] @ ''    std::unique_ptr<'' @ [CHR 0x0A] @ ''        _tc_model_t<'', Raw, '' BaseTypeclassName '', ''+]]''),
     (''>>'' @ [CHR 0x0A] @ ''    move_clone() noexcept override final {'' @ [CHR 0x0A] @ ''        return std::make_unique<_tc_impl_t>(std::move(concrete));'' @ [CHR 0x0A] @ ''    }'' @ [CHR 0x0A] @ [CHR 0x0A] @ ''    '', Raw, '' ImplTypeclassName '', ''+]]''),
     (''* operator->() {'' @ [CHR 0x0A] @ ''        return &concrete;'' @ [CHR 0x0A] @ ''    }'' @ [CHR 0x0A] @ [CHR 0x0A] @ ''  // Our actual data.'' @ [CHR 0x0A] @ ''  '', Raw, '' ImplTypeclassName '', ''+]]''),
     ('' concrete;'' @ [CHR 0x0A] @ ''};'' @ [CHR 0x0A] @ [CHR 0x0A] @ ''} // namespace cxxctp'' @ [CHR 0x0A] @ ''} // namespace generated'' @ [CHR 0x0A] @ [CHR 0x0A], Raw, '' endHeaderGuard(headerGuard) /* no newline */ '', ''+]]''),
     ([], Line, [], [CHR 0x0A])]"

definition simple_tail :: string where
  "simple_tail = [CHR 0x0A] @ ''    ''"

lemmas simple_defs = simple_pieces_def simple_parameters_def simple_tail_def simple_input_def

lemma simple_print: "plain_print simple_pieces simple_tail = simple_input"
  by (simp add: plain_print_def simple_defs)

lemma simple_pieces_ok: "list_all piece_ok simple_pieces"
  by code_simp

lemma simple_tail_ok: "str_find ''[['' simple_tail = None"
  by code_simp

lemma simple_ascii: "list_all is_ascii8 simple_input"
  by (simp add: simple_input_def is_ascii8_digit7)

lemma simple_plain: "plain_ok simple_pieces simple_tail"
  by (simp add: plain_ok_def simple_defs is_ascii8_digit7)

lemma simple_length: "length simple_input = 5294"
  by code_simp

lemma simple_bom: "bom_of simple_input = None"
  by code_simp

lemma simple_decoded:
  assumes "icu_latin1 conv"
  shows "ConvertResponseToUTF16 conv [] simple_input = ([], ASCIIToUTF16 simple_input)"
proof -
  have "snd (ConvertToUTF16WithSubstitutions conv simple_input kCodepageLatin1) = ASCIIToUTF16 simple_input"
    using latin1_convert [OF assms] by (simp add: simple_length latin1_ASCII [OF simple_ascii])
  then show ?thesis
    by (simp add: ConvertResponseToUTF16.simps [of conv "[]"] find_bom simple_bom ConvertResponseToUTF16_charset
        kCodepageLatin1_def)
qed

section \<open>Properties\<close>

text \<open>
  C35: the program of \<open>examples/simple\<close> translates its template and succeeds. But the first tag of the
  template, opened by \<open>[[~\<close> and closed by \<open>+]]\<close>, is no tag: the generated C++ begins with the raw text before it
  and then holds \<open>+]][[\<close> after the parameters.
\<close>

theorem simple_demo_output:
  assumes "icu_latin1 (converters env)"
  shows "simple_main depth cfg env diff_ms diff_ns =
      Ret \<lparr>exit_code = EXIT_SUCCESS,
           std_out = ''genResult.value():'' @ endl @ plain_code simple_pieces simple_tail @ endl @ done_in diff_ms diff_ns,
           std_err = []\<rparr> \<and>
    prefix (plain_text_code [CHR 0x0A] @ simple_parameters) (plain_code simple_pieces simple_tail) \<and>
    suffix ''+]][['' simple_parameters"
proof -
  have "simple_input \<noteq> []" using simple_length by force
  then have "generate depth cfg env (ASCIIToUTF16 simple_input) = success (plain_code simple_pieces simple_tail)"
    using generate_plain [OF simple_pieces_ok simple_tail_ok simple_plain] simple_print simple_length by simp
  then have "simple_main depth cfg env diff_ms diff_ns =
      Ret \<lparr>exit_code = EXIT_SUCCESS,
           std_out = ''genResult.value():'' @ endl @ plain_code simple_pieces simple_tail @ endl @ done_in diff_ms diff_ns,
           std_err = []\<rparr>"
    by (simp add: simple_main_def simple_run_def simple_decoded [OF assms])
  moreover have "prefix (plain_text_code [CHR 0x0A] @ simple_parameters) (plain_code simple_pieces simple_tail)"
    by (simp add: plain_code_def simple_pieces_def executeCodeMultiline_def)
  moreover have "suffix ''+]][['' simple_parameters" by code_simp
  ultimately show ?thesis by blast
qed

theorem simple_demo_output_witness:
  "run_bind (simple_main 0 debug_build (list_env []) 0 1500) (\<lambda>out. Ret (exit_code out)) = Ret 0"
proof -
  have "icu_latin1 (converters (list_env []))" by (simp add: list_env_def plain_icu_latin1)
  from simple_demo_output [OF this] show ?thesis by (simp add: EXIT_SUCCESS_def)
qed

end
