(* ===== verification/Cxtpl_Lexer.thy ===== *)
theory Cxtpl_Lexer
  imports Cxtpl_Codegen
begin

text \<open>
  What the generated source is for the compiler that reads it: its tokens. The lexer of C++ is a machine that reads one
  character at a time, so that the tokens of a source put together from fragments are the tokens of the fragments
  wherever a fragment ends between two tokens. It knows words and numbers, operators (the longest that fits), string and
  character literals with their prefixes and escapes, raw string literals, both kinds of comments, and directives, which go on to the
  end of their line. A spelling it does not know (a backslash outside of literals and comments, an unclosed literal) is \<open>Broken\<close>.
\<close>

section \<open>The machine\<close>

datatype token =
    Word string
  | Operator string
  | Quoted string char string
  | Raw_literal string string
  | Directive string

datatype mode =
    Between
  | In_word string
  | In_operator string
  | In_quoted string char string
  | In_escape string char string
  | In_delimiter string string
  | In_raw string string string
  | In_line_comment bool
  | In_block_comment bool
  | In_directive string bool
  | Broken

abbreviation backslash :: char where
  "backslash \<equiv> CHR 0x5C"

abbreviation line_feed :: char where
  "line_feed \<equiv> CHR 0x0A"

definition cpp_blank :: "char \<Rightarrow> bool" where
  "cpp_blank c \<longleftrightarrow> c \<in> {CHR 0x20, CHR 0x09, CHR 0x0A, CHR 0x0B, CHR 0x0C, CHR 0x0D}"

definition digit_char :: "char \<Rightarrow> bool" where
  "digit_char c \<longleftrightarrow> (let n = of_char c :: nat in 48 \<le> n \<and> n \<le> 57)"

text \<open>Letters, digits, the underscore, and the bytes of characters that are not ASCII.\<close>

definition name_char :: "char \<Rightarrow> bool" where
  "name_char c \<longleftrightarrow> (let n = of_char c :: nat in
     48 \<le> n \<and> n \<le> 57 \<or> 65 \<le> n \<and> n \<le> 90 \<or> n = 95 \<or> 97 \<le> n \<and> n \<le> 122 \<or> 128 \<le> n)"

text \<open>A number may go on with a point, a digit separator and the sign of an exponent.\<close>

definition goes_on :: "string \<Rightarrow> char \<Rightarrow> bool" where
  "goes_on w c \<longleftrightarrow> name_char c \<or>
     digit_char (hd w) \<and> (c = CHR ''.'' \<or> c = CHR 0x27 \<or> c \<in> set ''+-'' \<and> last w \<in> set ''eEpP'')"

definition long_operators :: "string list" where
  "long_operators =
     [''::'', ''->'', ''->*'', ''.*'', ''++'', ''--'', ''+='', ''-='', ''*='', ''/='', ''%='', ''^='', ''&='', ''|='', ''&&'', ''||'',
      ''=='', ''!='', ''<='', ''>='', ''<=>'', ''<<'', ''>>'', ''<<='', ''>>='']"

definition short_operators :: string where
  "short_operators = ''{}[]();:?.~!+-*/%^=&|<>,''"

text \<open>Could a longer operator begin like this? A slash can also begin a comment.\<close>

definition unfinished :: "string \<Rightarrow> bool" where
  "unfinished p \<longleftrightarrow> p = ''/'' \<or> list_ex (\<lambda>q. prefix p q \<and> p \<noteq> q) long_operators"

definition take_operator :: "string \<Rightarrow> mode \<times> token list" where
  "take_operator p = (if unfinished p then (In_operator p, []) else (Between, [Operator p]))"

definition begin_token :: "char \<Rightarrow> mode \<times> token list" where
  "begin_token c =
     (if cpp_blank c then (Between, [])
      else if name_char c then (In_word [c], [])
      else if c = CHR 0x22 \<or> c = CHR 0x27 then (In_quoted [] c [], [])
      else if c = CHR ''#'' then (In_directive [] False, [])
      else if c \<in> set short_operators then take_operator [c]
      else (Broken, []))"

definition after_token :: "token \<Rightarrow> char \<Rightarrow> mode \<times> token list" where
  "after_token t c = (case begin_token c of (m, ts) \<Rightarrow> (m, t # ts))"

definition literal_prefixes :: "string list" where
  "literal_prefixes = [''u8'', ''u'', ''U'', ''L'']"

definition raw_prefixes :: "string list" where
  "raw_prefixes = [''R'', ''u8R'', ''uR'', ''UR'', ''LR'']"

fun read_char :: "mode \<Rightarrow> char \<Rightarrow> mode \<times> token list" where
  "read_char Between c = begin_token c"
| "read_char (In_word w) c =
     (if goes_on w c then (In_word (w @ [c]), [])
      else if c = CHR 0x22 \<and> w \<in> set raw_prefixes then (In_delimiter w [], [])
      else if (c = CHR 0x22 \<or> c = CHR 0x27) \<and> w \<in> set literal_prefixes then (In_quoted w c [], [])
      else after_token (Word w) c)"
| "read_char (In_operator p) c =
     (if p = ''/'' \<and> c = CHR ''/'' then (In_line_comment False, [])
      else if p = ''/'' \<and> c = CHR ''*'' then (In_block_comment False, [])
      else if p @ [c] \<in> set long_operators then take_operator (p @ [c])
      else after_token (Operator p) c)"
| "read_char (In_quoted w q body) c =
     (if c = q then (Between, [Quoted w q body])
      else if c = backslash then (In_escape w q (body @ [c]), [])
      else if c = line_feed then (Broken, [])
      else (In_quoted w q (body @ [c]), []))"
| "read_char (In_escape w q body) c = (In_quoted w q (body @ [c]), [])"
| "read_char (In_delimiter w d) c =
     (if c = CHR ''('' then (if raw_delimiter_ok d then (In_raw w d [], []) else (Broken, []))
      else (In_delimiter w (d @ [c]), []))"
| "read_char (In_raw w d body) c =
     (let body' = body @ [c]; close = '')'' @ d @ dquote in
      if suffix close body' then (Between, [Raw_literal w (take (length body' - length close) body')])
      else (In_raw w d body', []))"
| "read_char (In_line_comment escaped) c =
     (if c = line_feed \<and> \<not> escaped then (Between, []) else (In_line_comment (c = backslash), []))"
| "read_char (In_block_comment star) c =
     (if star \<and> c = CHR ''/'' then (Between, []) else (In_block_comment (c = CHR ''*''), []))"
| "read_char (In_directive line escaped) c =
     (if c = line_feed \<and> \<not> escaped then (Between, [Directive line]) else (In_directive (line @ [c]) (c = backslash), []))"
| "read_char Broken c = (Broken, [])"

fun lex_from :: "mode \<Rightarrow> string \<Rightarrow> mode \<times> token list" where
  "lex_from m [] = (m, [])"
| "lex_from m (c # cs) = (case read_char m c of (m', ts) \<Rightarrow> (case lex_from m' cs of (m'', us) \<Rightarrow> (m'', ts @ us)))"

section \<open>Fragments\<close>

text \<open>A source that ends between two tokens, and its tokens.\<close>

definition whole :: "string \<Rightarrow> bool" where
  "whole s \<longleftrightarrow> fst (lex_from Between s) = Between"

definition tokens_of :: "string \<Rightarrow> token list" where
  "tokens_of s = snd (lex_from Between s)"

lemma lex_append: "lex_from m (a @ b) = (case lex_from m a of (m', ts) \<Rightarrow> (case lex_from m' b of (m'', us) \<Rightarrow> (m'', ts @ us)))"
  by (induction a arbitrary: m) (simp_all split: prod.split)

lemma lex_whole: "whole s \<Longrightarrow> lex_from Between s = (Between, tokens_of s)"
  by (simp add: whole_def tokens_of_def prod_eq_iff)

lemma lexed: "lex_from Between s = (Between, ts) \<longleftrightarrow> whole s \<and> tokens_of s = ts"
  by (auto simp: whole_def tokens_of_def prod_eq_iff)

lemma whole_append [simp]: "whole a \<Longrightarrow> whole (a @ b) \<longleftrightarrow> whole b"
  and tokens_append [simp]: "whole a \<Longrightarrow> tokens_of (a @ b) = tokens_of a @ tokens_of b"
  by (auto simp: whole_def tokens_of_def lex_append split: prod.splits)

lemma whole_Nil [simp]: "whole []" "tokens_of [] = []"
  by (simp_all add: whole_def tokens_of_def)

text \<open>A raw string literal ends at the first closing mark.\<close>

lemma lex_raw_body:
  assumes "\<And>a b. s = a @ b \<Longrightarrow> a \<noteq> [] \<Longrightarrow> \<not> suffix ('')'' @ d @ dquote) (body @ a)"
  shows "lex_from (In_raw w d body) s = (In_raw w d (body @ s), [])"
  using assms
proof (induction s arbitrary: body)
  case (Cons c cs)
  have "\<not> suffix ('')'' @ d @ dquote) (body @ [c])" using Cons.prems [of "[c]" cs] by simp
  moreover have "lex_from (In_raw w d (body @ [c])) cs = (In_raw w d ((body @ [c]) @ cs), [])"
  proof (rule Cons.IH)
    fix a b
    assume "cs = a @ b" "a \<noteq> []"
    then show "\<not> suffix ('')'' @ d @ dquote) ((body @ [c]) @ a)" using Cons.prems [of "c # a" b] by simp
  qed
  ultimately show ?case by (auto simp: Let_def)
qed simp

lemma lex_raw_text:
  assumes "\<not> sublist raw_close t"
  shows "lex_from (In_raw w ''raw'' []) (t @ raw_close) = (Between, [Raw_literal w t])"
proof -
  have found: "str_find raw_close (t @ raw_close @ []) = Some (length t)" by (rule raw_close_found [OF assms])
  have early: "\<not> suffix raw_close a" if "t @ raw_close = a @ b" "b \<noteq> []" for a b
  proof
    assume "suffix raw_close a"
    then obtain u where u: "a = u @ raw_close" by (auto simp: suffix_def)
    have "length a < length (t @ raw_close)" using that by simp
    then have "length u < length t" using u by simp
    moreover have "take (length raw_close) (drop (length u) (t @ raw_close @ [])) = raw_close" using that(1) u by simp
    ultimately show False using str_find_minimal [OF found] by blast
  qed
  have close: "raw_close = '')raw'' @ dquote" by (simp add: raw_close_def)
  have "lex_from (In_raw w ''raw'' []) (t @ '')raw'') = (In_raw w ''raw'' ([] @ (t @ '')raw'')), [])"
  proof (rule lex_raw_body)
    fix a b
    assume "t @ '')raw'' = a @ b" "a \<noteq> []"
    then have "\<not> suffix raw_close a" by (intro early [of a "b @ dquote"]) (simp_all add: close)
    then show "\<not> suffix ('')'' @ ''raw'' @ dquote) ([] @ a)" by (simp add: close)
  qed
  moreover have "suffix raw_close ((t @ '')raw'') @ dquote)" by (simp add: close suffix_def)
  ultimately show ?thesis
    by (simp add: close lex_append [of _ "t @ '')raw''" dquote, simplified] Let_def)
qed

end
