(* ===== verification/Cxtpl_Meaning.thy ===== *)
theory Cxtpl_Meaning
  imports Cxtpl_Plain Cxtpl_Lexer
begin

text \<open>
  The generated source as the compiler reads it. \<open>source_tokens\<close> says what the program of a template is, from the parts of
  the template alone: the tokens of its code, a statement for each expression, and a statement with a literal that has exactly the
  characters of each text. The tokens of the generated source are these, when each part is a fragment on its own: the
  code of a tag leaves no literal, comment or directive open on its last line, and no text has the closing mark of a raw literal.
\<close>

section \<open>The program of a template\<close>

definition append_statement :: "token list \<Rightarrow> token list" where
  "append_statement ts = Word kOutVarName # Operator ''+='' # ts @ [Operator '';'']"

definition text_tokens :: "string16 \<Rightarrow> token list" where
  "text_tokens t = (if t = [] then [] else append_statement [Raw_literal ''R'' (UTF16ToUTF8 t)])"

text \<open>A tag of code is followed by a newline, an expression by a blank.\<close>

definition kind_tokens :: "(string \<Rightarrow> token list) \<Rightarrow> kind \<Rightarrow> string \<Rightarrow> token list" where
  "kind_tokens included k code =
     (case k of
        Line \<Rightarrow> tokens_of (code @ cpp_newline)
      | Block \<Rightarrow> tokens_of (code @ cpp_newline)
      | Raw \<Rightarrow> append_statement (tokens_of (code @ '' ''))
      | As_string \<Rightarrow> append_statement ([Word ''std'', Operator ''::'', Word ''to_string'', Operator ''(''] @
          tokens_of (code @ '' '') @ [Operator '')''])
      | Include \<Rightarrow> included (clean_path code))"

definition piece_tokens :: "(string \<Rightarrow> token list) \<Rightarrow> piece \<Rightarrow> token list" where
  "piece_tokens included p = text_tokens (piece_text p) @ kind_tokens included (piece_kind p) (UTF16ToUTF8 (piece_code p))"

definition template_tokens :: "(string \<Rightarrow> token list) \<Rightarrow> string16 \<Rightarrow> token list" where
  "template_tokens included src =
     (case parse default_language src of
        (ps, Tail t) \<Rightarrow> concat (map (piece_tokens included) ps) @ text_tokens t
      | _ \<Rightarrow> [])"

text \<open>Includes nest, to a depth.\<close>

primrec source_tokens :: "nat \<Rightarrow> env \<Rightarrow> string16 \<Rightarrow> token list" where
  "source_tokens 0 env = template_tokens (\<lambda>_. [])"
| "source_tokens (Suc depth) env = template_tokens (\<lambda>path.
     case read_file (files env) path of Ret contents \<Rightarrow> source_tokens depth env (decoded env contents) | _ \<Rightarrow> [])"

section \<open>Fragments\<close>

definition text_ok :: "string16 \<Rightarrow> bool" where
  "text_ok t \<longleftrightarrow> \<not> sublist raw_close (UTF16ToUTF8 t)"

definition code_ok :: "kind \<Rightarrow> string \<Rightarrow> bool" where
  "code_ok k code \<longleftrightarrow>
     (case k of Line \<Rightarrow> whole (code @ cpp_newline) | Block \<Rightarrow> whole (code @ cpp_newline)
      | Raw \<Rightarrow> whole (code @ '' '') | As_string \<Rightarrow> whole (code @ '' '') | Include \<Rightarrow> True)"

definition template_ok :: "string16 \<Rightarrow> bool" where
  "template_ok src \<longleftrightarrow> length src < 2 ^ 61 \<and>
     (case parse default_language src of
        (ps, Tail t) \<Rightarrow> list_all (\<lambda>p. text_ok (piece_text p) \<and> code_ok (piece_kind p) (UTF16ToUTF8 (piece_code p))) ps \<and> text_ok t
      | _ \<Rightarrow> True)"

primrec source_ok :: "nat \<Rightarrow> env \<Rightarrow> string16 \<Rightarrow> bool" where
  "source_ok 0 env src \<longleftrightarrow> template_ok src"
| "source_ok (Suc depth) env src \<longleftrightarrow> template_ok src \<and>
     list_all (\<lambda>path. case read_file (files env) path of Ret contents \<Rightarrow> source_ok depth env (decoded env contents) | _ \<Rightarrow> True)
       (includes_of src)"

section \<open>The tokens of the generated statements\<close>

lemma lex_statement_head:
  "lex_from Between (cpp_newline @ kOutVarName @ cpp_newline @ '' += '') = (Between, [Word kOutVarName, Operator ''+=''])"
  unfolding kOutVarName_def by code_simp

lemma lex_concrete:
  "lex_from Between (''; '' @ cpp_newline) = (Between, [Operator '';''])"
  "lex_from Between ('' ; '' @ cpp_newline) = (Between, [Operator '';''])"
  "lex_from Between (cpp_newline @ '' std::to_string( '') = (Between, [Word ''std'', Operator ''::'', Word ''to_string'', Operator ''(''])"
  "lex_from Between ('') '' @ cpp_newline) = (Between, [Operator '')''])"
  "lex_from Between (cpp_newline @ raw_open) = (In_raw ''R'' ''raw'' [], [])"
  "lex_from Between cpp_newline = (Between, [])"
  by code_simp+

lemma whole_concrete [simp]:
  "whole (cpp_newline @ kOutVarName @ cpp_newline @ '' += '')"
  "tokens_of (cpp_newline @ kOutVarName @ cpp_newline @ '' += '') = [Word kOutVarName, Operator ''+='']"
  "whole (''; '' @ cpp_newline)" "tokens_of (''; '' @ cpp_newline) = [Operator '';'']"
  "whole (cpp_newline @ '' std::to_string( '')"
  "tokens_of (cpp_newline @ '' std::to_string( '') = [Word ''std'', Operator ''::'', Word ''to_string'', Operator ''('']"
  "whole ('') '' @ cpp_newline)" "tokens_of ('') '' @ cpp_newline) = [Operator '')'']"
  using lex_statement_head lex_concrete unfolding lexed by blast+

lemma lexed_append: "lex_from Between a = (Between, ts) \<Longrightarrow> lex_from Between b = (Between, us) \<Longrightarrow> lex_from Between (a @ b) = (Between, ts @ us)"
  by (simp add: lex_append)

lemma lex_appendToVariable:
  assumes "whole (e @ '' '')"
  shows "lex_from Between (appendToVariable e kOutVarName) = (Between, append_statement (tokens_of (e @ '' '')))"
proof -
  have "appendToVariable e kOutVarName =
      (cpp_newline @ kOutVarName @ cpp_newline @ '' += '') @ (e @ '' '') @ ''; '' @ cpp_newline"
    by (simp add: appendToVariable_def)
  then show ?thesis
    using lexed_append [OF lex_statement_head lexed_append [OF lex_whole [OF assms] lex_concrete(1)]]
    by (simp add: append_statement_def)
qed

lemma lex_appendToVariableAsString:
  assumes "whole (e @ '' '')"
  shows "lex_from Between (appendToVariableAsString e kOutVarName) = (Between, append_statement
    ([Word ''std'', Operator ''::'', Word ''to_string'', Operator ''(''] @ tokens_of (e @ '' '') @ [Operator '')'']))"
proof -
  let ?call = "cpp_newline @ '' std::to_string( '' @ e @ '' ) '' @ cpp_newline"
  have "?call = (cpp_newline @ '' std::to_string( '') @ (e @ '' '') @ '') '' @ cpp_newline" by simp
  then have call: "lex_from Between ?call = (Between, [Word ''std'', Operator ''::'', Word ''to_string'', Operator ''(''] @
      tokens_of (e @ '' '') @ [Operator '')''])"
    using lexed_append [OF lex_concrete(3) lexed_append [OF lex_whole [OF assms] lex_concrete(4)]] by (simp only:)
  have blank: "lex_from Between '' '' = (Between, [])" by code_simp
  have "lex_from Between (?call @ '' '') = (Between, ([Word ''std'', Operator ''::'', Word ''to_string'', Operator ''(''] @
      tokens_of (e @ '' '') @ [Operator '')'']) @ [])"
    by (rule lexed_append [OF call blank])
  then have "whole (?call @ '' '')" "tokens_of (?call @ '' '') = [Word ''std'', Operator ''::'', Word ''to_string'', Operator ''(''] @
      tokens_of (e @ '' '') @ [Operator '')'']"
    unfolding lexed by simp_all
  with lex_appendToVariable [of ?call] show ?thesis unfolding appendToVariableAsString_def by (simp only:)
qed

lemma lex_raw_statement:
  assumes "\<not> sublist raw_close t"
  shows "lex_from Between (appendToVariableAsRawText t kOutVarName) = (Between, append_statement [Raw_literal ''R'' t])"
proof -
  let ?lit = "cpp_newline @ raw_open @ t @ raw_close @ cpp_newline"
  have lit: "lex_from Between ((cpp_newline @ raw_open) @ (t @ raw_close) @ cpp_newline @ '' '') = (Between, [Raw_literal ''R'' t])"
  proof -
    have blank: "lex_from Between (cpp_newline @ '' '') = (Between, [])" by code_simp
    show ?thesis
      unfolding lex_append [of _ "cpp_newline @ raw_open"] lex_concrete(5) prod.case
        lex_append [of _ "t @ raw_close"] lex_raw_text [OF assms] blank by simp
  qed
  then have "whole (?lit @ '' '')" "tokens_of (?lit @ '' '') = [Raw_literal ''R'' t]"
    unfolding lexed by simp_all
  with lex_appendToVariable [of ?lit] show ?thesis unfolding appendToVariableAsRawText_def by (simp only:)
qed

lemma lex_raw_code: "text_ok t \<Longrightarrow> lex_from Between (raw_code t) = (Between, text_tokens t)"
  by (simp add: append_raw_text_def text_tokens_def text_ok_def lex_raw_statement begin_token_def cpp_blank_def)

lemma raw_code_newline: "\<exists>r. raw_code t = line_feed # r"
  by (simp add: append_raw_text_def appendToVariableAsRawText_split raw_text_head_def)

text \<open>A fragment that needs its newline, before a source that begins with one.\<close>

lemma lex_before_newline:
  assumes "whole (s @ cpp_newline)" "lex_from Between (line_feed # r) = (Between, ts)"
  shows "lex_from Between (s @ line_feed # r) = (Between, tokens_of (s @ cpp_newline) @ ts)"
proof -
  have "lex_from Between r = (Between, ts)" using assms(2) by (simp add: begin_token_def cpp_blank_def split: prod.splits)
  from lexed_append [OF lex_whole [OF assms(1)] this] show ?thesis by simp
qed

lemma lex_rendered:
  assumes "default_render depth cfg env k code = success s" "code_ok k code"
    and "\<And>out. k = Include \<Longrightarrow> include_text depth cfg env code = success out \<Longrightarrow> lex_from Between out = (Between, included (clean_path code))"
  shows "whole (s @ cpp_newline) \<and> tokens_of (s @ cpp_newline) = kind_tokens included k code"
proof -
  have nl: "lex_from Between (s @ cpp_newline) = (Between, ts)" if "lex_from Between s = (Between, ts)" for ts
    using lexed_append [OF that lex_concrete(6)] by simp
  have "lex_from Between (s @ cpp_newline) = (Between, kind_tokens included k code)"
  proof (cases k)
    case Raw
    then show ?thesis using assms lex_appendToVariable [of code]
      by (intro nl) (simp add: default_render_def code_ok_def kind_tokens_def)
  next
    case As_string
    then show ?thesis using assms lex_appendToVariableAsString [of code]
      by (intro nl) (simp add: default_render_def code_ok_def kind_tokens_def)
  next
    case Include
    then show ?thesis using assms by (intro nl) (simp add: default_render_def kind_tokens_def)
  qed (use assms in \<open>simp_all add: default_render_def code_ok_def kind_tokens_def executeCodeLine_def executeCodeMultiline_def lex_whole\<close>)
  then show ?thesis unfolding lexed by blast
qed

lemma lex_template:
  assumes "render_all (default_render depth cfg env) ps = success body" "text_ok t"
    and "list_all (\<lambda>p. text_ok (piece_text p) \<and> code_ok (piece_kind p) (UTF16ToUTF8 (piece_code p))) ps"
    and "\<And>p out. p \<in> set ps \<Longrightarrow> piece_kind p = Include \<Longrightarrow> include_text depth cfg env (UTF16ToUTF8 (piece_code p)) = success out \<Longrightarrow>
      lex_from Between out = (Between, included (clean_path (UTF16ToUTF8 (piece_code p))))"
  shows "lex_from Between (body @ raw_code t) = (Between, concat (map (piece_tokens included) ps) @ text_tokens t) \<and>
    (\<exists>r. body @ raw_code t = line_feed # r)"
  using assms
proof (induction ps arbitrary: body)
  case Nil
  then show ?case using lex_raw_code raw_code_newline by simp
next
  case (Cons p ps)
  let ?code = "UTF16ToUTF8 (piece_code p)"
  obtain s body' where s: "default_render depth cfg env (piece_kind p) ?code = success s"
    and body': "render_all (default_render depth cfg env) ps = success body'" "body = raw_code (piece_text p) @ s @ body'"
    using Cons.prems(1) by (auto simp: OUTCOME_TRY_eq_success)
  from Cons.IH [OF body'(1) Cons.prems(2)] Cons.prems(3,4) obtain r where
    r: "body' @ raw_code t = line_feed # r"
    and rest: "lex_from Between (line_feed # r) = (Between, concat (map (piece_tokens included) ps) @ text_tokens t)"
    by auto
  have "whole (s @ cpp_newline) \<and> tokens_of (s @ cpp_newline) = kind_tokens included (piece_kind p) ?code"
    by (rule lex_rendered [OF s]) (use Cons.prems(3,4) in auto)
  with lex_before_newline [OF _ rest, of s]
  have "lex_from Between (s @ line_feed # r) =
      (Between, kind_tokens included (piece_kind p) ?code @ concat (map (piece_tokens included) ps) @ text_tokens t)" by simp
  moreover have "lex_from Between (raw_code (piece_text p)) = (Between, text_tokens (piece_text p))"
    by (rule lex_raw_code) (use Cons.prems(3) in simp)
  ultimately have "lex_from Between (raw_code (piece_text p) @ s @ line_feed # r) = (Between, text_tokens (piece_text p) @
      kind_tokens included (piece_kind p) ?code @ concat (map (piece_tokens included) ps) @ text_tokens t)"
    by (metis lexed_append)
  moreover have "body @ raw_code t = raw_code (piece_text p) @ s @ line_feed # r" using body'(2) r by simp
  moreover have "concat (map (piece_tokens included) (p # ps)) = text_tokens (piece_text p) @
      kind_tokens included (piece_kind p) ?code @ concat (map (piece_tokens included) ps)" by (simp add: piece_tokens_def)
  moreover obtain r' where "raw_code (piece_text p) = line_feed # r'" using raw_code_newline by blast
  ultimately show ?case by (metis append.assoc append_Cons)
qed

text \<open>A run, its includes given.\<close>

lemma generate_lexed:
  assumes gen: "generate depth cfg env src = success out" and ok: "template_ok src"
    and included: "\<And>code s. length code < 2 ^ 64 - 1 \<Longrightarrow> clean_path code \<in> set (includes_of src) \<Longrightarrow>
      include_text depth cfg env code = success s \<Longrightarrow> lex_from Between s = (Between, included (clean_path code))"
  shows "lex_from Between out = (Between, template_tokens included src)"
proof -
  have ne: "src \<noteq> []" using gen by (auto simp: generate_empty)
  have len: "length src < 2 ^ 61" using ok by (simp add: template_ok_def)
  then have "length src < 2 ^ 63" by simp
  from gen [unfolded default_generate_iff [OF ne this]] obtain ps t body where
    can: "canonical default_language ps t" and src: "src = print_template default_language ps (Tail t)"
    and body: "render_all (default_render depth cfg env) ps = success body" "out = body @ raw_code t" by blast
  have "lang_open default_language \<noteq> []" by (simp add: default_language_def)
  from parse_print [OF this can] have parse: "parse default_language src = (ps, Tail t)" by (simp add: src)
  have fragments: "text_ok t" "list_all (\<lambda>p. text_ok (piece_text p) \<and> code_ok (piece_kind p) (UTF16ToUTF8 (piece_code p))) ps"
    using ok by (simp_all add: template_ok_def parse)
  have "lex_from Between s = (Between, included (clean_path (UTF16ToUTF8 (piece_code p))))"
    if "p \<in> set ps" "piece_kind p = Include" "include_text depth cfg env (UTF16ToUTF8 (piece_code p)) = success s" for p s
  proof (rule included [OF include_path_length [OF parse that(1) len] _ that(3)])
    show "clean_path (UTF16ToUTF8 (piece_code p)) \<in> set (includes_of src)" using that by (auto simp: includes_of_def parse)
  qed
  then have "lex_from Between (body @ raw_code t) = (Between, concat (map (piece_tokens included) ps) @ text_tokens t)"
    using lex_template [OF body(1) fragments] by blast
  then show ?thesis by (simp add: body(2) template_tokens_def parse)
qed

lemma generate_tokens:
  "generate depth cfg env src = success out \<Longrightarrow> source_ok depth env src \<Longrightarrow>
     lex_from Between out = (Between, source_tokens depth env src)"
proof (induction depth arbitrary: src out)
  case 0
  have none: "include_text 0 cfg env code \<noteq> success s" for code s by (simp add: include_text_def)
  have "template_ok src" using 0 by simp
  then show ?case unfolding source_tokens.simps by (intro generate_lexed [OF 0(1)]) (use none in auto)
next
  case (Suc depth)
  show ?case
    unfolding source_tokens.simps
  proof (rule generate_lexed [OF Suc.prems(1)])
    show "template_ok src" using Suc.prems(2) by simp
    fix code s
    assume code: "length code < 2 ^ 64 - 1" "clean_path code \<in> set (includes_of src)" "include_text (Suc depth) cfg env code = success s"
    from code(3) [unfolded include_text_Suc [OF code(1)]] obtain contents where
      contents: "read_file (files env) (clean_path code) = Ret contents" "contents \<noteq> []"
      and s: "generate depth cfg env (decoded env contents) = success s"
      by (cases "read_file (files env) (clean_path code)")
        (auto simp: OUTCOME_TRY_eq_success decoded_def split: if_splits)
    have "source_ok depth env (decoded env contents)"
      using Suc.prems(2) code(2) contents(1) by (auto simp: list_all_iff)
    from Suc.IH [OF s this] show "lex_from Between s = (Between, case read_file (files env) (clean_path code) of
        Ret contents \<Rightarrow> source_tokens depth env (decoded env contents) | _ \<Rightarrow> [])" by (simp add: contents(1))
  qed
qed

section \<open>ASCII templates\<close>

definition plain_text_tokens :: "string \<Rightarrow> token list" where
  "plain_text_tokens raw = (if raw = [] then [] else append_statement [Raw_literal ''R'' raw])"

definition plain_tokens :: "plain_piece list \<Rightarrow> string \<Rightarrow> token list" where
  "plain_tokens ps t =
     concat (map (\<lambda>(raw, k, code, _). plain_text_tokens raw @ kind_tokens (\<lambda>_. []) k code) ps) @ plain_text_tokens t"

definition plain_fragments :: "plain_piece list \<Rightarrow> string \<Rightarrow> bool" where
  "plain_fragments ps t \<longleftrightarrow> str_find raw_close t = None \<and>
     list_all (\<lambda>(raw, k, code, _). str_find raw_close raw = None \<and> code_ok k code) ps"

lemma piece_tokens_plain:
  "list_all is_ascii8 raw \<Longrightarrow> list_all is_ascii8 code \<Longrightarrow> piece_tokens included (piece_of (raw, k, code, closer)) =
     plain_text_tokens raw @ kind_tokens included k code"
  by (simp add: piece_tokens_def piece_of_def text_tokens_def plain_text_tokens_def UTF16ToUTF8_ASCII)

lemma source_plain:
  assumes "list_all piece_ok ps" "str_find ''[['' t = None" "plain_ok ps t" "plain_fragments ps t"
    and "length (plain_print ps t) < 2 ^ 61"
  shows "source_ok 0 env (ASCIIToUTF16 (plain_print ps t))"
    and "source_tokens 0 env (ASCIIToUTF16 (plain_print ps t)) = plain_tokens ps t"
proof -
  let ?src = "ASCIIToUTF16 (plain_print ps t)"
  from plain_canonical [OF assms(1,2)] have can: "canonical default_language (map piece_of ps) (ASCIIToUTF16 t)"
    and src: "print_template default_language (map piece_of ps) (Tail (ASCIIToUTF16 t)) = ?src" by simp_all
  have "lang_open default_language \<noteq> []" by (simp add: default_language_def)
  from parse_print [OF this can] have parse: "parse default_language ?src = (map piece_of ps, Tail (ASCIIToUTF16 t))"
    by (simp add: src)
  have tail: "UTF16ToUTF8 (ASCIIToUTF16 t) = t" using assms(3) by (simp add: plain_ok_def UTF16ToUTF8_ASCII)
  have ascii: "list_all is_ascii8 raw \<and> list_all is_ascii8 code" if "(raw, k, code, closer) \<in> set ps" for raw k code closer
    using assms(3) that by (auto simp: plain_ok_def list_all_iff)
  have "text_ok (piece_text (piece_of q)) \<and> code_ok (piece_kind (piece_of q)) (UTF16ToUTF8 (piece_code (piece_of q)))"
    if q: "q \<in> set ps" for q
  proof -
    obtain raw k code closer where q_eq: "q = (raw, k, code, closer)" by (cases q) auto
    have "str_find raw_close raw = None \<and> code_ok k code"
      using assms(4) q unfolding q_eq by (auto simp: plain_fragments_def list_all_iff)
    then show ?thesis
      using ascii q unfolding q_eq by (auto simp: piece_of_def UTF16ToUTF8_ASCII text_ok_def str_find_None_iff)
  qed
  moreover have "text_ok (ASCIIToUTF16 t)"
    using assms(4) by (simp add: plain_fragments_def text_ok_def tail str_find_None_iff)
  ultimately show "source_ok 0 env ?src"
    using assms(5) by (simp add: template_ok_def parse list_all_iff)
  have "map (piece_tokens (\<lambda>_. [])) (map piece_of ps) =
      map (\<lambda>(raw, k, code, _). plain_text_tokens raw @ kind_tokens (\<lambda>_. []) k code) ps"
    using ascii by (auto simp: piece_tokens_plain)
  note pieces = this
  show "source_tokens 0 env ?src = plain_tokens ps t"
    unfolding source_tokens.simps template_tokens_def parse prod.case ending.case pieces plain_tokens_def
    by (simp add: text_tokens_def plain_text_tokens_def tail)
qed

section \<open>Properties\<close>

text \<open>
  C4: the generated source as the compiler reads it, with nested includes. When no text has the closing mark of a raw literal and the
  code of each tag is a fragment on its own (no literal, comment or directive is left open where the tag ends; a comment or a directive may end
  with the line of a tag of code, but not with that of an expression), the source ends between two tokens, and
  its tokens are those of the program of the template: the tokens of the code in the order of the tags, one statement
  for each expression, and one statement with exactly the characters for each text.
\<close>

theorem generated_source_tokens:
  assumes "generate depth cfg env src = success out" "source_ok depth env src"
  shows "whole out \<and> tokens_of out = source_tokens depth env src"
  using generate_tokens [OF assms] unfolding lexed .

definition loop_template :: "plain_piece list" where
  "loop_template =
     [([], Line, '' for (int i = 0; i < 3; ++i) { // loop'', [CHR 0x0A]),
      (''item '', As_string, '' i '', ''*]]''),
      ([CHR 0x0A], Line, '' }'', [CHR 0x0A])]"

theorem generated_source_tokens_witness:
  "tokens_of (plain_code loop_template []) =
     map Word [''for''] @ [Operator ''('', Word ''int'', Word ''i'', Operator ''='', Word ''0'', Operator '';'',
       Word ''i'', Operator ''<'', Word ''3'', Operator '';'', Operator ''++'', Word ''i'', Operator '')'', Operator ''{''] @
     append_statement [Raw_literal ''R'' ''item ''] @
     append_statement [Word ''std'', Operator ''::'', Word ''to_string'', Operator ''('', Word ''i'', Operator '')''] @
     append_statement [Raw_literal ''R'' [CHR 0x0A]] @ [Operator ''}'']"
proof -
  have ok: "list_all piece_ok loop_template" "str_find ''[['' ([] :: string) = None" "plain_ok loop_template []"
    "plain_fragments loop_template []" "plain_print loop_template [] \<noteq> []"
    by code_simp+
  have "length (plain_print loop_template []) < 2 ^ 61" by (simp add: loop_template_def plain_print_def)
  note ok = ok this
  from ok(6) have len: "length (plain_print loop_template []) < 2 ^ 63" by simp
  have "whole (plain_code loop_template []) \<and> tokens_of (plain_code loop_template []) =
      source_tokens 0 (list_env []) (ASCIIToUTF16 (plain_print loop_template []))"
    by (rule generated_source_tokens [OF generate_plain [OF ok(1-3,5) len, of 0 debug_build] source_plain(1) [OF ok(1-4,6)]])
  moreover have "plain_tokens loop_template [] = map Word [''for''] @ [Operator ''('', Word ''int'', Word ''i'', Operator ''='', Word ''0'', Operator '';'',
       Word ''i'', Operator ''<'', Word ''3'', Operator '';'', Operator ''++'', Word ''i'', Operator '')'', Operator ''{''] @
     append_statement [Raw_literal ''R'' ''item ''] @
     append_statement [Word ''std'', Operator ''::'', Word ''to_string'', Operator ''('', Word ''i'', Operator '')''] @
     append_statement [Raw_literal ''R'' [CHR 0x0A]] @ [Operator ''}'']"
    by code_simp
  ultimately show ?thesis unfolding source_plain(2) [OF ok(1-4,6)] by (simp only:)
qed

text \<open>
  What the condition on expressions is for: a comment at the end of an expression takes the semicolon that is put behind it
  on the same line, so the statement goes on with whatever comes next.
\<close>

lemma expression_comment:
  assumes "lex_from Between (e @ '' '') = (In_line_comment False, ts)"
  shows "lex_from Between (appendToVariable e kOutVarName) = (Between, Word kOutVarName # Operator ''+='' # ts)"
proof -
  have split: "appendToVariable e kOutVarName =
      (cpp_newline @ kOutVarName @ cpp_newline @ '' += '') @ (e @ '' '') @ ''; '' @ cpp_newline"
    by (simp add: appendToVariable_def)
  have "lex_from (In_line_comment False) (''; '' @ cpp_newline) = (Between, [])" by code_simp
  then have "lex_from Between ((e @ '' '') @ ''; '' @ cpp_newline) = (Between, ts)"
    using assms unfolding lex_append [of _ "e @ '' ''"] by simp
  from lexed_append [OF lex_statement_head this] show ?thesis unfolding split by simp
qed

lemma expression_comment_example:
  "lex_from Between (appendToVariable '' name // the name '' kOutVarName) = (Between, [Word ''cxtpl_output'', Operator ''+='', Word ''name''])"
proof -
  have "lex_from Between ('' name // the name '' @ '' '') = (In_line_comment False, [Word ''name''])" by code_simp
  from expression_comment [OF this] show ?thesis by (simp add: kOutVarName_def)
qed

end
