(* ===== verification/Base_String_Order.thy ===== *)
theory Base_String_Order
  imports Base_String_Piece
begin

text \<open>
  What \<open>BasicStringPiece\<close> (\<open>third_party/chromium/base/strings/string_piece.h\<close> and \<open>string_piece.cc\<close>) does beside
  searching: the comparison of pieces on \<open>CharTraits\<close> (\<open>base/strings/char_traits.h\<close>), the access to a character and the
  copies into strings and buffers.
\<close>

section \<open>Comparing\<close>

text \<open>
  The values that two characters are compared by are a parameter: for \<open>char\<close> they are unsigned where the compiler has
  \<open>__builtin_memcmp\<close> as a constant expression, and those of \<open>char\<close> itself, which has a sign, where it has not.
\<close>

fun CharTraits_compare :: "('a \<Rightarrow> int) \<Rightarrow> 'a list \<Rightarrow> 'a list \<Rightarrow> nat \<Rightarrow> int" where
  "CharTraits_compare val s1 s2 0 = 0"
| "CharTraits_compare val s1 s2 (Suc n) =
     (if val (hd s1) < val (hd s2) then - 1
      else if val (hd s1) > val (hd s2) then 1
      else CharTraits_compare val (tl s1) (tl s2) n)"

definition unsigned_char :: "char \<Rightarrow> int" where
  "unsigned_char c = uint (byte c)"

definition signed_char :: "char \<Rightarrow> int" where
  "signed_char c = sint (byte c)"

definition piece_compare :: "('a \<Rightarrow> int) \<Rightarrow> 'a list \<Rightarrow> 'a list \<Rightarrow> int" where
  "piece_compare val self x =
     (let r = CharTraits_compare val self x (if length self < length x then length self else length x) in
      if r = 0 then (if length self < length x then - 1 else if length self > length x then 1 else r) else r)"

definition piece_eq :: "('a \<Rightarrow> int) \<Rightarrow> 'a list \<Rightarrow> 'a list \<Rightarrow> bool" where
  "piece_eq val lhs rhs \<longleftrightarrow> length lhs = length rhs \<and> piece_compare val lhs rhs = 0"

definition piece_less :: "('a \<Rightarrow> int) \<Rightarrow> 'a list \<Rightarrow> 'a list \<Rightarrow> bool" where
  "piece_less val lhs rhs \<longleftrightarrow> piece_compare val lhs rhs < 0"

section \<open>Characters and copies\<close>

definition piece_at :: "'a list \<Rightarrow> nat \<Rightarrow> 'a run" where
  "piece_at self i = run_bind (CHECK (i < length self)) (\<lambda>_. Ret (self ! i))"

definition piece_front :: "'a list \<Rightarrow> 'a run" where
  "piece_front self = run_bind (CHECK (0 \<noteq> length self)) (\<lambda>_. Ret (self ! 0))"

definition piece_back :: "'a list \<Rightarrow> 'a run" where
  "piece_back self = run_bind (CHECK (0 \<noteq> length self)) (\<lambda>_. Ret (self ! (length self - 1)))"

definition CopyToStringT :: "'a list \<Rightarrow> 'a list \<Rightarrow> 'a list" where
  "CopyToStringT self target = (if self = [] then [] else self)"

definition AppendToStringT :: "'a list \<Rightarrow> 'a list \<Rightarrow> 'a list" where
  "AppendToStringT self target = (if self \<noteq> [] then target @ self else target)"

text \<open>\<open>memcpy\<close> beyond the piece or the buffer is \<open>None\<close>; \<open>self.size() - pos\<close> wraps around.\<close>

definition copyT :: "'a list \<Rightarrow> 'a list \<Rightarrow> nat \<Rightarrow> nat \<Rightarrow> ('a list \<times> nat) option" where
  "copyT self buf n pos =
     (let ret = min (sz_sub (length self) pos) n in
      if pos + ret \<le> length self \<and> ret \<le> length buf then Some (take ret (drop pos self) @ drop ret buf, ret) else None)"

section \<open>The order of pieces\<close>

lemma CharTraits_compare_cases:
  "CharTraits_compare val (a # s1) (b # s2) (Suc n) =
    (if val a = val b then CharTraits_compare val s1 s2 n else if val a < val b then - 1 else 1)"
  by auto

lemma piece_compare_Cons:
  "piece_compare val (a # s) (b # t) = (if val a = val b then piece_compare val s t else if val a < val b then - 1 else 1)"
  by (auto simp: piece_compare_def Let_def)

lemma piece_compare_Nil:
  "piece_compare val [] t = (if t = [] then 0 else - 1)" "piece_compare val (a # s) [] = 1"
  by (auto simp: piece_compare_def Let_def)

lemmas piece_compare_simps = piece_compare_Cons piece_compare_Nil

text \<open>It is the lexicographic order of the values.\<close>

lemma piece_less_lexordp: "piece_less val s t \<longleftrightarrow> ord_class.lexordp (map val s) (map val t)"
  unfolding piece_less_def
proof (induction s arbitrary: t)
  case Nil
  then show ?case by (cases t) (simp_all add: piece_compare_simps)
next
  case (Cons a s)
  then show ?case by (cases t) (auto simp: piece_compare_simps)
qed

lemma piece_compare_eq_0: "inj val \<Longrightarrow> piece_compare val s t = 0 \<longleftrightarrow> s = t"
proof (induction s arbitrary: t)
  case Nil
  then show ?case by (cases t) (simp_all add: piece_compare_simps)
next
  case (Cons a s)
  then show ?case by (cases t) (auto simp: piece_compare_simps dest: injD)
qed

lemma piece_compare_swap: "piece_compare val t s = - piece_compare val s t"
proof (induction s arbitrary: t)
  case Nil
  then show ?case by (cases t) (simp_all add: piece_compare_simps)
next
  case (Cons a s)
  then show ?case by (cases t) (auto simp: piece_compare_simps)
qed

lemma inj_unsigned_char: "inj unsigned_char" and inj_signed_char: "inj signed_char"
proof -
  have "x = y" if "byte x = byte y" for x y using that by (metis char_of_byte_byte)
  moreover have "v = w" if "uint v = uint w" for v w :: "8 word" using that by (simp add: word_uint_eq_iff)
  moreover have "v = w" if "sint v = sint w" for v w :: "8 word" using that by (rule signed_word_eqI)
  ultimately show "inj unsigned_char" "inj signed_char" unfolding inj_def unsigned_char_def signed_char_def by metis+
qed

text \<open>Both ways of comparing 8-bit characters have the same equality, but not the same order.\<close>

lemma piece_eq_char: "piece_eq unsigned_char s t \<longleftrightarrow> s = t" "piece_eq signed_char s t \<longleftrightarrow> s = t"
  by (auto simp: piece_eq_def piece_compare_eq_0 inj_unsigned_char inj_signed_char)

lemma piece_less_depends:
  "piece_less unsigned_char ''z'' [CHR 0xC3, CHR 0xA4] \<and> piece_less signed_char [CHR 0xC3, CHR 0xA4] ''z''"
  by code_simp

lemma piece_less_ascii:
  "list_all (\<lambda>c. unsigned_char c < 128) s \<Longrightarrow> list_all (\<lambda>c. unsigned_char c < 128) t \<Longrightarrow>
    piece_less unsigned_char s t = piece_less signed_char s t"
proof -
  have "signed_char c = unsigned_char c" if "unsigned_char c < 128" for c
  proof -
    have "- 128 \<le> uint (byte c)" using uint_ge_0 [of "byte c"] by linarith
    with that show ?thesis by (simp add: signed_char_def unsigned_char_def sint_uint signed_take_bit_int_eq_self_iff)
  qed
  moreover assume "list_all (\<lambda>c. unsigned_char c < 128) s" "list_all (\<lambda>c. unsigned_char c < 128) t"
  ultimately have "map unsigned_char s = map signed_char s" "map unsigned_char t = map signed_char t"
    by (simp_all add: list_all_iff)
  then show ?thesis unfolding piece_less_lexordp by (simp only:)
qed

section \<open>Copies\<close>

lemma CopyToStringT_eq [simp]: "CopyToStringT self target = self" and AppendToStringT_eq [simp]: "AppendToStringT self target = target @ self"
  by (simp_all add: CopyToStringT_def AppendToStringT_def)

text \<open>A position beyond the end is no empty copy: the number of characters wraps around.\<close>

lemma copyT_correct:
  assumes "length self < 2 ^ 64"
  shows "pos \<le> length self \<Longrightarrow> n \<le> length buf \<Longrightarrow>
    copyT self buf n pos = Some (let xs = take n (drop pos self) in (xs @ drop (length xs) buf, length xs))"
    and "length self < pos \<Longrightarrow> pos < 2 ^ 64 \<Longrightarrow> 0 < n \<Longrightarrow> copyT self buf n pos = None"
proof -
  show "copyT self buf n pos = Some (let xs = take n (drop pos self) in (xs @ drop (length xs) buf, length xs))"
    if "pos \<le> length self" "n \<le> length buf"
    using that assms by (auto simp: copyT_def Let_def min_def)
  assume pos: "length self < pos" "pos < 2 ^ 64" and n: "0 < n"
  then have "sz_sub (length self) pos = length self + 2 ^ 64 - pos" by (simp add: sz_sub_def)
  with pos n show "copyT self buf n pos = None" by (simp add: copyT_def Let_def)
qed

end
