(* ===== verification/Base_String_Replace.thy ===== *)
theory Base_String_Replace
  imports Cxtpl_Prelude
begin

text \<open>
  \<open>DoReplaceMatchesAfterOffset\<close> of \<open>third_party/chromium/base/strings/string_util.cc\<close>, which replaces all matches in a string in linear
  time and, when the buffer is large enough, in place, and the functions that are made of it. A string is the list of
  its characters; an access outside of it is \<open>None\<close>, as is a loop that does not end. \<open>capacity\<close> is what the string
  happens to have allocated. The function has four ways of replacing all matches (in place for equal lengths, in place for a
  shorter or a longer replacement, and into a new buffer); the lemmas show that each of them replaces the matches from left to
  right. What is stated of a matcher is the locale \<open>string_matcher\<close>, which both matchers of the code meet.
\<close>

section \<open>Buffers\<close>

text \<open>\<open>CharTraits::copy\<close> and \<open>CharTraits::move\<close> to an offset in the buffer, \<open>resize\<close> and \<open>substr\<close> of a string.\<close>

definition copy_to :: "'a list \<Rightarrow> nat \<Rightarrow> 'a list \<Rightarrow> 'a list option" where
  "copy_to buffer offset xs =
     (if offset + length xs \<le> length buffer then Some (take offset buffer @ xs @ drop (offset + length xs) buffer) else None)"

definition str_resize :: "'a \<Rightarrow> nat \<Rightarrow> 'a list \<Rightarrow> 'a list" where
  "str_resize nul n s = take n s @ replicate (n - length s) nul"

definition str_slice :: "'a list \<Rightarrow> nat \<Rightarrow> nat \<Rightarrow> 'a list" where
  "str_slice s pos n = take n (drop pos s)"

text \<open>\<open>str->replace(pos, n, with)\<close>\<close>

definition str_splice :: "'a list \<Rightarrow> nat \<Rightarrow> nat \<Rightarrow> 'a list \<Rightarrow> 'a list option" where
  "str_splice s pos n xs = (if pos \<le> length s then Some (take pos s @ xs @ drop (pos + n) s) else None)"

section \<open>Matchers\<close>

text \<open>A matcher looks for the first match in a string, and its matches have a size.\<close>

record 'a matcher =
  first_match :: "'a list \<Rightarrow> nat option"
  MatchSize :: nat

definition Find :: "'a matcher \<Rightarrow> 'a list \<Rightarrow> nat \<Rightarrow> nat option" where
  "Find m input pos = (if pos \<le> length input then map_option ((+) pos) (first_match m (drop pos input)) else None)"

definition SubstringMatcher :: "'a list \<Rightarrow> 'a matcher" where
  "SubstringMatcher find_this = \<lparr>first_match = str_find find_this, MatchSize = length find_this\<rparr>"

fun find_any :: "'a list \<Rightarrow> 'a list \<Rightarrow> nat option" where
  "find_any cs [] = None"
| "find_any cs (x # xs) = (if x \<in> set cs then Some 0 else map_option Suc (find_any cs xs))"

definition CharacterMatcher :: "'a list \<Rightarrow> 'a matcher" where
  "CharacterMatcher find_any_of_these = \<lparr>first_match = find_any find_any_of_these, MatchSize = 1\<rparr>"

section \<open>The function\<close>

datatype ReplaceType = REPLACE_ALL | REPLACE_FIRST

text \<open>The loop for matches and replacements of the same length.\<close>

partial_function (option) replace_same :: "'a matcher \<Rightarrow> 'a list \<Rightarrow> 'a list \<Rightarrow> nat option \<Rightarrow> 'a list option" where
  "replace_same m with_this buffer offset =
     (case offset of
        None \<Rightarrow> Some buffer
      | Some i \<Rightarrow> Option.bind (copy_to buffer i with_this) (\<lambda>buffer.
          replace_same m with_this buffer (Find m buffer (i + length with_this))))"

text \<open>The loop that counts the matches, and the one that appends to a new buffer.\<close>

partial_function (option) count_matches :: "'a matcher \<Rightarrow> 'a list \<Rightarrow> nat option \<Rightarrow> nat option" where
  "count_matches m s matched =
     (case matched of
        None \<Rightarrow> Some 0
      | Some i \<Rightarrow> Option.bind (count_matches m s (Find m s (i + MatchSize m))) (\<lambda>n. Some (Suc n)))"

fun append_matches :: "'a matcher \<Rightarrow> 'a list \<Rightarrow> 'a list \<Rightarrow> nat \<Rightarrow> 'a list \<Rightarrow> nat \<Rightarrow> nat option \<Rightarrow> ('a list \<times> nat) option" where
  "append_matches m with_this src (Suc num_matches) str pos (Some i) =
     (let str = str @ str_slice src pos (i - pos) @ with_this; pos = i + MatchSize m in
      if num_matches = 0 then Some (str, pos)
      else append_matches m with_this src num_matches str pos (Find m src pos))"
| "append_matches m with_this src _ str pos _ = None"

text \<open>The loop that alternates replacing and moving. It gives back the buffer and \<open>write_offset\<close>.\<close>

partial_function (option) replace_and_move ::
  "'a matcher \<Rightarrow> 'a list \<Rightarrow> nat \<Rightarrow> 'a list \<Rightarrow> nat \<Rightarrow> nat \<Rightarrow> ('a list \<times> nat) option" where
  "replace_and_move m with_this str_length buffer write_offset read_offset =
     Option.bind (if with_this \<noteq> [] then copy_to buffer write_offset with_this else Some buffer) (\<lambda>buffer.
       let write_offset = write_offset + length with_this;
           read_offset = read_offset + MatchSize m;
           matched = (case Find m buffer read_offset of Some i \<Rightarrow> min i str_length | None \<Rightarrow> str_length);
           n = matched - read_offset
       in Option.bind (if n \<noteq> 0 then copy_to buffer write_offset (str_slice buffer read_offset n) else Some buffer) (\<lambda>buffer.
            let write_offset = write_offset + n; read_offset = read_offset + n in
            if read_offset < str_length then replace_and_move m with_this str_length buffer write_offset read_offset
            else Some (buffer, write_offset)))"

definition DoReplaceMatchesAfterOffset ::
  "'a \<Rightarrow> nat \<Rightarrow> 'a list \<Rightarrow> nat \<Rightarrow> 'a matcher \<Rightarrow> 'a list \<Rightarrow> ReplaceType \<Rightarrow> (bool \<times> 'a list) option" where
  "DoReplaceMatchesAfterOffset nul capacity str initial_offset m replace_with replace_type =
     (if MatchSize m = 0 then Some (False, str)
      else case Find m str initial_offset of
        None \<Rightarrow> Some (False, str)
      | Some first \<Rightarrow>
          if replace_type = REPLACE_FIRST then map_option (Pair True) (str_splice str first (MatchSize m) replace_with)
          else if MatchSize m = length replace_with then map_option (Pair True) (replace_same m replace_with str (Some first))
          else if MatchSize m < length replace_with then
            Option.bind (count_matches m str (Some first)) (\<lambda>num_matches.
              let expansion = num_matches * (length replace_with - MatchSize m);
                  final_length = length str + expansion
              in if capacity < final_length then
                   map_option (\<lambda>(out, pos). (True, out @ str_slice str pos (length str - pos)))
                     (append_matches m replace_with str num_matches [] 0 (Some first))
                 else
                   let shift_src = first + MatchSize m; shift_dst = shift_src + expansion;
                       str' = (if length str < shift_dst then str_resize nul shift_dst str else str)
                   in Option.bind (str_splice str' shift_dst (length str - shift_src) (str_slice str' shift_src (length str - shift_src)))
                        (\<lambda>str'. map_option (\<lambda>(buffer, n). (True, str_resize nul n buffer))
                           (replace_and_move m replace_with final_length str' first (first + expansion))))
          else map_option (\<lambda>(buffer, n). (True, str_resize nul n buffer))
            (replace_and_move m replace_with (length str) str first first))"

section \<open>Replacing from left to right\<close>

function replace_matches :: "'a matcher \<Rightarrow> 'a list \<Rightarrow> 'a list \<Rightarrow> 'a list" where
  "replace_matches m with_this s =
     (if MatchSize m = 0 then s
      else case first_match m s of
        None \<Rightarrow> s
      | Some i \<Rightarrow> if length s < i + MatchSize m then s
          else take i s @ with_this @ replace_matches m with_this (drop (i + MatchSize m) s))"
  by pat_completeness auto
termination
  by (relation "measure (\<lambda>(_, _, s). length s)") auto

declare replace_matches.simps [simp del]

function number_of_matches :: "'a matcher \<Rightarrow> 'a list \<Rightarrow> nat" where
  "number_of_matches m s =
     (if MatchSize m = 0 then 0
      else case first_match m s of
        None \<Rightarrow> 0
      | Some i \<Rightarrow> if length s < i + MatchSize m then 0 else Suc (number_of_matches m (drop (i + MatchSize m) s)))"
  by pat_completeness auto
termination
  by (relation "measure (\<lambda>(_, s). length s)") auto

declare number_of_matches.simps [simp del]

lemma find_any_Some: "find_any cs s = Some i \<Longrightarrow> i < length s"
  by (induction s arbitrary: i) (auto split: if_splits)

lemma Find_None: "Find m s pos = None \<Longrightarrow> pos \<le> length s \<Longrightarrow> first_match m (drop pos s) = None"
  by (simp add: Find_def split: if_splits)

lemma replace_matches_Nil: "replace_matches m with_this [] = []"
  by (simp add: replace_matches.simps split: option.split)

lemma replace_not_found:
  assumes "Find m s pos = None" "pos \<le> length s"
  shows "replace_matches m with_this (drop pos s) = drop pos s" "number_of_matches m (drop pos s) = 0"
  using Find_None [OF assms]
  by (simp_all add: replace_matches.simps [of m with_this "drop pos s"] number_of_matches.simps [of m "drop pos s"])

lemma copy_to_Some:
  assumes "offset + length xs \<le> length buffer"
  obtains buffer' where "copy_to buffer offset xs = Some buffer'" "length buffer' = length buffer"
    "take (offset + length xs) buffer' = take offset buffer @ xs"
    "\<And>k. offset + length xs \<le> k \<Longrightarrow> drop k buffer' = drop k buffer"
proof (rule that [of "take offset buffer @ xs @ drop (offset + length xs) buffer"])
  show "drop k (take offset buffer @ xs @ drop (offset + length xs) buffer) = drop k buffer" if "offset + length xs \<le> k" for k
    using assms that by simp
qed (use assms in \<open>simp_all add: copy_to_def\<close>)

text \<open>An empty copy or move may be left out.\<close>

lemma copy_to_unless_empty:
  "offset + length xs \<le> length buffer \<Longrightarrow> (\<not> c \<Longrightarrow> xs = []) \<Longrightarrow>
    (if c then copy_to buffer offset xs else Some buffer) = copy_to buffer offset xs"
  by (cases c) (simp_all add: copy_to_def)

lemma str_resize_take: "n \<le> length s \<Longrightarrow> str_resize nul n s = take n s"
  by (simp add: str_resize_def)

text \<open>The tail is shifted to the end of the lengthened string, whatever the padding was.\<close>

lemma shift_tail:
  assumes "src \<le> length s"
    and s'_def: "s' = (if length s < src + e then str_resize nul (src + e) s else s)"
  obtains t where "str_splice s' (src + e) (length s - src) (str_slice s' src (length s - src)) = Some t"
    "length t = length s + e" "\<And>k. k \<le> src \<Longrightarrow> take k t = take k s" "drop (src + e) t = drop src s"
proof (rule that [of "take (src + e) s' @ drop src s"])
  have s': "src + e \<le> length s'" "length s' \<le> src + e + (length s - src)" "\<And>k. k \<le> src \<Longrightarrow> take k s' = take k s"
    "str_slice s' src (length s - src) = drop src s"
    using assms(1) by (auto simp: s'_def str_resize_def str_slice_def)
  then show "str_splice s' (src + e) (length s - src) (str_slice s' src (length s - src)) = Some (take (src + e) s' @ drop src s)"
    by (simp add: str_splice_def)
  show "length (take (src + e) s' @ drop src s) = length s + e" "drop (src + e) (take (src + e) s' @ drop src s) = drop src s"
    using s'(1) assms(1) by simp_all
  show "take k (take (src + e) s' @ drop src s) = take k s" if "k \<le> src" for k
    using s'(1) s'(3) [OF that] that by (simp add: min_absorb1)
qed

section \<open>Every way through the function gives the same\<close>

text \<open>What the function asks of a matcher: a match lies within the string.\<close>

locale string_matcher =
  fixes m :: "'a matcher"
  assumes match_within: "first_match m s = Some i \<Longrightarrow> i + MatchSize m \<le> length s"

context string_matcher
begin

text \<open>A search depends on what follows the position only.\<close>

lemma Find_Some:
  assumes "Find m s pos = Some i"
  shows "pos \<le> i" "i + MatchSize m \<le> length s" "first_match m (drop pos s) = Some (i - pos)"
proof -
  from assms obtain k where k: "pos \<le> length s" "first_match m (drop pos s) = Some k" "i = pos + k"
    by (auto simp: Find_def split: if_splits)
  moreover have "k + MatchSize m \<le> length (drop pos s)" using match_within k(2) by blast
  ultimately show "pos \<le> i" "i + MatchSize m \<le> length s" "first_match m (drop pos s) = Some (i - pos)" by auto
qed

lemma replace_found:
  assumes "0 < MatchSize m" "Find m s pos = Some i"
  shows "replace_matches m with_this (drop pos s) =
      str_slice s pos (i - pos) @ with_this @ replace_matches m with_this (drop (i + MatchSize m) s)"
    and "number_of_matches m (drop pos s) = Suc (number_of_matches m (drop (i + MatchSize m) s))"
  using Find_Some [OF assms(2)] assms(1)
  by (simp_all add: replace_matches.simps [of m with_this "drop pos s"] number_of_matches.simps [of m "drop pos s"]
      str_slice_def add.commute add.left_commute)

lemma replace_same_eq:
  assumes m: "0 < MatchSize m" "MatchSize m = length with_this"
  shows "Find m buffer pos = Some i \<Longrightarrow>
    replace_same m with_this buffer (Some i) = Some (take pos buffer @ replace_matches m with_this (drop pos buffer))"
proof (induction "length buffer - pos" arbitrary: buffer pos i rule: less_induct)
  case less
  note found = Find_Some [OF less.prems] replace_found [OF m(1) less.prems]
  obtain buffer' where copy: "copy_to buffer i with_this = Some buffer'" "length buffer' = length buffer"
    "take (i + length with_this) buffer' = take i buffer @ with_this"
    and rest: "drop (i + length with_this) buffer' = drop (i + length with_this) buffer"
    using found(2) m(2) by (metis copy_to_Some order_refl)
  have split: "take pos buffer @ str_slice buffer pos (i - pos) = take i buffer"
    using found(1) by (simp add: str_slice_def take_add [symmetric])
  have result: "take (i + length with_this) buffer' @ replace_matches m with_this (drop (i + length with_this) buffer') =
      take pos buffer @ replace_matches m with_this (drop pos buffer)"
    unfolding found(4) [of with_this] copy(3) rest using split m(2) by simp
  show ?case
  proof (cases "Find m buffer' (i + length with_this)")
    case None
    moreover have "replace_matches m with_this (drop (i + length with_this) buffer') = drop (i + length with_this) buffer'"
      by (rule replace_not_found [OF None]) (use found(2) m(2) copy(2) in simp)
    ultimately show ?thesis using copy(1) result by (simp add: replace_same.simps)
  next
    case (Some j)
    have "length buffer' - (i + length with_this) < length buffer - pos" using found(1,2) copy(2) m by linarith
    from less.hyps [OF this Some] show ?thesis using copy(1) result Some by (simp add: replace_same.simps [of m with_this buffer])
  qed
qed

lemma count_matches_eq:
  assumes m: "0 < MatchSize m"
  shows "Find m s pos = Some i \<Longrightarrow> count_matches m s (Some i) = Some (number_of_matches m (drop pos s))"
proof (induction "length s - pos" arbitrary: pos i rule: less_induct)
  case less
  note found = Find_Some [OF less.prems] replace_found [OF m less.prems]
  show ?case
  proof (cases "Find m s (i + MatchSize m)")
    case None
    from replace_not_found(2) [OF this] show ?thesis
      using None found(2,5) by (simp add: count_matches.simps)
  next
    case (Some j)
    have "length s - (i + MatchSize m) < length s - pos" using found(1,2) m by linarith
    from less.hyps [OF this Some] show ?thesis using Some found(5) by (simp add: count_matches.simps [of m s "Some i"])
  qed
qed

lemma append_matches_eq:
  assumes m: "0 < MatchSize m"
  shows "i + MatchSize m \<le> length src \<Longrightarrow>
    \<exists>out p. append_matches m with_this src (Suc (number_of_matches m (drop (i + MatchSize m) src))) str pos (Some i) = Some (out, p) \<and>
      out @ str_slice src p (length src - p) =
        str @ str_slice src pos (i - pos) @ with_this @ replace_matches m with_this (drop (i + MatchSize m) src)"
proof (induction "number_of_matches m (drop (i + MatchSize m) src)" arbitrary: str pos i)
  case 0
  have "Find m src (i + MatchSize m) = None"
    using 0 replace_found(2) [OF m, of src "i + MatchSize m"] by fastforce
  from replace_not_found [OF this 0(2)] show ?case by (simp add: Let_def str_slice_def)
next
  case (Suc n)
  let ?p = "i + MatchSize m" and ?str = "str @ str_slice src pos (i - pos) @ with_this"
  obtain j where j: "Find m src ?p = Some j"
    using Suc.hyps(2) Suc.prems replace_not_found(2) by (metis Zero_not_Suc option.exhaust)
  note found = Find_Some [OF j] replace_found [OF m j]
  have n: "n = number_of_matches m (drop (j + MatchSize m) src)" using Suc.hyps(2) found(5) by simp
  have "append_matches m with_this src (Suc (number_of_matches m (drop ?p src))) str pos (Some i) =
      append_matches m with_this src (Suc (number_of_matches m (drop (j + MatchSize m) src))) ?str ?p (Some j)"
    unfolding found(5) by (subst append_matches.simps) (simp only: Let_def j nat.distinct if_False)
  then show ?case
    using Suc.hyps(1) [OF n found(2), of ?str ?p] found(4) [of with_this] by simp
qed

text \<open>
  The loop writes behind what it reads as long as \<open>write_offset\<close> stays far enough below \<open>read_offset\<close>: by what each of the
  matches still to come, the current one included, adds to the string.
\<close>

lemma replace_and_move_eq:
  assumes m: "0 < MatchSize m"
  shows "length buffer = n \<Longrightarrow> r + MatchSize m \<le> n \<Longrightarrow>
    w + Suc (number_of_matches m (drop (r + MatchSize m) buffer)) * (length with_this - MatchSize m) \<le> r \<Longrightarrow>
    \<exists>buffer' w'. replace_and_move m with_this n buffer w r = Some (buffer', w') \<and> w' \<le> length buffer' \<and>
      take w' buffer' = take w buffer @ with_this @ replace_matches m with_this (drop (r + MatchSize m) buffer)"
proof (induction "n - r" arbitrary: buffer w r rule: less_induct)
  case less
  let ?F = "MatchSize m" and ?R = "length with_this"
  let ?r = "r + ?F" and ?w = "w + ?R"
  have gap: "?w \<le> ?r" using less.prems(3) by simp
  obtain b1 where b1: "copy_to buffer w with_this = Some b1" "length b1 = length buffer"
    "take ?w b1 = take w buffer @ with_this" and rest1: "\<And>k. ?w \<le> k \<Longrightarrow> drop k b1 = drop k buffer"
    using copy_to_Some [of w with_this buffer] less.prems(1,2) gap by auto
  define matched where "matched = (case Find m b1 ?r of Some i \<Rightarrow> min i n | None \<Rightarrow> n)"
  have matched: "?r \<le> matched" "matched \<le> n"
    using less.prems(2) Find_Some(1) by (auto simp: matched_def split: option.split)
  let ?moved = "str_slice b1 ?r (matched - ?r)" and ?w' = "?w + (matched - ?r)"
  have len: "length ?moved = matched - ?r" using matched b1(2) less.prems(1) by (simp add: str_slice_def)
  have fits: "?w + length ?moved \<le> length b1" using less.prems(1) b1(2) gap matched unfolding len by simp
  obtain b2 where b2: "copy_to b1 ?w ?moved = Some b2" "length b2 = length b1"
    "take ?w' b2 = take ?w b1 @ ?moved" and rest2: "\<And>k. ?w' \<le> k \<Longrightarrow> drop k b2 = drop k b1"
    using copy_to_Some [OF fits] unfolding len by blast
  have "w + length with_this \<le> length buffer" using gap less.prems(1,2) by simp
  from copy_to_unless_empty [OF this, of "with_this \<noteq> []"]
  have copy: "(if with_this \<noteq> [] then copy_to buffer w with_this else Some buffer) = Some b1" using b1(1) by simp
  have "?moved = []" if "\<not> matched - ?r \<noteq> 0" using that by (simp add: str_slice_def)
  from copy_to_unless_empty [OF fits, of "matched - ?r \<noteq> 0", OF this]
  have move: "(if matched - ?r \<noteq> 0 then copy_to b1 ?w ?moved else Some b1) = Some b2" using b2(1) by (rule trans)
  have step: "replace_and_move m with_this n buffer w r =
      (if matched < n then replace_and_move m with_this n b2 ?w' matched else Some (b2, ?w'))"
    by (subst replace_and_move.simps)
      (simp only: Let_def matched_def [symmetric] copy move bind.bind_lunit le_add_diff_inverse [OF matched(1)])
  have written: "take ?w' b2 = take w buffer @ with_this @ str_slice b1 ?r (matched - ?r)" using b1(3) b2(3) by simp
  have same: "drop ?r b1 = drop ?r buffer" by (rule rest1 [OF gap])
  show ?case
  proof (cases "Find m b1 ?r")
    case None
    then have "matched = n" by (simp add: matched_def)
    moreover have "replace_matches m with_this (drop ?r buffer) = drop ?r b1"
      using replace_not_found(1) [OF None] less.prems(1,2) b1(2) same by metis
    ultimately show ?thesis
      using step written b1(2) b2(2) less.prems(1) gap matched by (simp add: str_slice_def)
  next
    case (Some i)
    note found = Find_Some [OF Some] replace_found [OF m Some]
    have i: "matched = i" "i < n" using found(2) m b1(2) less.prems(1) Some by (auto simp: matched_def)
    have after: "drop (i + ?F) b2 = drop (i + ?F) b1" using gap i matched by (intro rest2) linarith
    have "w + Suc (Suc (number_of_matches m (drop (i + ?F) b2))) * (?R - ?F) \<le> r"
      using less.prems(3) found(5) after same by simp
    then have "?w' + Suc (number_of_matches m (drop (i + ?F) b2)) * (?R - ?F) \<le> i"
      using i matched gap by (simp add: algebra_simps)
    moreover have "n - i < n - r" "length b2 = n" "i + ?F \<le> n" using i found(1,2) m b1(2) b2(2) less.prems(1) by linarith+
    ultimately obtain b3 w3 where "replace_and_move m with_this n b2 ?w' i = Some (b3, w3)" "w3 \<le> length b3"
      "take w3 b3 = take ?w' b2 @ with_this @ replace_matches m with_this (drop (i + ?F) b2)"
      using less.hyps [of i b2 ?w'] i(1) by metis
    then show ?thesis
      using step i written after found(4) [of with_this] same by auto
  qed
qed

lemma DoReplaceMatchesAfterOffset_all:
  "DoReplaceMatchesAfterOffset nul capacity str initial_offset m replace_with REPLACE_ALL =
    Some (0 < MatchSize m \<and> Find m str initial_offset \<noteq> None,
      take initial_offset str @ replace_matches m replace_with (drop initial_offset str))"
proof (cases "MatchSize m = 0 \<or> Find m str initial_offset = None")
  case True
  then have "replace_matches m replace_with (drop initial_offset str) = drop initial_offset str"
  proof
    assume "Find m str initial_offset = None"
    then show ?thesis
      by (cases "initial_offset \<le> length str") (simp_all add: replace_not_found(1) replace_matches_Nil)
  qed (simp add: replace_matches.simps)
  with True show ?thesis by (auto simp: DoReplaceMatchesAfterOffset_def)
next
  case False
  then obtain first where size: "0 < MatchSize m" and first: "Find m str initial_offset = Some first" by auto
  let ?F = "MatchSize m" and ?R = "length replace_with"
  note found = Find_Some [OF first] replace_found [OF size first]
  let ?result = "take initial_offset str @ replace_matches m replace_with (drop initial_offset str)"
  have split: "?result = take first str @ replace_with @ replace_matches m replace_with (drop (first + ?F) str)"
    using found(1,4) by (simp add: str_slice_def take_add [symmetric])
  show ?thesis
  proof (cases ?F ?R rule: linorder_cases)
    case equal
    then show ?thesis
      using replace_same_eq [OF size equal first] size first by (simp add: DoReplaceMatchesAfterOffset_def)
  next
    case greater
    have "\<exists>b w. replace_and_move m replace_with (length str) str first first = Some (b, w) \<and> w \<le> length b \<and> take w b = ?result"
      unfolding split by (rule replace_and_move_eq [OF size]) (use found(2) greater in simp_all)
    then obtain b w where "replace_and_move m replace_with (length str) str first first = Some (b, w)" "w \<le> length b"
      "take w b = ?result" by blast
    then show ?thesis
      using greater size first by (simp add: DoReplaceMatchesAfterOffset_def str_resize_take)
  next
    case less
    let ?k = "number_of_matches m (drop initial_offset str)"
    let ?e = "?k * (?R - ?F)" and ?src = "first + ?F"
    let ?s = "if length str < ?src + ?e then str_resize nul (?src + ?e) str else str"
    have k: "?k = Suc (number_of_matches m (drop ?src str))" by (rule found(5))
    have count: "count_matches m str (Some first) = Some ?k" by (rule count_matches_eq [OF size first])
    obtain out p where appended: "append_matches m replace_with str ?k [] 0 (Some first) = Some (out, p)"
      "out @ str_slice str p (length str - p) = ?result"
      unfolding split k using append_matches_eq [OF size found(2), of replace_with "[]" 0] by (auto simp: str_slice_def)
    obtain t where t: "str_splice ?s (?src + ?e) (length str - ?src) (str_slice ?s ?src (length str - ?src)) = Some t"
      "length t = length str + ?e" "\<And>k. k \<le> ?src \<Longrightarrow> take k t = take k str" "drop (?src + ?e) t = drop ?src str"
      by (rule shift_tail [OF found(2) refl, of ?e nul]) (rule that)
    have tail: "drop (first + ?e + ?F) t = drop ?src str" using t(4) by (simp only: add.assoc add.commute [of ?F])
    have "\<exists>b w. replace_and_move m replace_with (length str + ?e) t first (first + ?e) = Some (b, w) \<and> w \<le> length b \<and>
        take w b = take first t @ replace_with @ replace_matches m replace_with (drop (first + ?e + ?F) t)"
      by (rule replace_and_move_eq [OF size t(2)]) (use found(2) in simp, simp only: tail k [symmetric] order_refl)
    then obtain b w where moved: "replace_and_move m replace_with (length str + ?e) t first (first + ?e) = Some (b, w)" "w \<le> length b"
      "take w b = ?result"
      unfolding split tail using t(3) [of first] by auto
    show ?thesis
      using less size first count appended t(1) moved
      by (simp add: DoReplaceMatchesAfterOffset_def Let_def str_resize_take)
  qed
qed

end

interpretation substring: string_matcher "SubstringMatcher find_this" for find_this :: "'a list"
  by unfold_locales (auto simp: SubstringMatcher_def dest: str_find_Some)

interpretation characters: string_matcher "CharacterMatcher cs" for cs :: "'a list"
  by unfold_locales (auto simp: CharacterMatcher_def dest: find_any_Some)

section \<open>Replacing characters and substrings\<close>

text \<open>\<open>*output = input;\<close> comes first; \<open>capacity\<close> is that of \<open>*output\<close> after it.\<close>

definition ReplaceCharsT :: "'a \<Rightarrow> nat \<Rightarrow> 'a list \<Rightarrow> 'a list \<Rightarrow> 'a list \<Rightarrow> (bool \<times> 'a list) option" where
  "ReplaceCharsT nul capacity input find_any_of_these replace_with =
     DoReplaceMatchesAfterOffset nul capacity input 0 (CharacterMatcher find_any_of_these) replace_with REPLACE_ALL"

definition ReplaceChars :: "'a \<Rightarrow> nat \<Rightarrow> 'a list \<Rightarrow> 'a list \<Rightarrow> 'a list \<Rightarrow> (bool \<times> 'a list) option" where
  "ReplaceChars nul capacity input replace_chars replace_with = ReplaceCharsT nul capacity input replace_chars replace_with"

definition RemoveChars :: "'a \<Rightarrow> nat \<Rightarrow> 'a list \<Rightarrow> 'a list \<Rightarrow> (bool \<times> 'a list) option" where
  "RemoveChars nul capacity input remove_chars = ReplaceCharsT nul capacity input remove_chars []"

definition ReplaceFirstSubstringAfterOffset :: "'a \<Rightarrow> nat \<Rightarrow> 'a list \<Rightarrow> nat \<Rightarrow> 'a list \<Rightarrow> 'a list \<Rightarrow> 'a list option" where
  "ReplaceFirstSubstringAfterOffset nul capacity str start_offset find_this replace_with =
     map_option snd (DoReplaceMatchesAfterOffset nul capacity str start_offset (SubstringMatcher find_this) replace_with REPLACE_FIRST)"

definition ReplaceSubstringsAfterOffset :: "'a \<Rightarrow> nat \<Rightarrow> 'a list \<Rightarrow> nat \<Rightarrow> 'a list \<Rightarrow> 'a list \<Rightarrow> 'a list option" where
  "ReplaceSubstringsAfterOffset nul capacity str start_offset find_this replace_with =
     map_option snd (DoReplaceMatchesAfterOffset nul capacity str start_offset (SubstringMatcher find_this) replace_with REPLACE_ALL)"

text \<open>What they compute: one pass over the characters.\<close>

function replace_each :: "'a list \<Rightarrow> 'a list \<Rightarrow> 'a list \<Rightarrow> 'a list" where
  "replace_each find_this with_this s =
     (if find_this = [] \<or> s = [] then s
      else if prefix find_this s then with_this @ replace_each find_this with_this (drop (length find_this) s)
      else hd s # replace_each find_this with_this (tl s))"
  by pat_completeness auto
termination
  by (relation "measure (\<lambda>(_, _, s). length s)") auto

declare replace_each.simps [simp del]

fun replace_first :: "'a list \<Rightarrow> 'a list \<Rightarrow> 'a list \<Rightarrow> 'a list" where
  "replace_first find_this with_this [] = []"
| "replace_first find_this with_this (c # cs) =
     (if prefix find_this (c # cs) then with_this @ drop (length find_this) (c # cs)
      else c # replace_first find_this with_this cs)"

definition replace_char :: "'a list \<Rightarrow> 'a list \<Rightarrow> 'a \<Rightarrow> 'a list" where
  "replace_char cs with_this c = (if c \<in> set cs then with_this else [c])"

lemma replace_matches_skip:
  assumes "first_match m (c # s) = map_option Suc (first_match m s)"
  shows "replace_matches m with_this (c # s) = c # replace_matches m with_this s"
  using assms by (simp add: replace_matches.simps [of m with_this "c # s"] replace_matches.simps [of m with_this s] split: option.split)

lemma replace_matches_hit:
  assumes "first_match m s = Some 0" "0 < MatchSize m" "MatchSize m \<le> length s"
  shows "replace_matches m with_this s = with_this @ replace_matches m with_this (drop (MatchSize m) s)"
  using assms by (simp add: replace_matches.simps [of m with_this s])

lemma replace_each_eq:
  "replace_matches (SubstringMatcher find_this) with_this s = replace_each find_this with_this s"
proof (induction find_this with_this s rule: replace_each.induct)
  case (1 f w s)
  let ?m = "SubstringMatcher f"
  show ?case
  proof (cases "f = [] \<or> s = []")
    case True
    then show ?thesis
      by (auto simp: replace_each.simps [of f w s] replace_matches_Nil)
        (simp add: replace_matches.simps SubstringMatcher_def)
  next
    case False
    then obtain c cs where s: "s = c # cs" and f: "f \<noteq> []" by (cases s) auto
    show ?thesis
    proof (cases "prefix f s")
      case True
      then have "first_match ?m s = Some 0" "MatchSize ?m = length f" "length f \<le> length s"
        using s prefix_length_le [OF True] by (simp_all add: SubstringMatcher_def take_eq_prefix)
      with replace_matches_hit [of ?m s w] f 1(1) [OF False True] True s show ?thesis
        by (simp add: replace_each.simps [of f w "c # cs"])
    next
      case miss: False
      then have "first_match ?m (c # cs) = map_option Suc (first_match ?m cs)"
        using s by (simp add: SubstringMatcher_def take_eq_prefix)
      with replace_matches_skip [of ?m c cs w] 1(2) [OF False miss] miss f s show ?thesis
        by (simp add: replace_each.simps [of f w "c # cs"])
    qed
  qed
qed

lemma replace_char_eq: "replace_matches (CharacterMatcher cs) with_this s = concat (map (replace_char cs with_this) s)"
proof (induction s)
  case (Cons c s)
  show ?case
  proof (cases "c \<in> set cs")
    case True
    then have "replace_matches (CharacterMatcher cs) with_this (c # s) = with_this @ replace_matches (CharacterMatcher cs) with_this s"
      using replace_matches_hit [of "CharacterMatcher cs" "c # s" with_this] by (simp add: CharacterMatcher_def)
    with Cons True show ?thesis by (simp add: replace_char_def)
  next
    case False
    then have "replace_matches (CharacterMatcher cs) with_this (c # s) = c # replace_matches (CharacterMatcher cs) with_this s"
      by (intro replace_matches_skip) (simp add: CharacterMatcher_def)
    with Cons False show ?thesis by (simp add: replace_char_def)
  qed
qed (simp add: replace_matches_Nil)

lemma replace_first_eq:
  "find_this \<noteq> [] \<Longrightarrow> replace_first find_this with_this s =
    (case str_find find_this s of None \<Rightarrow> s | Some i \<Rightarrow> take i s @ with_this @ drop (i + length find_this) s)"
  by (induction s) (auto simp: take_eq_prefix split: option.split)

lemma find_any_None: "find_any cs s = None \<longleftrightarrow> set s \<inter> set cs = {}"
  by (induction s) auto

section \<open>Properties\<close>

lemma ReplaceFirst_correct:
  "ReplaceFirstSubstringAfterOffset nul capacity str start_offset find_this replace_with =
    Some (if find_this = [] then str else take start_offset str @ replace_first find_this replace_with (drop start_offset str))"
proof (cases "find_this = [] \<or> length str < start_offset")
  case True
  then show ?thesis
    by (auto simp: ReplaceFirstSubstringAfterOffset_def DoReplaceMatchesAfterOffset_def SubstringMatcher_def Find_def)
next
  case False
  let ?m = "SubstringMatcher find_this"
  show ?thesis
  proof (cases "Find ?m str start_offset")
    case None
    with Find_None [OF None] False show ?thesis
      by (simp add: ReplaceFirstSubstringAfterOffset_def DoReplaceMatchesAfterOffset_def replace_first_eq SubstringMatcher_def)
  next
    case (Some i)
    note found = substring.Find_Some [OF Some]
    have "take start_offset str @ take (i - start_offset) (drop start_offset str) = take i str"
      using found(1) by (simp add: take_add [symmetric])
    with Some found False show ?thesis
      by (simp add: ReplaceFirstSubstringAfterOffset_def DoReplaceMatchesAfterOffset_def replace_first_eq SubstringMatcher_def
          str_splice_def add.commute)
  qed
qed

lemma ReplaceChars_correct:
  "ReplaceChars nul capacity input replace_chars replace_with =
    Some (set input \<inter> set replace_chars \<noteq> {}, concat (map (replace_char replace_chars replace_with) input))"
proof -
  have "0 < MatchSize (CharacterMatcher replace_chars)"
    "Find (CharacterMatcher replace_chars) input 0 = None \<longleftrightarrow> set input \<inter> set replace_chars = {}"
    by (simp_all add: CharacterMatcher_def Find_def find_any_None)
  then show ?thesis
    unfolding ReplaceChars_def ReplaceCharsT_def characters.DoReplaceMatchesAfterOffset_all replace_char_eq drop_0
    by simp
qed

lemma RemoveChars_correct:
  "RemoveChars nul capacity input remove_chars =
    Some (set input \<inter> set remove_chars \<noteq> {}, filter (\<lambda>c. c \<notin> set remove_chars) input)"
proof -
  have "concat (map (replace_char remove_chars []) input) = filter (\<lambda>c. c \<notin> set remove_chars) input"
    by (induction input) (auto simp: replace_char_def)
  then show ?thesis using ReplaceChars_correct [of nul capacity input remove_chars "[]"]
    by (simp add: RemoveChars_def ReplaceChars_def)
qed


end
