(* ===== verification/Base_String_Build.thy ===== *)
theory Base_String_Build
  imports Cxtpl_Prelude
begin

text \<open>
  The functions of \<open>third_party/chromium/base/strings/string_util.cc\<close> that build a string out of others: \<open>JoinString\<close>,
  \<open>ReplaceStringPlaceholders\<close> and \<open>strlcpy\<close>, and \<open>IsWprintfFormatPortable\<close>. A string is the list of its characters;
  a string of C is read from a buffer up to the character 0, and reading or writing outside of a buffer is \<open>None\<close>.
\<close>

section \<open>Joining\<close>

text \<open>The loop after the first part, and the function with its two checks of a debug build.\<close>

fun join_rest :: "'a list \<Rightarrow> 'a list list \<Rightarrow> 'a list \<Rightarrow> 'a list" where
  "join_rest sep [] result = result"
| "join_rest sep (part # parts) result = join_rest sep parts (result @ sep @ part)"

definition JoinStringT :: "bool \<Rightarrow> 'a list list \<Rightarrow> 'a list \<Rightarrow> 'a list run" where
  "JoinStringT dcheck parts sep =
     (case parts of
        [] \<Rightarrow> Ret []
      | first # rest \<Rightarrow>
          let total_size = (length parts - 1) * length sep + sum_list (map length parts);
              result = join_rest sep rest first
          in run_bind (CHECK (dcheck \<longrightarrow> total_size = length result)) (\<lambda>_. Ret result))"

section \<open>Placeholders\<close>

record ReplacementOffset =
  parameter :: nat
  offset :: nat

definition CompareParameter :: "ReplacementOffset \<Rightarrow> ReplacementOffset \<Rightarrow> bool" where
  "CompareParameter elem1 elem2 \<longleftrightarrow> parameter elem1 < parameter elem2"

text \<open>\<open>r_offsets.insert(std::upper_bound(...), r_offset)\<close> in a sorted vector.\<close>

fun insert_offset :: "ReplacementOffset \<Rightarrow> ReplacementOffset list \<Rightarrow> ReplacementOffset list" where
  "insert_offset r [] = [r]"
| "insert_offset r (x # xs) = (if CompareParameter r x then r # x # xs else x # insert_offset r xs)"

text \<open>
  The loop over the format: a run of \<open>$\<close> after the first one is copied, a digit takes a parameter, and what else follows
  a \<open>$\<close> is left out with it. A parameter that is not given is nothing.
\<close>

function placeholder_loop ::
  "string list \<Rightarrow> string \<Rightarrow> string \<Rightarrow> ReplacementOffset list \<Rightarrow> string \<times> ReplacementOffset list" where
  "placeholder_loop subst [] formatted r_offsets = (formatted, r_offsets)"
| "placeholder_loop subst (c # format) formatted r_offsets =
     (if c \<noteq> CHR ''$'' then placeholder_loop subst format (formatted @ [c]) r_offsets
      else case format of
        [] \<Rightarrow> (formatted, r_offsets)
      | d # rest \<Rightarrow>
          if d = CHR ''$'' then
            placeholder_loop subst (dropWhile (\<lambda>x. x = CHR ''$'') rest)
              (formatted @ d # takeWhile (\<lambda>x. x = CHR ''$'') rest) r_offsets
          else if (of_char d :: nat) < of_char CHR ''1'' \<or> (of_char d :: nat) > of_char CHR ''9'' then
            placeholder_loop subst rest formatted r_offsets
          else
            let index = of_char d - of_char CHR ''1'';
                r_offsets = insert_offset \<lparr>parameter = index, offset = length formatted\<rparr> r_offsets
            in placeholder_loop subst rest (if index < length subst then formatted @ subst ! index else formatted) r_offsets)"
  by pat_completeness auto
termination
  by (relation "measure (\<lambda>(_, format, _, _). length format)") (auto simp: length_dropWhile_le le_imp_less_Suc le_SucI)

declare placeholder_loop.simps(2) [simp del]

text \<open>Without \<open>offsets\<close> nothing is recorded.\<close>

definition DoReplaceStringPlaceholders :: "bool \<Rightarrow> string \<Rightarrow> string list \<Rightarrow> nat list option \<Rightarrow> (string \<times> nat list option) run" where
  "DoReplaceStringPlaceholders dcheck format_string subst offsets =
     run_bind (CHECK (dcheck \<longrightarrow> length subst < 10)) (\<lambda>_.
       let (formatted, r_offsets) = placeholder_loop subst format_string [] [] in
       Ret (formatted, map_option (\<lambda>os. os @ map offset r_offsets) offsets))"

text \<open>With a single parameter; \<open>wanted\<close> tells whether \<open>offset\<close> is given. Reading \<open>offsets[0]\<close> of an empty vector is \<open>None\<close>.\<close>

definition ReplaceStringPlaceholder :: "bool \<Rightarrow> string \<Rightarrow> string \<Rightarrow> bool \<Rightarrow> (string \<times> nat option) option run" where
  "ReplaceStringPlaceholder dcheck format_string a wanted =
     run_bind (DoReplaceStringPlaceholders dcheck format_string [a] (Some [])) (\<lambda>(result, offsets).
       let os = the offsets in
       run_bind (CHECK (dcheck \<longrightarrow> length os = 1)) (\<lambda>_.
         Ret (if wanted then (if os = [] then None else Some (result, Some (hd os))) else Some (result, None))))"

section \<open>Copying with a bound\<close>

text \<open>The two loops of \<open>lcpyT\<close>: what is left of the source is counted from \<open>dst_size\<close>.\<close>

function lcpy_copy :: "'a::zero list \<Rightarrow> 'a list \<Rightarrow> nat \<Rightarrow> nat \<Rightarrow> ('a list \<times> nat option) option" where
  "lcpy_copy dst src dst_size i =
     (if i < dst_size then
        if i < length src \<and> i < length dst then
          (let dst = dst[i := src ! i] in if src ! i = 0 then Some (dst, Some i) else lcpy_copy dst src dst_size (Suc i))
        else None
      else Some (dst, None))"
  by pat_completeness auto
termination
  by (relation "measure (\<lambda>(_, _, n, i). n - i)") auto

declare lcpy_copy.simps [simp del]

function lcpy_count :: "'a::zero list \<Rightarrow> nat \<Rightarrow> nat option" where
  "lcpy_count src dst_size =
     (if dst_size < length src then if src ! dst_size \<noteq> 0 then lcpy_count src (Suc dst_size) else Some dst_size else None)"
  by pat_completeness auto
termination
  by (relation "measure (\<lambda>(src, n). length src - n)") auto

declare lcpy_count.simps [simp del]

definition lcpyT :: "'a::zero list \<Rightarrow> 'a list \<Rightarrow> nat \<Rightarrow> ('a list \<times> nat) option" where
  "lcpyT dst src dst_size =
     Option.bind (lcpy_copy dst src dst_size 0) (\<lambda>(dst, found).
       case found of
         Some i \<Rightarrow> Some (dst, i)
       | None \<Rightarrow>
           let dst = (if dst_size \<noteq> 0 then dst[dst_size - 1 := 0] else dst) in
           map_option (Pair dst) (lcpy_count src dst_size))"

text \<open>\<open>WriteIntoT\<close>: the string gets room for the characters without the final 0.\<close>

definition WriteIntoT :: "bool \<Rightarrow> 'a::zero list \<Rightarrow> nat \<Rightarrow> 'a list run" where
  "WriteIntoT dcheck str length_with_null =
     run_bind (CHECK (dcheck \<longrightarrow> 1 < length_with_null)) (\<lambda>_.
       Ret (take (length_with_null - 1) str @ replicate (length_with_null - 1 - length str) 0))"

section \<open>Formats of wprintf\<close>

text \<open>The scan inside of a specification (\<open>Some\<close> the modifier \<open>l\<close> seen so far) and outside of it.\<close>

fun wprintf_scan :: "bool option \<Rightarrow> string \<Rightarrow> bool" where
  "wprintf_scan _ [] = True"
| "wprintf_scan None (c # cs) = wprintf_scan (if c = CHR ''%'' then Some False else None) cs"
| "wprintf_scan (Some modifier_l) (c # cs) =
     (if c = CHR ''l'' then wprintf_scan (Some True) cs
      else if (c = CHR ''s'' \<or> c = CHR ''c'') \<and> \<not> modifier_l \<or> c \<in> set ''SCFDOU'' then False
      else wprintf_scan (if c \<in> set ''diouxXeEfgGaAcspn%'' then None else Some modifier_l) cs)"

definition IsWprintfFormatPortable :: "string \<Rightarrow> bool" where
  "IsWprintfFormatPortable format = wprintf_scan None format"

section \<open>What they compute\<close>

lemma join_rest_eq: "join_rest sep parts result = result @ concat (map ((@) sep) parts)"
  by (induction sep parts result rule: join_rest.induct) simp_all

text \<open>The size that is reserved for the result is its length, so the check never fails.\<close>

lemma JoinStringT_correct:
  "JoinStringT dcheck parts sep = Ret (case parts of [] \<Rightarrow> [] | first # rest \<Rightarrow> first @ concat (map ((@) sep) rest))"
proof (cases parts)
  case (Cons first rest)
  have "length (concat (map ((@) sep) rest)) = length rest * length sep + sum_list (map length rest)"
    by (induction rest) simp_all
  with Cons show ?thesis by (simp add: JoinStringT_def join_rest_eq Let_def)
qed (simp add: JoinStringT_def)

lemma JoinStringT_append:
  assumes "xs \<noteq> []" "ys \<noteq> []"
  shows "JoinStringT dcheck (xs @ ys) sep =
    run_bind (JoinStringT dcheck xs sep) (\<lambda>a. run_bind (JoinStringT dcheck ys sep) (\<lambda>b. Ret (a @ sep @ b)))"
  using assms by (auto simp: JoinStringT_correct split: list.split)

lemma insert_offset_set: "set (insert_offset r xs) = insert r (set xs)"
  by (induction r xs rule: insert_offset.induct) auto

lemma insert_offset_sorted: "sorted (map parameter xs) \<Longrightarrow> sorted (map parameter (insert_offset r xs))"
  by (induction r xs rule: insert_offset.induct) (auto simp: CompareParameter_def insert_offset_set)

text \<open>The text is only extended, the offsets stay sorted by parameter, and each one is where its parameter stands in the text.\<close>

definition parameter_stands :: "string list \<Rightarrow> string \<Rightarrow> ReplacementOffset \<Rightarrow> bool" where
  "parameter_stands subst out r \<longleftrightarrow> offset r \<le> length out \<and>
     (if parameter r < length subst then prefix (subst ! parameter r) (drop (offset r) out) else True)"

lemma parameter_stands_extend: "parameter_stands subst out r \<Longrightarrow> prefix out out' \<Longrightarrow> parameter_stands subst out' r"
  by (auto simp: parameter_stands_def prefix_def)

lemma placeholder_loop_correct:
  "placeholder_loop subst format formatted r_offsets = (out, rs) \<Longrightarrow> sorted (map parameter r_offsets) \<Longrightarrow>
    list_all (parameter_stands subst formatted) r_offsets \<Longrightarrow>
    prefix formatted out \<and> sorted (map parameter rs) \<and> list_all (parameter_stands subst out) rs"
proof (induction subst format formatted r_offsets arbitrary: out rs rule: placeholder_loop.induct)
  case (2 subst c format formatted r_offsets)
  have extend: "list_all (parameter_stands subst (formatted @ x)) r_offsets" for x
    using 2(7) parameter_stands_extend [of subst formatted _ "formatted @ x"] by (auto simp: list_all_iff)
  show ?case
  proof (cases "c = CHR ''$''")
    case False
    from 2(1) [OF False _ 2(6) extend] 2(5) False show ?thesis
      by (auto simp: placeholder_loop.simps(2) prefix_def)
  next
    case dollar: True
    show ?thesis
    proof (cases format)
      case Nil
      with 2(5-7) dollar show ?thesis by (simp add: placeholder_loop.simps(2))
    next
      case (Cons d rest)
      consider "d = CHR ''$''"
        | "d \<noteq> CHR ''$''" "(of_char d :: nat) < of_char CHR ''1'' \<or> (of_char d :: nat) > of_char CHR ''9''"
        | "d \<noteq> CHR ''$''" "\<not> ((of_char d :: nat) < of_char CHR ''1'' \<or> (of_char d :: nat) > of_char CHR ''9'')"
        by blast
      then show ?thesis
      proof cases
        case 1
        from 2(2) [OF _ Cons 1 _ 2(6) extend] 2(5) dollar Cons 1 show ?thesis
          by (auto simp: placeholder_loop.simps(2) prefix_def)
      next
        case 2
        from "2.IH"(3) [OF _ Cons 2 _ "2.prems"(2,3)] "2.prems"(1) dollar Cons 2 show ?thesis
          by (simp add: placeholder_loop.simps(2))
      next
        case 3
        let ?i = "of_char d - of_char CHR ''1'' :: nat"
        let ?r = "\<lparr>parameter = ?i, offset = length formatted\<rparr>"
        let ?formatted = "if ?i < length subst then formatted @ subst ! ?i else formatted"
        have "parameter_stands subst ?formatted ?r" by (simp add: parameter_stands_def)
        moreover have "list_all (parameter_stands subst ?formatted) r_offsets" using extend extend [of "[]"] by simp
        ultimately have "list_all (parameter_stands subst ?formatted) (insert_offset ?r r_offsets)"
          by (simp add: list_all_iff insert_offset_set)
        from "2.IH"(4) [OF _ Cons 3 refl refl _ insert_offset_sorted [OF "2.prems"(2)] this] "2.prems"(1) dollar Cons 3
        show ?thesis by (auto simp: placeholder_loop.simps(2) Let_def prefix_def split: if_splits)
      qed
    qed
  qed
qed simp

text \<open>
  With fewer than ten parameters the offsets that are reported are those of the placeholders, sorted by the number of the
  parameter: at each of them the text has that parameter.
\<close>

lemma ReplaceStringPlaceholders_correct:
  assumes "length subst < 10"
  shows "\<exists>out rs. DoReplaceStringPlaceholders dcheck format_string subst (Some offsets) = Ret (out, Some (offsets @ map offset rs)) \<and>
    DoReplaceStringPlaceholders dcheck format_string subst None = Ret (out, None) \<and>
    sorted (map parameter rs) \<and> list_all (parameter_stands subst out) rs"
proof -
  obtain out rs where r: "placeholder_loop subst format_string [] [] = (out, rs)" by fastforce
  from placeholder_loop_correct [OF r] assms r show ?thesis
    by (intro exI [of _ out] exI [of _ rs]) (simp add: DoReplaceStringPlaceholders_def)
qed

text \<open>What \<open>lcpyT\<close> leaves in the destination: as much of the source as fits before a final 0. It returns the length of the source.\<close>

lemma lcpy_copy_eq:
  assumes "0 \<notin> set s" "n \<le> length dst"
  shows "i \<le> length s \<Longrightarrow> i \<le> n \<Longrightarrow> lcpy_copy dst (s @ 0 # junk) n i =
    Some (if length s < n then (take i dst @ drop i s @ 0 # drop (Suc (length s)) dst, Some (length s))
      else (take i dst @ take (n - i) (drop i s) @ drop n dst, None))"
  using assms(2)
proof (induction "n - i" arbitrary: dst i)
  case 0
  then have "i = n" by simp
  with 0 show ?case by (simp add: lcpy_copy.simps)
next
  case (Suc d)
  show ?case
  proof (cases "i = length s")
    case True
    with Suc show ?thesis
      by (simp add: lcpy_copy.simps [of dst] nth_append upd_conv_take_nth_drop)
  next
    case False
    then have i: "i < length s" "s ! i \<noteq> 0" using Suc.prems(1) assms(1) by (auto simp: in_set_conv_nth)
    have in_range: "i < n" "i < length dst" using Suc.hyps(2) Suc.prems by simp_all
    have "lcpy_copy dst (s @ 0 # junk) n i = lcpy_copy (dst[i := s ! i]) (s @ 0 # junk) n (Suc i)"
      using i in_range by (subst lcpy_copy.simps) (simp add: nth_append)
    moreover have "take (Suc i) (dst[i := s ! i]) = take i dst @ [s ! i]" using Suc by (simp add: take_Suc_conv_app_nth)
    moreover have "drop i s = s ! i # drop (Suc i) s" using i(1) by (simp add: Cons_nth_drop_Suc)
    moreover have "n - i = Suc (n - Suc i)" using Suc by simp
    ultimately show ?thesis using Suc.hyps(1) [of "Suc i" "dst[i := s ! i]"] Suc.hyps(2) Suc.prems i by simp
  qed
qed

lemma lcpy_count_eq: "0 \<notin> set s \<Longrightarrow> n \<le> length s \<Longrightarrow> lcpy_count (s @ 0 # junk) n = Some (length s)"
proof (induction "length s - n" arbitrary: n)
  case 0
  then have "n = length s" by simp
  then show ?case by (subst lcpy_count.simps) simp
next
  case (Suc d)
  then have n: "n < length s" by linarith
  with Suc.prems(1) have "s ! n \<noteq> 0" by (metis nth_mem)
  moreover have "lcpy_count (s @ 0 # junk) (Suc n) = Some (length s)"
    by (rule Suc.hyps(1)) (use Suc.hyps(2) Suc.prems(1) n in simp_all)
  ultimately show ?case using n by (subst lcpy_count.simps) (simp add: nth_append)
qed

lemma lcpyT_correct:
  assumes "0 \<notin> set s" "dst_size \<le> length dst"
  shows "lcpyT dst (s @ 0 # junk) dst_size = Some
    (if dst_size = 0 then dst
     else let copied = take (dst_size - 1) s in copied @ 0 # drop (Suc (length copied)) dst, length s)"
proof (cases "length s < dst_size")
  case True
  with lcpy_copy_eq [OF assms, of 0 junk] show ?thesis by (simp add: lcpyT_def)
next
  case False
  then have copy: "lcpy_copy dst (s @ 0 # junk) dst_size 0 = Some (take dst_size s @ drop dst_size dst, None)"
    using lcpy_copy_eq [OF assms, of 0 junk] by simp
  show ?thesis
  proof (cases dst_size)
    case 0
    with copy lcpy_count_eq [OF assms(1), of 0 junk] show ?thesis by (simp add: lcpyT_def)
  next
    case (Suc n)
    have "(take dst_size s @ drop dst_size dst)[n := 0] = take n s @ 0 # drop dst_size dst"
      using False Suc by (simp add: take_Suc_conv_app_nth list_update_append)
    with copy lcpy_count_eq [OF assms(1), of dst_size junk] False Suc show ?thesis
      by (simp add: lcpyT_def min_absorb2)
  qed
qed

lemma WriteIntoT_length: "1 < n \<Longrightarrow> \<exists>s. WriteIntoT dcheck str n = Ret s \<and> length s = n - 1"
  by (simp add: WriteIntoT_def)

lemma IsWprintfFormatPortable_literal: "CHR ''%'' \<notin> set format \<Longrightarrow> IsWprintfFormatPortable (format @ rest) = IsWprintfFormatPortable rest"
  unfolding IsWprintfFormatPortable_def by (induction format) auto

end
