(* ===== verification/Base_String_Utf8.thy ===== *)
theory Base_String_Utf8
  imports Base_Utf_Conversions
begin

text \<open>
  The two functions of \<open>third_party/chromium/base/strings/string_util.cc\<close> that read UTF-8: \<open>IsStringUTF8\<close> and
  \<open>TruncateUTF8ToByteSize\<close>. Both step through the bytes with \<open>CBU8_NEXT\<close>, the first one forwards and the second one
  backwards from the byte where the text is to be cut. The lemmas relate them to the texts encoded from code points.
\<close>

section \<open>The functions\<close>

text \<open>The loop stops early when a code point is no character; it always moves on.\<close>

function IsStringUTF8_from :: "string \<Rightarrow> int \<Rightarrow> int \<Rightarrow> bool" where
  "IsStringUTF8_from src src_len char_index =
     (if char_index < src_len then
        (let (next, code_point) = CBU8_NEXT src char_index src_len in
         if \<not> IsValidCharacter code_point then False else IsStringUTF8_from src src_len next)
      else True)"
  by pat_completeness auto
termination
  by (relation "measure (\<lambda>(_, src_len, i). nat (src_len - i))") (auto dest: CBU8_NEXT_measure)

declare IsStringUTF8_from.simps [simp del]

definition IsStringUTF8 :: "string \<Rightarrow> bool" where
  "IsStringUTF8 str = IsStringUTF8_from str (int32_of_size (length str)) 0"

text \<open>The loop of \<open>TruncateUTF8ToByteSize\<close>; the result is \<open>char_index\<close> after it.\<close>

function truncate_index :: "string \<Rightarrow> int \<Rightarrow> int \<Rightarrow> int" where
  "truncate_index data truncation_length char_index =
     (if 0 \<le> char_index then
        (let (next, code_point) = CBU8_NEXT data char_index truncation_length in
         if \<not> IsValidCharacter code_point \<or> \<not> IsValidCodepoint code_point
         then truncate_index data truncation_length (char_index - 1)
         else next)
      else char_index)"
  by pat_completeness auto
termination
  by (relation "measure (\<lambda>(_, _, i). nat (i + 1))") auto

declare truncate_index.simps [simp del]

definition TruncateUTF8ToByteSize :: "string \<Rightarrow> nat \<Rightarrow> string" where
  "TruncateUTF8ToByteSize input byte_size =
     (if byte_size > length input then input
      else
        let truncation_length = int32_of_size byte_size;
            char_index = truncate_index input truncation_length (truncation_length - 1)
        in if char_index \<ge> 0 then take (nat char_index) input else [])"

section \<open>Characters in a text\<close>

lemma IsValidCharacter_valid: "IsValidCharacter c \<Longrightarrow> IsValidCodepoint c"
  by (auto simp: IsValidCharacter_def IsValidCodepoint_def word_le_nat_alt word_less_nat_alt)

lemma utf8_encode_simps [simp]:
  "utf8_encode [] = []" "utf8_encode (c # cs) = append8 c @ utf8_encode cs" "utf8_encode (as @ bs) = utf8_encode as @ utf8_encode bs"
  by (simp_all add: utf8_encode_def)

lemma next_at:
  assumes "IsValidCodepoint c" "length (a @ append8 c) \<le> n" "n \<le> length (a @ append8 c @ b)"
  shows "CBU8_NEXT (a @ append8 c @ b) (int (length a)) (int n) = (int (length (a @ append8 c)), c)"
  using utf8.nxt_complete [of c "int (length a)" "a @ append8 c @ b" "int n"] assms by (simp add: units_at_def)

text \<open>The first byte of a character is no trail byte, the others are.\<close>

lemma encoded_bytes:
  assumes "IsValidCodepoint c" "encoded_at s i c" "k < length (CBU8_APPEND_UNSAFE c)"
  shows "trail8 (u8_at s (i + int k)) \<longleftrightarrow> 0 < k"
proof -
  let ?n = "unat c"
  have "length (enc8 ?n) = length (CBU8_APPEND_UNSAFE c)"
    using enc8_bytes [OF valid_small [OF assms(1)]] by (metis length_map)
  with assms have "unat (u8_at s (i + int k)) = enc8 ?n ! k" "k < length (enc8 ?n)"
    by (simp_all add: encoded_at_nat [OF valid_small [OF assms(1)]])
  moreover have "?n < 2097152" by (rule valid_small [OF assms(1)])
  ultimately show ?thesis
    by (auto simp: trail8_def enc8_def nth_Cons' split: if_splits)
qed

lemma encoded_at_app: "encoded_at (a @ append8 c @ b) (int (length a)) c"
  by (subst encoded_at_units) (simp_all add: units_at_def)

text \<open>A read that starts inside of a character gives none, and neither does one that is cut off within it.\<close>

lemma next_inside:
  assumes c: "IsValidCodepoint c" and k: "0 < k" "k < length (append8 c)" and n: "length a + k < n" "n \<le> length (a @ append8 c @ b)"
  shows "\<not> IsValidCodepoint (snd (CBU8_NEXT (a @ append8 c @ b) (int (length a + k)) (int n)))"
proof
  let ?s = "a @ append8 c @ b"
  obtain j d where d: "CBU8_NEXT ?s (int (length a + k)) (int n) = (j, d)" by fastforce
  assume "IsValidCodepoint (snd (CBU8_NEXT ?s (int (length a + k)) (int n)))"
  with d have v: "IsValidCodepoint d" by simp
  from utf8.nxt_sound [OF _ _ _ d] n v have u: "units_at ?s (int (length a + k)) (append8 d)" by simp
  then have "encoded_at ?s (int (length a + k)) d"
    using units_at_length [OF u] append8_length [of d] by (subst encoded_at_units) auto
  then have "\<not> trail8 (u8_at ?s (int (length a + k)))"
    using encoded_bytes [OF v, of ?s "int (length a + k)" 0] append8_length [of d] by simp
  moreover have "trail8 (u8_at ?s (int (length a) + int k))"
    using encoded_bytes [OF c encoded_at_app] k by simp
  ultimately show False by simp
qed

lemma next_cut_off:
  assumes c: "IsValidCodepoint c" and n: "length a < n" "n < length (a @ append8 c)"
  shows "\<not> IsValidCodepoint (snd (CBU8_NEXT (a @ append8 c @ b) (int (length a)) (int n)))"
proof
  let ?s = "a @ append8 c @ b"
  obtain j d where d: "CBU8_NEXT ?s (int (length a)) (int n) = (j, d)" by fastforce
  assume "IsValidCodepoint (snd (CBU8_NEXT ?s (int (length a)) (int n)))"
  with d have v: "IsValidCodepoint d" by simp
  from utf8.nxt_sound [OF _ _ _ d] n v
  have u: "units_at ?s (int (length a)) (append8 d)" and j: "j \<le> int n" "j = int (length a) + int (length (append8 d))" by simp_all
  have "CBU8_NEXT ?s (int (length a)) (int (length ?s)) = (j, d)"
    using utf8.nxt_complete [OF v _ u, of "int (length ?s)"] j n by simp
  moreover have "CBU8_NEXT ?s (int (length a)) (int (length ?s)) = (int (length (a @ append8 c)), c)"
    by (rule next_at [OF c]) simp_all
  ultimately show False using j n by simp
qed

section \<open>Testing a text\<close>

lemma IsStringUTF8_from_complete:
  "list_all IsValidCharacter cs \<Longrightarrow> IsStringUTF8_from (a @ utf8_encode cs) (int (length (a @ utf8_encode cs))) (int (length a))"
proof (induction cs arbitrary: a)
  case (Cons c cs)
  let ?s = "a @ append8 c @ utf8_encode cs"
  have "CBU8_NEXT ?s (int (length a)) (int (length ?s)) = (int (length (a @ append8 c)), c)"
    by (rule next_at) (use Cons.prems in \<open>simp_all add: IsValidCharacter_valid\<close>)
  with Cons.IH [of "a @ append8 c"] Cons.prems append8_length [of c] show ?case
    by (simp add: IsStringUTF8_from.simps [of ?s])
qed (simp add: IsStringUTF8_from.simps)

lemma IsStringUTF8_from_sound:
  "0 \<le> i \<Longrightarrow> i \<le> int (length s) \<Longrightarrow> IsStringUTF8_from s (int (length s)) i \<Longrightarrow>
    \<exists>cs. list_all IsValidCharacter cs \<and> drop (nat i) s = utf8_encode cs"
proof (induction s "int (length s)" i rule: IsStringUTF8_from.induct)
  case (1 s i)
  show ?case
  proof (cases "i < int (length s)")
    case True
    obtain j c where c: "CBU8_NEXT s i (int (length s)) = (j, c)" by fastforce
    with 1(4) True have valid: "IsValidCharacter c" and rest: "IsStringUTF8_from s (int (length s)) j"
      by (simp_all add: IsStringUTF8_from.simps [of s _ i] split: if_splits)
    from utf8.nxt_sound [OF 1(2) True _ c] IsValidCharacter_valid [OF valid]
    have j: "0 \<le> j" "j \<le> int (length s)" "j = i + int (length (append8 c))" and u: "units_at s i (append8 c)"
      using 1(2) by simp_all
    from 1(1) [OF True c [symmetric] refl _ j(1,2) rest] valid
    obtain cs where cs: "list_all IsValidCharacter cs" "drop (nat j) s = utf8_encode cs" by auto
    have "drop (nat i) s = append8 c @ drop (nat j) s"
      using u j(3) 1(2) append_take_drop_id [of "length (append8 c)" "drop (nat i) s"]
      by (simp add: units_at_def nat_add_distrib add.commute)
    with cs valid show ?thesis by (intro exI [of _ "c # cs"]) simp
  next
    case False
    with 1(3) show ?thesis by (intro exI [of _ "[]"]) simp
  qed
qed

lemma IsStringUTF8_iff:
  assumes "length s < 2 ^ 31"
  shows "IsStringUTF8 s \<longleftrightarrow> (\<exists>cs. list_all IsValidCharacter cs \<and> s = utf8_encode cs)"
  using IsStringUTF8_from_complete [of _ "[]"] IsStringUTF8_from_sound [of 0 s] assms
  by (auto simp: IsStringUTF8_def)

section \<open>Cutting a text\<close>

lemma truncate_skip:
  "0 \<le> a \<Longrightarrow> a \<le> b \<Longrightarrow> (\<And>i. a \<le> i \<Longrightarrow> i < b \<Longrightarrow> \<not> IsValidCodepoint (snd (CBU8_NEXT s i n))) \<Longrightarrow>
    truncate_index s n (b - 1) = truncate_index s n (a - 1)"
proof (induction "nat (b - a)" arbitrary: b)
  case (Suc d)
  then have "a \<le> b - 1" "d = nat (b - 1 - a)" by simp_all
  then have "truncate_index s n (b - 1 - 1) = truncate_index s n (a - 1)"
    using Suc.prems by (intro Suc.hyps(1)) simp_all
  moreover have "truncate_index s n (b - 1) = truncate_index s n (b - 1 - 1)"
    using Suc.prems(3) [of "b - 1"] \<open>a \<le> b - 1\<close> Suc.prems(1)
    by (simp add: truncate_index.simps [of s n "b - 1"] case_prod_beta)
  ultimately show ?case by simp
qed simp

lemma truncate_whole:
  assumes c: "IsValidCharacter c" and n: "length (a @ append8 c) \<le> n" "n \<le> length (a @ append8 c @ b)"
  shows "truncate_index (a @ append8 c @ b) (int n) (int (length (a @ append8 c)) - 1) = int (length (a @ append8 c))"
proof -
  let ?s = "a @ append8 c @ b"
  note valid = IsValidCharacter_valid [OF c]
  have "truncate_index ?s (int n) (int (length (a @ append8 c)) - 1) = truncate_index ?s (int n) (int (length a) + 1 - 1)"
  proof (rule truncate_skip)
    fix i
    assume i: "int (length a) + 1 \<le> i" "i < int (length (a @ append8 c))"
    then have "0 < nat i - length a" "nat i - length a < length (append8 c)" "i = int (length a + (nat i - length a))" by auto
    then show "\<not> IsValidCodepoint (snd (CBU8_NEXT ?s i (int n)))"
      using next_inside [OF valid, of "nat i - length a" a n b] n by simp
  qed (use append8_length [of c] in \<open>simp_all add: Suc_le_eq\<close>)
  also have "\<dots> = int (length (a @ append8 c))"
    using next_at [OF valid n] c valid by (simp add: truncate_index.simps [of ?s])
  finally show ?thesis .
qed

lemma truncate_cut_off:
  assumes c: "IsValidCharacter c" and n: "length a \<le> n" "n < length (a @ append8 c)"
  shows "truncate_index (a @ append8 c @ b) (int n) (int n - 1) = truncate_index (a @ append8 c @ b) (int n) (int (length a) - 1)"
proof (rule truncate_skip)
  note valid = IsValidCharacter_valid [OF c]
  fix i
  assume i: "int (length a) \<le> i" "i < int n"
  show "\<not> IsValidCodepoint (snd (CBU8_NEXT (a @ append8 c @ b) i (int n)))"
  proof (cases "i = int (length a)")
    case True
    with next_cut_off [OF valid, of a n b] i n show ?thesis by simp
  next
    case False
    then have "0 < nat i - length a" "nat i - length a < length (append8 c)" "i = int (length a + (nat i - length a))"
      using i n by auto
    then show ?thesis
      using next_inside [OF valid, of "nat i - length a" a n b] i n by simp
  qed
qed (use n in simp_all)

text \<open>The characters that fit.\<close>

lemma split_at_size:
  obtains k where "k \<le> length cs" "length (utf8_encode (take k cs)) \<le> n"
    "k < length cs \<Longrightarrow> n < length (utf8_encode (take (Suc k) cs))"
proof -
  let ?P = "\<lambda>k. k \<le> length cs \<and> length (utf8_encode (take k cs)) \<le> n"
  let ?k = "Greatest ?P"
  have P: "?P ?k" by (rule GreatestI_nat [where k = 0 and b = "length cs"]) simp_all
  have "n < length (utf8_encode (take (Suc ?k) cs))" if "?k < length cs"
  proof (rule ccontr)
    assume "\<not> n < length (utf8_encode (take (Suc ?k) cs))"
    with that have "?P (Suc ?k)" by simp
    then have "Suc ?k \<le> ?k" by (rule Greatest_le_nat [where b = "length cs"]) simp
    then show False by simp
  qed
  with P that show thesis by blast
qed

lemma truncate_encoded:
  assumes cs: "list_all IsValidCharacter cs" and k: "k \<le> length cs" "length (utf8_encode (take k cs)) \<le> n"
    "k < length cs \<Longrightarrow> n < length (utf8_encode (take (Suc k) cs))" and n: "n \<le> length (utf8_encode cs)"
  shows "truncate_index (utf8_encode cs) (int n) (int n - 1) = (if k = 0 then - 1 else int (length (utf8_encode (take k cs))))"
proof -
  let ?s = "utf8_encode cs" and ?a = "utf8_encode (take k cs)"
  have "truncate_index ?s (int n) (int n - 1) = truncate_index ?s (int n) (int (length ?a) - 1)"
  proof (cases "k < length cs")
    case True
    then have s: "?s = ?a @ append8 (cs ! k) @ utf8_encode (drop (Suc k) cs)"
      by (metis id_take_nth_drop utf8_encode_simps(2,3))
    have "n < length (?a @ append8 (cs ! k))" using k(3) [OF True] True by (simp add: take_Suc_conv_app_nth)
    moreover have "IsValidCharacter (cs ! k)" using cs True by (simp add: list_all_length)
    ultimately show ?thesis unfolding s using truncate_cut_off k(2) by blast
  next
    case False
    with k n show ?thesis by simp
  qed
  also have "\<dots> = (if k = 0 then - 1 else int (length ?a))"
  proof (cases k)
    case 0
    then show ?thesis by (simp add: truncate_index.simps)
  next
    case (Suc j)
    then have a: "?a = utf8_encode (take j cs) @ append8 (cs ! j)" using k(1) by (simp add: take_Suc_conv_app_nth)
    have s: "?s = utf8_encode (take j cs) @ append8 (cs ! j) @ utf8_encode (drop k cs)"
      using Suc k(1) by (metis Suc_le_lessD id_take_nth_drop utf8_encode_simps(2,3))
    have "IsValidCharacter (cs ! j)" using cs Suc k(1) by (simp add: list_all_length)
    with truncate_whole [of "cs ! j" "utf8_encode (take j cs)" n] k(2) n Suc show ?thesis
      unfolding a s by simp
  qed
  finally show ?thesis .
qed

text \<open>A text is cut after the last character that fits as a whole.\<close>

lemma TruncateUTF8_encoded:
  assumes cs: "list_all IsValidCharacter cs" and len: "length (utf8_encode cs) < 2 ^ 31"
  shows "\<exists>k \<le> length cs. TruncateUTF8ToByteSize (utf8_encode cs) byte_size = utf8_encode (take k cs) \<and>
    length (utf8_encode (take k cs)) \<le> byte_size \<and>
    (k < length cs \<longrightarrow> byte_size < length (utf8_encode (take (Suc k) cs)))"
proof (cases "byte_size > length (utf8_encode cs)")
  case True
  then show ?thesis by (intro exI [of _ "length cs"]) (simp add: TruncateUTF8ToByteSize_def)
next
  case False
  obtain k where k: "k \<le> length cs" "length (utf8_encode (take k cs)) \<le> byte_size"
    "k < length cs \<Longrightarrow> byte_size < length (utf8_encode (take (Suc k) cs))" by (rule split_at_size [of cs byte_size]) (rule that)
  have "utf8_encode cs = utf8_encode (take k cs) @ utf8_encode (drop k cs)"
    by (metis append_take_drop_id utf8_encode_simps(3))
  moreover have "truncate_index (utf8_encode cs) (int byte_size) (int byte_size - 1) =
      (if k = 0 then - 1 else int (length (utf8_encode (take k cs))))"
    by (rule truncate_encoded [OF cs k]) (use False in simp_all)
  ultimately have "TruncateUTF8ToByteSize (utf8_encode cs) byte_size = utf8_encode (take k cs)"
    using False len by (simp add: TruncateUTF8ToByteSize_def Let_def)
  with k show ?thesis by blast
qed

end
