(* ===== verification/Spec2Isabelle.thy ===== *)
theory Spec2Isabelle
  imports Cxtpl_Prelude Cxtpl_Errors Cxtpl_Codegen Cxtpl_Defaults Cxtpl_Main Cxtpl_Workers Cxtpl_Read_File Cxtpl_Examples Cxtpl_Meaning
    Base_String_Order Base_String_Replace Base_String_Build Base_String_Utf8
begin

text \<open>
  A verification development of CXTPL, a template engine that turns a text with tags into C++ code, and of the
  command line tool that drives it.

  The parts of the program and how they interact. A template is a text with tags such as \<open>[[~]] code\<close> (a line of
  C++), \<open>[[~ code ~]]\<close> (a block), \<open>[[+ e +]]\<close> (append a string), \<open>[[* e *]]\<close> (append with \<open>std::to_string\<close>) and
  \<open>[[include path include]]\<close>. The class \<open>Generator\<close> (\<open>src/core/CXTPL.cpp\<close>) searches the opening mark, decides which
  tag follows, cuts the text between the tags out of its string while it keeps a position for error messages, and
  calls the callback of the tag. The default tags and their callbacks (\<open>src/core/defaults/defaults.cpp\<close>) append code made
  by \<open>CodeGenerator\<close> (\<open>src/codegen/cpp/cpp_codegen.cpp\<close>); the callback of \<open>include\<close> reads a file, guesses its charset and
  runs a new \<open>Generator\<close> on it. Strings are UTF-16 inside the engine; they are converted, trimmed and compared by the
  part of Chromium's \<open>base\<close> that is kept in the repository. The tool (\<open>tool/src/main_native.cpp\<close>) reads its command line,
  then for each input file a task reads the file, runs the engine and replaces the output file atomically, or hands the
  code to the Cling interpreter (\<open>src/ClingInterpreterModule.cpp\<close>) when a custom generator is given.
\<close>

text \<open>
  The theories, each with the code it models.

  \<^item> \<open>Cxtpl_Prelude\<close>: strings, \<open>std::basic_string::find\<close> and \<open>substr\<close>, the results of a run (\<open>'a run\<close>: a value, an exception,
    the end of the process, or not finished) with their bind, the collections of simplification rules.
    \<open>Cxtpl_Words\<close>: masks, shifts and disjoint unions of machine words as arithmetic.
  \<^item> \<open>Base_Icu_Utf\<close>: the macros of \<open>icu_utf.h\<close> and the decoder of \<open>icu_utf.cc\<close>. \<open>Base_Utf_Conversions\<close>:
    \<open>utf_string_conversions.cc\<close> and \<open>utf_string_conversion_utils.cc\<close>. \<open>Base_String_Ascii\<close>, \<open>Base_String_Piece\<close> and
    \<open>Base_String_Trim\<close>: the functions of \<open>string_util.cc\<close> and \<open>string_piece.cc\<close> that the engine uses and those they stand on,
    with the ASCII test that reads a machine word at a time. The rest of these files: \<open>Base_String_Order\<close> (comparison, which for 8-bit
    characters depends on the compiler, access and copies), \<open>Base_String_Replace\<close> (the replacement of substrings and of characters:
    its ways in place and through a new buffer give what one pass from left to right gives), \<open>Base_String_Build\<close> (\<open>JoinString\<close>,
    placeholders with their offsets, \<open>strlcpy\<close>, formats of \<open>wprintf\<close>) and \<open>Base_String_Utf8\<close> (\<open>IsStringUTF8\<close> accepts the encodings of
    characters, \<open>TruncateUTF8ToByteSize\<close> cuts such a text after the last character that fits).
  \<^item> \<open>Cxtpl_Errors\<close>: \<open>errors.hpp\<close>, its error category, \<open>OUTCOME_TRY\<close>. \<open>Cxtpl_Position\<close>: \<open>shiftPos\<close>, \<open>removePrefix\<close>,
    \<open>getLineNum\<close>, \<open>highlightTextPos\<close>, \<open>ErrorDetails\<close>. \<open>Cxtpl_Generator\<close>: the tags of \<open>tags.hpp\<close> and every function of
    \<open>Generator\<close>; its mutable string, position and result are passed along and returned, and its attributes are the record
    \<open>Generator\<close>. \<open>Cxtpl_Template\<close>: the specification of the engine (\<open>parse\<close>, \<open>print_template\<close>, \<open>canonical\<close>, \<open>emit\<close>) and the
    proof that the engine computes it.
  \<^item> \<open>Cxtpl_Codegen\<close>: the functions of \<open>CodeGenerator\<close>, and a lexer for raw string literals that says what the generated
    code means. \<open>Cxtpl_Charset\<close>: \<open>ConvertResponseToUTF16\<close> over \<open>CodepageToUTF16\<close>. \<open>Cxtpl_Defaults\<close>: \<open>read_file\<close>, the callbacks,
    the default tags, runs with includes. \<open>Cxtpl_Read_File\<close>: the variant of \<open>read_file\<close> that uses folly.
  \<^item> \<open>Cxtpl_System\<close>: stateful computations over an unknown state of the system (\<open>('s, 'a) io\<close>), paths, and the interface
    \<open>os\<close> of the operations the tool calls. \<open>Cxtpl_Disk\<close>: a disk with these operations, each of which may fail or stop half
    way on a schedule. \<open>Cxtpl_Tool_Files\<close>: \<open>writeToFile\<close>, \<open>randomString\<close>, \<open>atomicallyWriteFileToDisk\<close>, \<open>readFile\<close>.
    \<open>Cxtpl_Init\<close>: the class \<open>Init\<close>. \<open>Cxtpl_Args\<close>: the quoted lists of names and the options for Cling. \<open>Cxtpl_Cling\<close>: \<open>InterpreterModule\<close> and the custom generator
    of \<open>examples/text_generator\<close>. \<open>Cxtpl_Tool\<close>: \<open>processTemplate\<close>, the timeouts, the tasks and their sequence; \<open>scope\<close>, which
    says in which directories a run may look and write. \<open>Cxtpl_Main\<close>: \<open>main\<close>.
  \<^item> \<open>Cxtpl_Steps\<close>: computations that can be interrupted (\<open>('s, 'a) prog\<close>, a tree of steps), their run without interruption, and rely
    and guarantee conditions for them. \<open>Cxtpl_Executor\<close>: threads that take tasks from a queue and make one step at a time
    on a schedule. \<open>Cxtpl_Threads\<close>: \<open>readFile\<close>, \<open>atomicallyWriteFileToDisk\<close>, \<open>processTemplate\<close> and the task of \<open>run_generation\<close> as sequences of
    steps (\<open>readFile_steps\<close>, ...). \<open>Cxtpl_Generation\<close>: \<open>run_generation\<close>. \<open>Cxtpl_Runs\<close>: its properties, with evaluated runs.
    \<open>Cxtpl_Workers\<close>: an abstraction of the threads to the current directory they share, as a step relation.
  \<^item> \<open>Cxtpl_Lexer\<close>: the tokens of a C++ source, read by a machine one character at a time. \<open>Cxtpl_Meaning\<close>: the program of a
    template (\<open>source_tokens\<close>) and the proof that the generated source is this program.
  \<^item> \<open>Cxtpl_Plain\<close>: ASCII templates, checked by evaluation. \<open>Cxtpl_Examples\<close>: \<open>examples/simple\<close>, whose template is in its
    source, and \<open>examples/cmake_integration\<close>.
\<close>

text \<open>
  What the lemmas show.

  \<^item> The engine is a function with a specification: a loop of searches with a position, a counter and several attempts at
    a closing tag computes \<open>emit\<close> of \<open>parse\<close>, with the same error texts. It succeeds exactly on prints of canonical
    templates, no character is lost, and the callbacks run in the order of the tags.
  \<^item> With acyclic includes a run returns a value and the nesting depth of the model does not matter; files that include
    each other at their start never return. Raw text survives the C++ compiler exactly when it does not hold the closing mark of
    the literal.
  \<^item> The tokens of the generated source are those of the code in the template, in order, a statement for each expression and a literal with
    exactly the characters of each text, whenever the code of each tag is a fragment of C++ on its own; control structures may
    stretch over any number of tags.
  \<^item> The tool never leaves a torn output, whatever operation fails and however the run ends; a run that returns has translated
    every template; when \<open>main\<close> returns success, every file named on the command line has been translated; the exit code
    of every kind of bad command line; quoted names are read back exactly.
  \<^item> All this holds for any number of threads, in any interleaving and at any moment of it, with the names resolved in one of three
    directories. One thread, one directory or absolute names leave no choice; otherwise a name can be resolved in the wrong one, and an
    output be lost, which an evaluated run shows. Every schedule that gives each thread its turn often enough ends the run.
  \<^item> UTF-8, UTF-16 and UTF-32 are converted without loss exactly when the result flag says so, the output is always
    well-formed, and no buffer is overrun.
\<close>

text \<open>
  The threads. Which thread moves is a schedule, a list of thread numbers that is a parameter of \<open>run_generation\<close> and \<open>main\<close>; a schedule may
  stop anywhere, so what is shown for all schedules holds at every moment. One step is one call that reads or changes what the threads
  share, the current directory or a file: a task has at most 17 of them. An open file is read to its end in one step and the
  temporary file, which has a name of its own, is written in one step; the engine sees the included files in one state. Of
  \<open>folly::CPUThreadPoolExecutor\<close> it is assumed what it documents: tasks are taken in the order in which they were added, an expired task
  runs its callback instead, an exception that leaves a task is logged, \<open>join\<close> waits for all tasks; that \<open>add\<close> blocks when the queue
  is full is a schedule in which the task is taken later.

  Interfaces, and how they are met. \<open>posix\<close> (\<open>Cxtpl_System\<close>) fixes the operations of the system and what the content of the files,
  the current directory and the open files are in its state, and assumes the documented behaviour of each call, failures
  included; \<open>Cxtpl_Tool_Files\<close>, \<open>Cxtpl_Tool\<close>, \<open>Cxtpl_Cling\<close>, \<open>Cxtpl_Main\<close> and \<open>Cxtpl_Read_File\<close> prove their laws inside it and
  \<open>Cxtpl_Disk\<close> interprets it on the disk with faults. \<open>appending_tags\<close> (\<open>Cxtpl_Template\<close>) is the contract of callbacks that append to the result;
  the default tags meet it in \<open>Cxtpl_Defaults\<close>. \<open>utf_source\<close> and its extension \<open>utf_conversion\<close> (\<open>Base_Utf_Conversions\<close>) are the
  contracts of a decoder and of a conversion, met by the three decoders and the six conversions. \<open>ascii_mask\<close>
  (\<open>Base_String_Ascii\<close>) is the word-wise ASCII test for characters of three widths, and \<open>trim_search\<close> (\<open>Base_String_Trim\<close>) what trimming
  needs of a search, met by those of \<open>Base_String_Piece\<close>. \<open>string_matcher\<close> (\<open>Base_String_Replace\<close>) is what the replacement asks of a matcher, met by
  both matchers of the code. \<open>quiet_startup\<close> (\<open>Cxtpl_Init\<close>) says that setting up logging
  leaves the files alone. \<open>interference\<close> (\<open>Cxtpl_Executor\<close>) is the contract of tasks that run at once: what
  each guarantees, the others can rely on; the tasks of the tool meet it in \<open>Cxtpl_Generation\<close> when no two of them may write the same
  file (\<open>separate\<close>), and \<open>race_free\<close> says when the directory a thread is in does not matter.

  Bounds and fuel. Machine integers have their width; \<open>size_t\<close> values are natural numbers, converted where the code
  converts them, and the properties ask for sources below \<open>2 ^ 63\<close> units (below \<open>2 ^ 61\<close> with includes, below \<open>2 ^ 31\<close> for the
  conversions, whose indices are 32-bit integers). The loop of the engine has the bound of its counter, which the
  source cannot reach. The includes of a run nest; \<open>code_include_cb\<close> has a depth and is \<open>Pending\<close> below it, and \<open>includes_terminate\<close>
  shows that any depth above the ranks of the files gives the same value. The read loops are partial functions: \<open>None\<close> is an
  input that never ends, and the laws of \<open>posix\<close> exclude it. A chunk is 4000 bytes; \<open>preallocate\<close> may
  hand out a larger one, on which nothing proved here depends.
\<close>

text \<open>
  What is not modelled, and why. Log messages and the console output of the tool are not part of the state. \<open>boost::program_options\<close>, ICU, glog, Cling, folly and the
  file system are not in the repository: they are parameters (the parsed command line, the record \<open>icu\<close>, an interpreter, the
  record \<open>os\<close>, the calls of \<open>Init\<close> in the record \<open>startup\<close>), with named hypotheses for what they document. Code under \<open>#if 0\<close>, the class \<open>CPUTask\<close> in a comment, and
  \<open>Generator::generate\<close> under \<open>CXTPL_FS\<close> (it does not compile) are left out, as are macros that only declare. The times the tasks
  wait in the queue are a parameter, and the statistics of the executor are only logged. Of \<open>string_util.cc\<close> there is no \<open>FormatBytesUnlocalized\<close>, which prints a floating-point number with
  \<open>snprintf\<close>. The rest of Chromium's \<open>base\<close>, and everything else under \<open>third_party\<close>, is
  not reached by the engine.
\<close>

section \<open>From the command line to the program of a template\<close>

text \<open>What the engine sees of the system when a task of the tool runs it.\<close>

definition tool_env :: "'s tool \<Rightarrow> 's \<Rightarrow> env" where
  "tool_env tool s = \<lparr>files = tool_view tool s, converters = tool_icu tool\<rparr>"

lemma template_result_tokens:
  assumes "fst (template_result tool contents u) = success code"
    and "source_ok (tool_depth tool) (tool_env tool u) (decoded (tool_env tool u) contents)"
  shows "lex_from Between code = (Between, source_tokens (tool_depth tool) (tool_env tool u) (decoded (tool_env tool u) contents))"
proof (rule generate_tokens [OF _ assms(2)])
  show "generate (tool_depth tool) (tool_build tool) (tool_env tool u) (decoded (tool_env tool u) contents) = success code"
    using assms(1) by (simp add: template_result_def tool_env_def decoded_def)
qed


lemma hi_source:
  "decoded (tool_env example_tool u) ''hi'' = ASCIIToUTF16 (plain_print [] ''hi'')"
  "source_ok 0 env (ASCIIToUTF16 (plain_print [] ''hi''))"
  "source_tokens 0 env (ASCIIToUTF16 (plain_print [] ''hi'')) = append_statement [Raw_literal ''R'' ''hi'']"
proof -
  have "snd (ConvertResponseToUTF16 plain_icu [] ''hi'') = ASCIIToUTF16 ''hi''" by code_simp
  then show "decoded (tool_env example_tool u) ''hi'' = ASCIIToUTF16 (plain_print [] ''hi'')"
    by (simp add: decoded_def tool_env_def example_tool_def plain_print_def)
  have ok: "list_all piece_ok []" "str_find ''[['' ''hi'' = None" "plain_ok [] ''hi''" "plain_fragments [] ''hi''"
    "plain_tokens [] ''hi'' = append_statement [Raw_literal ''R'' ''hi'']"
    by code_simp+
  have len: "length (plain_print [] ''hi'') < 2 ^ 61" by (simp add: plain_print_def)
  show "source_ok 0 env (ASCIIToUTF16 (plain_print [] ''hi''))" by (rule source_plain(1) [OF ok(1-4) len])
  show "source_tokens 0 env (ASCIIToUTF16 (plain_print [] ''hi'')) = append_statement [Raw_literal ''R'' ''hi'']"
    unfolding source_plain(2) [OF ok(1-4) len] by (rule ok(5))
qed


end
